(* ===== verification/Prelude.thy ===== *)
theory Prelude
  imports Main "HOL-Library.Word" "HOL-Library.Code_Target_Numeral"
begin

text \<open>
  Shared vocabulary of the development: the machine integers and byte strings of the Rust code,
  the \<open>Result\<close> plumbing (\<open>?\<close>, \<open>map_err\<close>, \<open>ok_or\<close>) over sums, the same plumbing for
  code that also threads a state (a random source, a storage adapter), \<open>checked_add\<close>,
  big-endian encodings, and the fact collections that the component theories fill.
\<close>

section \<open>Fact collections\<close>

named_theorems eff_simps \<open>unfolding of the state-and-error plumbing\<close>
named_theorems wf_intros \<open>well-formedness of values built by the code\<close>

section \<open>Machine integers and byte strings\<close>

type_synonym u8 = "8 word"
type_synonym u32 = "32 word"
type_synonym u64 = "64 word"
type_synonym bytes = "u8 list"

text \<open>\<open>u64::checked_add\<close>, \<open>None\<close> on overflow.\<close>

definition checked_add :: "u64 \<Rightarrow> u64 \<Rightarrow> u64 option" where
  "checked_add a b = (if unat a + unat b < 2 ^ 64 then Some (a + b) else None)"

lemma checked_add_Some:
  "checked_add a b = Some c \<longleftrightarrow> c = a + b \<and> unat a + unat b < 2 ^ 64"
  by (auto simp: checked_add_def)

lemma checked_add_unat: "checked_add a b = Some c \<Longrightarrow> unat c = unat a + unat b"
  by (auto simp: checked_add_def unat_word_ariths split: if_splits)

lemma checked_add_less: "checked_add a 1 = Some c \<Longrightarrow> a < c"
  by (simp add: word_less_nat_alt checked_add_unat)

lemma checked_add_None: "checked_add a 1 = None \<longleftrightarrow> a = 2 ^ 64 - 1"
proof -
  have "unat a + 1 < 2 ^ 64 \<longleftrightarrow> a \<noteq> 2 ^ 64 - 1"
    using unsigned_less [of a, where 'a = nat] by (simp add: word_unat_eq_iff) linarith
  then show ?thesis by (simp add: checked_add_def)
qed

text \<open>\<open>u32::to_be_bytes\<close> and \<open>u64::to_be_bytes\<close>.\<close>

definition u32_to_be_bytes :: "u32 \<Rightarrow> bytes" where
  "u32_to_be_bytes w = map (\<lambda>i. ucast (drop_bit (8 * i) w)) [3, 2, 1, 0]"

definition u64_to_be_bytes :: "u64 \<Rightarrow> bytes" where
  "u64_to_be_bytes w = map (\<lambda>i. ucast (drop_bit (8 * i) w)) [7, 6, 5, 4, 3, 2, 1, 0]"

lemma length_u32_to_be_bytes [simp]: "length (u32_to_be_bytes w) = 4"
  by (simp add: u32_to_be_bytes_def)

lemma length_u64_to_be_bytes [simp]: "length (u64_to_be_bytes w) = 8"
  by (simp add: u64_to_be_bytes_def)

lemma unat_of_nat_u32: "n < 2 ^ 32 \<Longrightarrow> unat (of_nat n :: u32) = n"
  by (simp add: unat_of_nat take_bit_nat_eq_self)

text \<open>A word is determined by its big-endian bytes: every bit sits in one of them.\<close>

lemma bit_eq_from_chunks:
  fixes v w :: "'a::len word"
  assumes "\<And>i. i < n \<Longrightarrow> (ucast (drop_bit (8 * i) v) :: u8) = ucast (drop_bit (8 * i) w)"
    and "LENGTH('a) \<le> 8 * n"
  shows "v = w"
proof (rule bit_word_eqI)
  fix k assume "k < LENGTH('a)"
  then have i: "k div 8 < n" using assms(2) by linarith
  have "bit (ucast (drop_bit (8 * (k div 8)) v) :: u8) (k mod 8)
      = bit (ucast (drop_bit (8 * (k div 8)) w) :: u8) (k mod 8)"
    by (simp add: assms(1) [OF i])
  then show "bit v k = bit w k"
    by (simp add: bit_ucast_iff bit_drop_bit_eq)
qed

lemma u32_to_be_bytes_inj: "u32_to_be_bytes v = u32_to_be_bytes w \<longleftrightarrow> v = w"
proof
  assume eq: "u32_to_be_bytes v = u32_to_be_bytes w"
  show "v = w"
  proof (rule bit_eq_from_chunks [where n = 4])
    fix i :: nat assume "i < 4"
    then have "i \<in> {0, 1, 2, 3}" by auto
    with eq show "(ucast (drop_bit (8 * i) v) :: u8) = ucast (drop_bit (8 * i) w)"
      by (auto simp: u32_to_be_bytes_def)
  qed simp
qed simp

lemma u64_to_be_bytes_inj: "u64_to_be_bytes v = u64_to_be_bytes w \<longleftrightarrow> v = w"
proof
  assume eq: "u64_to_be_bytes v = u64_to_be_bytes w"
  show "v = w"
  proof (rule bit_eq_from_chunks [where n = 8])
    fix i :: nat assume "i < 8"
    then have "i \<in> {0, 1, 2, 3, 4, 5, 6, 7}" by auto
    with eq show "(ucast (drop_bit (8 * i) v) :: u8) = ucast (drop_bit (8 * i) w)"
      by (auto simp: u64_to_be_bytes_def)
  qed simp
qed simp

section \<open>Results\<close>

text \<open>
  A Rust \<open>Result<T, E>\<close> is \<open>'e + 'a\<close>: \<open>Inl\<close> is \<open>Err\<close>, \<open>Inr\<close> is \<open>Ok\<close>. The
  operator \<open>?\<close> followed by the rest of the function is \<open>and_then\<close>.
\<close>

definition and_then :: "'e + 'a \<Rightarrow> ('a \<Rightarrow> 'e + 'b) \<Rightarrow> 'e + 'b" where
  "and_then r f = (case r of Inl e \<Rightarrow> Inl e | Inr x \<Rightarrow> f x)"

definition map_err :: "('e \<Rightarrow> 'f) \<Rightarrow> 'e + 'a \<Rightarrow> 'f + 'a" where
  "map_err f r = (case r of Inl e \<Rightarrow> Inl (f e) | Inr x \<Rightarrow> Inr x)"

definition ok_or :: "'e \<Rightarrow> 'a option \<Rightarrow> 'e + 'a" where
  "ok_or e x = (case x of None \<Rightarrow> Inl e | Some y \<Rightarrow> Inr y)"

definition is_ok :: "'e + 'a \<Rightarrow> bool" where
  "is_ok r = (case r of Inl _ \<Rightarrow> False | Inr _ \<Rightarrow> True)"

definition result_ok :: "'e + 'a \<Rightarrow> 'a option" where
  "result_ok r = (case r of Inl _ \<Rightarrow> None | Inr x \<Rightarrow> Some x)"

lemma and_then_simps [simp]:
  "and_then (Inl e) f = Inl e"
  "and_then (Inr x) f = f x"
  by (simp_all add: and_then_def)

lemma and_then_Inr: "and_then r f = Inr y \<longleftrightarrow> (\<exists>x. r = Inr x \<and> f x = Inr y)"
  by (cases r) auto

lemma and_then_Inl:
  "and_then r f = Inl e \<longleftrightarrow> r = Inl e \<or> (\<exists>x. r = Inr x \<and> f x = Inl e)"
  by (cases r) auto

lemma map_err_simps [simp]:
  "map_err f (Inl e) = Inl (f e)"
  "map_err f (Inr x) = Inr x"
  by (simp_all add: map_err_def)

lemma map_err_Inr [simp]: "map_err f r = Inr x \<longleftrightarrow> r = Inr x"
  by (cases r) auto

lemma map_err_Inl: "map_err f r = Inl e \<longleftrightarrow> (\<exists>d. r = Inl d \<and> e = f d)"
  by (cases r) auto

lemma ok_or_simps [simp]:
  "ok_or e None = Inl e"
  "ok_or e (Some x) = Inr x"
  by (simp_all add: ok_or_def)

lemma ok_or_Inr [simp]: "ok_or e x = Inr y \<longleftrightarrow> x = Some y"
  by (cases x) auto

lemma ok_or_Inl [simp]: "ok_or e x = Inl d \<longleftrightarrow> x = None \<and> d = e"
  by (cases x) auto

lemma is_ok_simps [simp]:
  "is_ok (Inl e) = False"
  "is_ok (Inr x) = True"
  by (simp_all add: is_ok_def)

lemma is_ok_iff: "is_ok r \<longleftrightarrow> (\<exists>x. r = Inr x)"
  by (cases r) auto

lemma result_ok_simps [simp]:
  "result_ok (Inl e) = None"
  "result_ok (Inr x) = Some x"
  by (simp_all add: result_ok_def)

lemma result_ok_Some [simp]: "result_ok r = Some x \<longleftrightarrow> r = Inr x"
  by (cases r) auto

section \<open>Results with a threaded state\<close>

text \<open>
  A Rust function that takes \<open>&mut\<close> access to a state (a random source or a storage adapter)
  and returns a \<open>Result\<close>: the state comes back on both branches, since the code may have
  changed it before it failed.
\<close>

type_synonym ('s, 'e, 'a) eff = "'s \<Rightarrow> ('e + 'a) \<times> 's"

definition ret :: "'a \<Rightarrow> ('s, 'e, 'a) eff" where
  "ret x = (\<lambda>s. (Inr x, s))"

definition lift :: "'e + 'a \<Rightarrow> ('s, 'e, 'a) eff" where
  "lift r = (\<lambda>s. (r, s))"

definition bindE :: "('s, 'e, 'a) eff \<Rightarrow> ('a \<Rightarrow> ('s, 'e, 'b) eff) \<Rightarrow> ('s, 'e, 'b) eff" where
  "bindE m f = (\<lambda>s. case m s of (Inl e, s') \<Rightarrow> (Inl e, s') | (Inr x, s') \<Rightarrow> f x s')"

definition map_errE :: "('e \<Rightarrow> 'f) \<Rightarrow> ('s, 'e, 'a) eff \<Rightarrow> ('s, 'f, 'a) eff" where
  "map_errE f m = (\<lambda>s. case m s of (r, s') \<Rightarrow> (map_err f r, s'))"

lemma ret_apply [simp]: "ret x s = (Inr x, s)"
  by (simp add: ret_def)

lemma lift_apply [simp]: "lift r s = (r, s)"
  by (simp add: lift_def)

lemma bindE_apply [eff_simps]:
  "bindE m f s = (case m s of (Inl e, s') \<Rightarrow> (Inl e, s') | (Inr x, s') \<Rightarrow> f x s')"
  by (simp add: bindE_def)

lemma bindE_lift [eff_simps]:
  "bindE (lift r) f s = (case r of Inl e \<Rightarrow> (Inl e, s) | Inr x \<Rightarrow> f x s)"
  by (cases r) (simp_all add: bindE_def)

lemma bindE_ret [simp]: "bindE (ret x) f = f x"
  by (simp add: bindE_def ret_def)

lemma bindE_Inr:
  "bindE m f s = (Inr y, t) \<longleftrightarrow> (\<exists>x s'. m s = (Inr x, s') \<and> f x s' = (Inr y, t))"
  by (auto simp: bindE_def split: prod.splits sum.splits)

lemma bindE_Inl:
  "bindE m f s = (Inl e, t)
    \<longleftrightarrow> m s = (Inl e, t) \<or> (\<exists>x s'. m s = (Inr x, s') \<and> f x s' = (Inl e, t))"
  by (auto simp: bindE_def split: prod.splits sum.splits)

lemma bindE_InrE:
  assumes "bindE m f s = (Inr y, t)"
  obtains x s' where "m s = (Inr x, s')" and "f x s' = (Inr y, t)"
  using assms by (auto simp: bindE_Inr)

lemma map_errE_apply [eff_simps]:
  "map_errE f m s = (case m s of (r, s') \<Rightarrow> (map_err f r, s'))"
  by (simp add: map_errE_def)

lemma map_errE_Inr [simp]: "map_errE f m s = (Inr x, t) \<longleftrightarrow> m s = (Inr x, t)"
  by (auto simp: map_errE_def split: prod.splits)

lemma map_errE_Inl:
  "map_errE f m s = (Inl e, t) \<longleftrightarrow> (\<exists>d. m s = (Inl d, t) \<and> e = f d)"
  by (auto simp: map_errE_def map_err_Inl split: prod.splits)

lemma is_ok_fst: "is_ok (fst p) \<longleftrightarrow> (\<exists>x s. p = (Inr x, s))"
  by (cases p) (auto simp: is_ok_iff)

end
