(* ===== verification/Rust_String.thy ===== *)
theory Rust_String
  imports Prelude
begin

text \<open>
  Rust strings. A \<open>char\<close> is a Unicode scalar value, modelled as its number; a \<open>String\<close> or
  \<open>&str\<close> is the list of its characters. \<open>chars().count()\<close> is the length of that list and
  \<open>len()\<close> the length of its UTF-8 encoding. \<open>std::str::from_utf8\<close> is the decoder below, which
  accepts exactly the well-formed sequences of the Unicode standard (no overlong forms, no
  surrogates, nothing above U+10FFFF). The lemmas show that it accepts exactly the encodings of
  strings and inverts them.
\<close>

type_synonym uchar = nat
type_synonym rstring = "uchar list"

definition is_scalar :: "uchar \<Rightarrow> bool" where
  "is_scalar c \<longleftrightarrow> c < 0xD800 \<or> 0xE000 \<le> c \<and> c < 0x110000"

definition wf_str :: "rstring \<Rightarrow> bool" where
  "wf_str s \<longleftrightarrow> list_all is_scalar s"

text \<open>A string literal of the source (all of them are ASCII).\<close>

definition str :: "string \<Rightarrow> rstring" where
  "str s = map of_char s"

lemma str_inj [simp]: "str s = str t \<longleftrightarrow> s = t"
  unfolding str_def by (rule inj_map_eq_map) (simp add: inj_def)

lemma length_str [simp]: "length (str s) = length s"
  by (simp add: str_def)

section \<open>UTF-8\<close>

text \<open>The byte with a given value, \<open>n as u8\<close>.\<close>

definition u8_of :: "nat \<Rightarrow> u8" where
  "u8_of n = of_nat n"

lemma unat_u8_of [simp]: "n < 256 \<Longrightarrow> unat (u8_of n) = n"
  by (simp add: u8_of_def unat_of_nat take_bit_nat_eq_self)

lemma u8_of_unat [simp]: "u8_of (unat b) = b"
  by (simp add: u8_of_def)

definition utf8_char :: "uchar \<Rightarrow> bytes" where
  "utf8_char c =
     (if c < 0x80 then [u8_of c]
      else if c < 0x800 then [u8_of (0xC0 + c div 64), u8_of (0x80 + c mod 64)]
      else if c < 0x10000 then
        [u8_of (0xE0 + c div 4096), u8_of (0x80 + c div 64 mod 64), u8_of (0x80 + c mod 64)]
      else
        [u8_of (0xF0 + c div 262144), u8_of (0x80 + c div 4096 mod 64),
         u8_of (0x80 + c div 64 mod 64), u8_of (0x80 + c mod 64)])"

definition as_bytes :: "rstring \<Rightarrow> bytes" where
  "as_bytes s = concat (map utf8_char s)"

text \<open>\<open>str::len\<close> counts bytes, \<open>chars().count()\<close> counts characters.\<close>

definition byte_len :: "rstring \<Rightarrow> nat" where
  "byte_len s = length (as_bytes s)"

definition chars_count :: "rstring \<Rightarrow> nat" where
  "chars_count s = length s"

definition is_cont :: "u8 \<Rightarrow> bool" where
  "is_cont b \<longleftrightarrow> 0x80 \<le> unat b \<and> unat b < 0xC0"

text \<open>The first character of a byte string and the bytes after it.\<close>

definition utf8_next :: "bytes \<Rightarrow> (uchar \<times> bytes) option" where
  "utf8_next bs =
     (case bs of
        [] \<Rightarrow> None
      | b0 # bs0 \<Rightarrow>
        (let n0 = unat b0 in
         if n0 < 0x80 then Some (n0, bs0)
         else if n0 < 0xC2 then None
         else if n0 < 0xE0 then
           (case bs0 of
              b1 # r \<Rightarrow>
                (if is_cont b1 then Some ((n0 - 0xC0) * 64 + (unat b1 - 0x80), r) else None)
            | _ \<Rightarrow> None)
         else if n0 < 0xF0 then
           (case bs0 of
              b1 # b2 # r \<Rightarrow>
                (if is_cont b1 \<and> is_cont b2 \<and> (n0 = 0xE0 \<longrightarrow> 0xA0 \<le> unat b1)
                    \<and> (n0 = 0xED \<longrightarrow> unat b1 < 0xA0)
                 then Some ((n0 - 0xE0) * 4096 + (unat b1 - 0x80) * 64 + (unat b2 - 0x80), r)
                 else None)
            | _ \<Rightarrow> None)
         else if n0 < 0xF5 then
           (case bs0 of
              b1 # b2 # b3 # r \<Rightarrow>
                (if is_cont b1 \<and> is_cont b2 \<and> is_cont b3 \<and> (n0 = 0xF0 \<longrightarrow> 0x90 \<le> unat b1)
                    \<and> (n0 = 0xF4 \<longrightarrow> unat b1 < 0x90)
                 then Some ((n0 - 0xF0) * 262144 + (unat b1 - 0x80) * 4096
                        + (unat b2 - 0x80) * 64 + (unat b3 - 0x80), r)
                 else None)
            | _ \<Rightarrow> None)
         else None))"

lemma utf8_next_shorter: "utf8_next bs = Some (c, r) \<Longrightarrow> length r < length bs"
  by (auto simp: utf8_next_def Let_def split: list.splits if_splits)

function from_utf8 :: "bytes \<Rightarrow> rstring option" where
  "from_utf8 bs =
     (if bs = [] then Some []
      else case utf8_next bs of
             None \<Rightarrow> None
           | Some (c, r) \<Rightarrow> map_option (\<lambda>s. c # s) (from_utf8 r))"
  by pat_completeness auto
termination
  by (relation "measure length") (auto simp: utf8_next_shorter)

declare from_utf8.simps [simp del]

lemma from_utf8_Nil [simp]: "from_utf8 [] = Some []"
  by (simp add: from_utf8.simps)

section \<open>The decoder inverts the encoder\<close>

lemma digits2:
  fixes a d :: nat
  assumes "d < 64"
  shows "(a * 64 + d) div 64 = a" and "(a * 64 + d) mod 64 = d"
  using assms by simp_all

lemma digits3:
  fixes a b d :: nat
  assumes "b < 64" and "d < 64"
  shows "(a * 4096 + b * 64 + d) div 4096 = a"
    and "(a * 4096 + b * 64 + d) div 64 mod 64 = b"
    and "(a * 4096 + b * 64 + d) mod 64 = d"
proof -
  have c: "a * 4096 + b * 64 + d = (a * 64 + b) * 64 + d" by simp
  have q: "(a * 4096 + b * 64 + d) div 64 = a * 64 + b"
    unfolding c by (rule digits2) (rule assms(2))
  have "(a * 4096 + b * 64 + d) div (64 * 64) = (a * 64 + b) div 64"
    unfolding div_mult2_eq q ..
  then show "(a * 4096 + b * 64 + d) div 4096 = a" using assms(1) by simp
  show "(a * 4096 + b * 64 + d) div 64 mod 64 = b" unfolding q using assms(1) by simp
  show "(a * 4096 + b * 64 + d) mod 64 = d" unfolding c by (rule digits2) (rule assms(2))
qed

lemma digits4:
  fixes a b d e :: nat
  assumes "b < 64" and "d < 64" and "e < 64"
  shows "(a * 262144 + b * 4096 + d * 64 + e) div 262144 = a"
    and "(a * 262144 + b * 4096 + d * 64 + e) div 4096 mod 64 = b"
    and "(a * 262144 + b * 4096 + d * 64 + e) div 64 mod 64 = d"
    and "(a * 262144 + b * 4096 + d * 64 + e) mod 64 = e"
proof -
  have c: "a * 262144 + b * 4096 + d * 64 + e = (a * 64 + b) * 4096 + d * 64 + e" by simp
  have q: "(a * 262144 + b * 4096 + d * 64 + e) div 4096 = a * 64 + b"
    unfolding c by (rule digits3) (use assms in simp_all)
  have "(a * 262144 + b * 4096 + d * 64 + e) div (4096 * 64) = (a * 64 + b) div 64"
    unfolding div_mult2_eq q ..
  then show "(a * 262144 + b * 4096 + d * 64 + e) div 262144 = a" using assms(1) by simp
  show "(a * 262144 + b * 4096 + d * 64 + e) div 4096 mod 64 = b"
    unfolding q using assms(1) by simp
  show "(a * 262144 + b * 4096 + d * 64 + e) div 64 mod 64 = d"
    unfolding c by (rule digits3) (use assms in simp_all)
  show "(a * 262144 + b * 4096 + d * 64 + e) mod 64 = e"
    unfolding c by (rule digits3) (use assms in simp_all)
qed

lemma utf8_char_nonempty [simp]: "utf8_char c \<noteq> []"
  by (simp add: utf8_char_def)

lemma utf8_next_char:
  assumes "is_scalar c"
  shows "utf8_next (utf8_char c @ r) = Some (c, r)"
proof -
  consider "c < 0x80" | "0x80 \<le> c" "c < 0x800" | "0x800 \<le> c" "c < 0x10000"
    | "0x10000 \<le> c" "c < 0x110000"
    using assms by (fastforce simp: is_scalar_def)
  then show ?thesis
  proof cases
    case 1
    then show ?thesis by (simp add: utf8_char_def utf8_next_def Let_def)
  next
    case 2
    then have "c div 64 < 32" "2 \<le> c div 64" by auto
    with 2 show ?thesis
      by (simp add: utf8_char_def utf8_next_def Let_def is_cont_def)
  next
    case 3
    define a where "a = c div 64"
    have a: "a < 1024" "32 \<le> a" using 3 by (auto simp: a_def)
    have d: "c div 4096 = a div 64" by (simp add: a_def flip: div_mult2_eq)
    have "a div 64 < 16" "a div 64 = 0 \<longrightarrow> 32 \<le> a mod 64" using a by auto
    moreover have "a div 64 = 13 \<longrightarrow> a mod 64 < 32"
    proof
      assume 13: "a div 64 = 13"
      have "a < 0x360 \<or> 0x380 \<le> a" using assms by (auto simp: a_def is_scalar_def)
      then show "a mod 64 < 32"
        using 13 div_mult_mod_eq [of a 64] mod_less_divisor [of 64 a] by linarith
    qed
    moreover have "c = a div 64 * 4096 + a mod 64 * 64 + c mod 64"
    proof -
      have "c = a * 64 + c mod 64" by (simp add: a_def)
      moreover have "a = a div 64 * 64 + a mod 64" by simp
      ultimately show ?thesis by linarith
    qed
    ultimately show ?thesis using 3
      by (simp add: utf8_char_def utf8_next_def Let_def is_cont_def d flip: a_def)
  next
    case 4
    define a where "a = c div 64"
    define b where "b = c div 4096"
    have b: "b < 272" "16 \<le> b" using 4 by (auto simp: b_def)
    have d: "c div 262144 = b div 64" by (simp add: b_def flip: div_mult2_eq)
    have ab: "a div 64 = b" by (simp add: a_def b_def flip: div_mult2_eq)
    have "b div 64 < 5" "b div 64 = 0 \<longrightarrow> 16 \<le> b mod 64" using b by auto
    moreover have "b div 64 = 4 \<longrightarrow> b mod 64 < 16"
      using b(1) div_mult_mod_eq [of b 64] by linarith
    moreover have "c = b div 64 * 262144 + b mod 64 * 4096 + a mod 64 * 64 + c mod 64"
    proof -
      have "c = a * 64 + c mod 64" by (simp add: a_def)
      moreover have "a = b * 64 + a mod 64" by (simp flip: ab)
      moreover have "b = b div 64 * 64 + b mod 64" by simp
      ultimately show ?thesis by linarith
    qed
    ultimately show ?thesis using 4
      by (simp add: utf8_char_def utf8_next_def Let_def is_cont_def d flip: a_def b_def)
  qed
qed

lemma from_utf8_Cons:
  "is_scalar c \<Longrightarrow> from_utf8 (utf8_char c @ bs) = map_option (\<lambda>s. c # s) (from_utf8 bs)"
  by (subst from_utf8.simps) (simp add: utf8_next_char)

lemma from_utf8_as_bytes: "wf_str s \<Longrightarrow> from_utf8 (as_bytes s) = Some s"
  by (induction s) (simp_all add: wf_str_def as_bytes_def from_utf8_Cons)

lemma utf8_next_sound:
  assumes "utf8_next bs = Some (c, r)"
  shows "is_scalar c \<and> bs = utf8_char c @ r"
proof -
  obtain b0 bs0 where bs: "bs = b0 # bs0"
    using assms by (auto simp: utf8_next_def split: list.splits)
  let ?n = "unat b0"
  have n256: "?n < 256" using unsigned_less [of b0, where 'a = nat] by simp
  consider "?n < 0x80" | "0xC2 \<le> ?n" "?n < 0xE0" | "0xE0 \<le> ?n" "?n < 0xF0" | "0xF0 \<le> ?n" "?n < 0xF5"
    using assms by (auto simp: bs utf8_next_def Let_def split: if_splits)
  then show ?thesis
  proof cases
    case 1
    then have "c = ?n" "r = bs0" using assms by (auto simp: bs utf8_next_def Let_def)
    with 1 show ?thesis by (simp add: bs is_scalar_def utf8_char_def)
  next
    case 2
    then obtain b1 where b1: "bs0 = b1 # r" "is_cont b1"
      and c: "c = (?n - 0xC0) * 64 + (unat b1 - 0x80)"
      using assms by (auto simp: bs utf8_next_def Let_def split: list.splits if_splits)
    have "unat b1 - 0x80 < 64" using b1 by (auto simp: is_cont_def)
    note digits2 [OF this, of "?n - 0xC0", folded c]
    moreover have "0x80 \<le> c" "c < 0x800" using b1 2 by (auto simp: c is_cont_def)
    ultimately show ?thesis using b1 2
      by (simp add: bs is_scalar_def utf8_char_def is_cont_def)
  next
    case 3
    then obtain b1 b2 where b: "bs0 = b1 # b2 # r" "is_cont b1" "is_cont b2"
      and r1: "?n = 0xE0 \<longrightarrow> 0xA0 \<le> unat b1" and r2: "?n = 0xED \<longrightarrow> unat b1 < 0xA0"
      and c: "c = (?n - 0xE0) * 4096 + (unat b1 - 0x80) * 64 + (unat b2 - 0x80)"
      using assms by (auto simp: bs utf8_next_def Let_def split: list.splits if_splits)
    have k: "unat b1 - 0x80 < 64" "unat b2 - 0x80 < 64" using b by (auto simp: is_cont_def)
    note d = digits3 [OF k, of "?n - 0xE0", folded c]
    have lo: "0x800 \<le> c" using r1 3 b by (cases "?n = 0xE0") (auto simp: c is_cont_def)
    have hi: "c < 0x10000" using 3 k by (simp add: c)
    have "is_scalar c"
    proof (cases "?n \<le> 0xED")
      case True
      then have "c < 0xD800" using r2 3 k by (cases "?n = 0xED") (auto simp: c)
      then show ?thesis by (simp add: is_scalar_def)
    next
      case False
      then have "0xE000 \<le> c" by (simp add: c)
      with hi show ?thesis by (simp add: is_scalar_def)
    qed
    with lo hi d b 3 show ?thesis
      by (simp add: bs utf8_char_def is_cont_def)
  next
    case 4
    then obtain b1 b2 b3 where b: "bs0 = b1 # b2 # b3 # r" "is_cont b1" "is_cont b2" "is_cont b3"
      and r1: "?n = 0xF0 \<longrightarrow> 0x90 \<le> unat b1" and r2: "?n = 0xF4 \<longrightarrow> unat b1 < 0x90"
      and c: "c = (?n - 0xF0) * 262144 + (unat b1 - 0x80) * 4096 + (unat b2 - 0x80) * 64
          + (unat b3 - 0x80)"
      using assms by (auto simp: bs utf8_next_def Let_def split: list.splits if_splits)
    have k: "unat b1 - 0x80 < 64" "unat b2 - 0x80 < 64" "unat b3 - 0x80 < 64"
      using b by (auto simp: is_cont_def)
    note d = digits4 [OF k, of "?n - 0xF0", folded c]
    have lo: "0x10000 \<le> c" using r1 4 b by (cases "?n = 0xF0") (auto simp: c is_cont_def)
    have hi: "c < 0x110000" using r2 4 k by (cases "?n = 0xF4") (auto simp: c)
    from lo hi d b 4 show ?thesis
      by (simp add: bs utf8_char_def is_cont_def is_scalar_def)
  qed
qed

lemma from_utf8_sound: "from_utf8 bs = Some s \<Longrightarrow> wf_str s \<and> as_bytes s = bs"
proof (induction bs arbitrary: s rule: from_utf8.induct)
  case (1 bs)
  show ?case
  proof (cases "bs = []")
    case True
    with "1.prems" show ?thesis by (simp add: wf_str_def as_bytes_def)
  next
    case False
    with "1.prems" obtain c r t where n: "utf8_next bs = Some (c, r)"
      and t: "from_utf8 r = Some t" and s: "s = c # t"
      by (subst (asm) from_utf8.simps) (auto split: option.splits)
    have "wf_str t \<and> as_bytes t = r"
      using "1.IH" [OF False n refl t] .
    with utf8_next_sound [OF n] show ?thesis
      by (simp add: s wf_str_def as_bytes_def)
  qed
qed

lemma from_utf8_iff: "from_utf8 bs = Some s \<longleftrightarrow> wf_str s \<and> as_bytes s = bs"
  using from_utf8_sound from_utf8_as_bytes by blast

end
