(* ===== verification/Encoding.thy ===== *)
theory Encoding
  imports Rust_String
begin

text \<open>
  \<open>crates/vault-core/src/encoding.rs\<close>: unpadded Base64URL. The \<open>base64\<close> crate itself is not
  under \<open>src/\<close>: its \<open>URL_SAFE_NO_PAD\<close> engine is the parameter \<open>base64_lib\<close>, and
  \<open>base64_laws\<close> states what the crate documents (decoding inverts encoding; the unpadded
  engine writes no \<open>=\<close>).
\<close>

record base64_lib =
  b64_encode :: "bytes \<Rightarrow> rstring"
  b64_decode :: "rstring \<Rightarrow> bytes option"

definition base64_laws :: "'z base64_lib_scheme \<Rightarrow> bool" where
  "base64_laws L \<longleftrightarrow>
     (\<forall>bs. b64_decode L (b64_encode L bs) = Some bs) \<and>
     (\<forall>bs. of_char CHR ''='' \<notin> set (b64_encode L bs))"

text \<open>The \<open>String\<close> errors of the module, one constructor per message format.\<close>

datatype encoding_error =
    PaddingNotAllowed            \<comment> \<open>\<open>base64url padding is not allowed\<close>\<close>
  | InvalidBase64url             \<comment> \<open>\<open>invalid base64url value\<close>\<close>
  | ExpectedDecodedBytes nat     \<comment> \<open>\<open>expected exactly {N} decoded bytes\<close>\<close>

definition encode_base64url :: "'z base64_lib_scheme \<Rightarrow> bytes \<Rightarrow> rstring" where
  "encode_base64url L bs = b64_encode L bs"

definition decode_base64url ::
  "'z base64_lib_scheme \<Rightarrow> rstring \<Rightarrow> encoding_error + bytes" where
  "decode_base64url L value =
     (if of_char CHR ''='' \<in> set value then Inl PaddingNotAllowed
      else ok_or InvalidBase64url (b64_decode L value))"

definition decode_base64url_array ::
  "'z base64_lib_scheme \<Rightarrow> nat \<Rightarrow> rstring \<Rightarrow> encoding_error + bytes" where
  "decode_base64url_array L n value =
     and_then (decode_base64url L value) (\<lambda>bs.
     if length bs = n then Inr bs else Inl (ExpectedDecodedBytes n))"

lemma decode_encode_base64url:
  "base64_laws L \<Longrightarrow> decode_base64url L (encode_base64url L bs) = Inr bs"
  by (simp add: base64_laws_def decode_base64url_def encode_base64url_def)

lemma decode_base64url_array_encode:
  "base64_laws L \<Longrightarrow> length bs = n \<Longrightarrow>
   decode_base64url_array L n (encode_base64url L bs) = Inr bs"
  by (simp add: decode_base64url_array_def decode_encode_base64url)

lemma decode_base64url_array_length:
  "decode_base64url_array L n value = Inr bs \<Longrightarrow> length bs = n"
  by (auto simp: decode_base64url_array_def and_then_Inr split: if_splits)

lemma encode_base64url_inj:
  "base64_laws L \<Longrightarrow> encode_base64url L bs = encode_base64url L cs \<longleftrightarrow> bs = cs"
  by (metis decode_encode_base64url sum.inject(2))

end
