(* ===== verification/Errors.thy ===== *)
theory Errors
  imports Prelude
begin

text \<open>
  The error enums of \<open>crates/vault-core/src/error.rs\<close>, one constructor per variant; the
  \<open>&'static str\<close> payloads are the literals of the source.

  \<open>Panic\<close> is the one constructor that is not a variant of the Rust enum: it stands for an
  unwinding panic (\<open>expect\<close>, \<open>copy_from_slice\<close>, \<open>Vec::remove\<close>). Like an error it stops
  everything up to the boundary, so it travels in the same place of the sum; the
  theorems named \<open>no_panic\<close> show that no operation of the code produces it.
\<close>

datatype storage_error = ReadFailed | WriteFailed | RemoveFailed

datatype vault_error =
    InvalidMetadata string
  | InvalidSlot string
  | InvalidContainer string
  | UnsupportedFormatVersion
  | InvalidKdfParameters string
  | InvalidMasterPassword string
  | KeyDerivationFailed
  | EncryptionFailed
  | WrongPasswordOrCorruptedVault
  | RandomGenerationFailed
  | SerializationFailed
  | EntryNotFound
  | DuplicateEntry
  | VaultTooLarge
  | GenerationOverflow
  | SlotVerificationFailed
  | Uninitialized
  | AlreadyInitialized
  | Storage storage_error
  | Panic string

type_synonym 'a result = "vault_error + 'a"

definition no_panic :: "'a result \<Rightarrow> bool" where
  "no_panic r = (case r of Inl (Panic _) \<Rightarrow> False | _ \<Rightarrow> True)"

lemma no_panic_simps [simp]:
  "no_panic (Inr x)"
  "no_panic (Inl e) \<longleftrightarrow> (\<forall>m. e \<noteq> Panic m)"
  by (auto simp: no_panic_def split: vault_error.splits)

lemma no_panic_and_then:
  "no_panic r \<Longrightarrow> (\<And>x. r = Inr x \<Longrightarrow> no_panic (f x)) \<Longrightarrow> no_panic (and_then r f)"
  by (cases r) auto

lemma no_panic_ok_or [simp]: "no_panic (ok_or e x) \<longleftrightarrow> x \<noteq> None \<or> (\<forall>m. e \<noteq> Panic m)"
  by (cases x) auto

lemma no_panic_bindE:
  "no_panic (fst (m s)) \<Longrightarrow> (\<And>x s'. m s = (Inr x, s') \<Longrightarrow> no_panic (fst (f x s'))) \<Longrightarrow>
   no_panic (fst (bindE m f s))"
  by (auto simp: bindE_def split: prod.splits sum.splits)

end
