(* ===== verification/Model.thy ===== *)
theory Model
  imports Encoding Errors
begin

text \<open>
  \<open>crates/vault-core/src/model.rs\<close>: identifiers, the persistent records (metadata, encrypted
  slot, active pointer, container, entry), the limits and the \<open>validate\<close> methods. Fixed-size
  arrays \<open>[u8; N]\<close> are byte lists; \<open>wf_vault_id\<close> and \<open>wf_entry_id\<close> state the length their
  types guarantee. The lemmas characterise what every \<open>validate\<close> accepts.
\<close>

section \<open>Constants\<close>

definition FORMAT :: rstring where
  "FORMAT = str ''pocket-vault''"

definition FORMAT_VERSION :: u32 where
  "FORMAT_VERSION = 1"

definition DEVICE_STORAGE_LIMIT_BYTES :: nat where
  "DEVICE_STORAGE_LIMIT_BYTES = 5 * 1024 * 1024"

definition MAX_METADATA_JSON_BYTES :: nat where
  "MAX_METADATA_JSON_BYTES = 16 * 1024"

definition MAX_SLOT_JSON_BYTES :: nat where
  "MAX_SLOT_JSON_BYTES = DEVICE_STORAGE_LIMIT_BYTES"

definition MAX_ENTRIES :: nat where
  "MAX_ENTRIES = 10000"

definition MAX_TITLE_CHARS :: nat where
  "MAX_TITLE_CHARS = 200"

definition MAX_SECRET_BYTES :: nat where
  "MAX_SECRET_BYTES = 4096"

definition MAX_DESCRIPTION_CHARS :: nat where
  "MAX_DESCRIPTION_CHARS = 2000"

section \<open>Identifiers and binary fields\<close>

datatype vault_id = VaultId bytes
datatype entry_id = EntryId bytes
datatype encoded_bytes = EncodedBytes bytes

fun vault_id_as_bytes :: "vault_id \<Rightarrow> bytes" where
  "vault_id_as_bytes (VaultId bs) = bs"

fun entry_id_as_bytes :: "entry_id \<Rightarrow> bytes" where
  "entry_id_as_bytes (EntryId bs) = bs"

definition wf_vault_id :: "vault_id \<Rightarrow> bool" where
  "wf_vault_id i \<longleftrightarrow> length (vault_id_as_bytes i) = 16"

definition wf_entry_id :: "entry_id \<Rightarrow> bool" where
  "wf_entry_id i \<longleftrightarrow> length (entry_id_as_bytes i) = 16"

fun as_slice :: "encoded_bytes \<Rightarrow> bytes" where
  "as_slice (EncodedBytes bs) = bs"

definition eb_len :: "encoded_bytes \<Rightarrow> nat" where
  "eb_len b = length (as_slice b)"

definition vault_id_to_base64url :: "'z base64_lib_scheme \<Rightarrow> vault_id \<Rightarrow> rstring" where
  "vault_id_to_base64url L i = encode_base64url L (vault_id_as_bytes i)"

definition vault_id_from_base64url ::
  "'z base64_lib_scheme \<Rightarrow> rstring \<Rightarrow> encoding_error + vault_id" where
  "vault_id_from_base64url L value =
     and_then (decode_base64url_array L 16 value) (\<lambda>bs. Inr (VaultId bs))"

definition entry_id_to_base64url :: "'z base64_lib_scheme \<Rightarrow> entry_id \<Rightarrow> rstring" where
  "entry_id_to_base64url L i = encode_base64url L (entry_id_as_bytes i)"

definition entry_id_from_base64url ::
  "'z base64_lib_scheme \<Rightarrow> rstring \<Rightarrow> encoding_error + entry_id" where
  "entry_id_from_base64url L value =
     and_then (decode_base64url_array L 16 value) (\<lambda>bs. Inr (EntryId bs))"

lemma vault_id_base64url_roundtrip:
  "base64_laws L \<Longrightarrow> wf_vault_id i \<Longrightarrow>
   vault_id_from_base64url L (vault_id_to_base64url L i) = Inr i"
  by (cases i) (simp add: vault_id_from_base64url_def vault_id_to_base64url_def
      wf_vault_id_def decode_base64url_array_encode)

lemma entry_id_base64url_roundtrip:
  "base64_laws L \<Longrightarrow> wf_entry_id i \<Longrightarrow>
   entry_id_from_base64url L (entry_id_to_base64url L i) = Inr i"
  by (cases i) (simp add: entry_id_from_base64url_def entry_id_to_base64url_def
      wf_entry_id_def decode_base64url_array_encode)

lemma vault_id_from_base64url_wf:
  "vault_id_from_base64url L v = Inr i \<Longrightarrow> wf_vault_id i"
  by (auto simp: vault_id_from_base64url_def wf_vault_id_def and_then_Inr
      dest: decode_base64url_array_length)

lemma entry_id_from_base64url_wf:
  "entry_id_from_base64url L v = Inr i \<Longrightarrow> wf_entry_id i"
  by (auto simp: entry_id_from_base64url_def wf_entry_id_def and_then_Inr
      dest: decode_base64url_array_length)

section \<open>Enums\<close>

datatype kdf_algorithm = Argon2id
datatype aead_algorithm = XChaCha20Poly1305
datatype slot_id = A | B

text \<open>Both sides are known, so a statement about all of them is decided by evaluation.\<close>

lemma UNIV_slot_id: "UNIV = {A, B}"
  using slot_id.exhaust by auto

instantiation slot_id :: enum
begin

definition enum_slot_id :: "slot_id list" where
  "enum_slot_id = [A, B]"

definition enum_all_slot_id :: "(slot_id \<Rightarrow> bool) \<Rightarrow> bool" where
  "enum_all_slot_id P \<longleftrightarrow> P A \<and> P B"

definition enum_ex_slot_id :: "(slot_id \<Rightarrow> bool) \<Rightarrow> bool" where
  "enum_ex_slot_id P \<longleftrightarrow> P A \<or> P B"

instance
  by standard (auto simp: UNIV_slot_id enum_slot_id_def enum_all_slot_id_def enum_ex_slot_id_def)

end

fun slot_other :: "slot_id \<Rightarrow> slot_id" where
  "slot_other A = B"
| "slot_other B = A"

fun aad_byte :: "slot_id \<Rightarrow> u8" where
  "aad_byte A = of_char CHR ''a''"
| "aad_byte B = of_char CHR ''b''"

lemma slot_other_neq [simp]: "slot_other s \<noteq> s" "s \<noteq> slot_other s"
  by (cases s; simp)+

lemma slot_other_other [simp]: "slot_other (slot_other s) = s"
  by (cases s) simp_all

lemma slot_other_iff: "t \<noteq> s \<longleftrightarrow> t = slot_other s"
  by (cases s; cases t) simp_all

lemma aad_byte_inj: "aad_byte s = aad_byte t \<longleftrightarrow> s = t"
  by (cases s; cases t) simp_all

section \<open>Format check\<close>

definition validate_format :: "rstring \<Rightarrow> u32 \<Rightarrow> unit result" where
  "validate_format fmt version =
     (if fmt \<noteq> FORMAT then Inl (InvalidContainer ''unexpected format name'')
      else if version \<noteq> FORMAT_VERSION then Inl UnsupportedFormatVersion
      else Inr ())"

text \<open>The closure each \<open>validate\<close> passes to \<open>map_err\<close>: version errors stay, the rest is renamed.\<close>

definition rename_format_error :: "vault_error \<Rightarrow> vault_error \<Rightarrow> vault_error" where
  "rename_format_error other err =
     (case err of UnsupportedFormatVersion \<Rightarrow> err | _ \<Rightarrow> other)"

lemma rename_format_error_no_panic [simp]:
  "\<forall>m. other \<noteq> Panic m \<Longrightarrow>
   no_panic (map_err (rename_format_error other) (validate_format f v))"
  by (simp add: validate_format_def rename_format_error_def)

lemma validate_format_ok: "validate_format f v = Inr () \<longleftrightarrow> f = FORMAT \<and> v = FORMAT_VERSION"
  by (simp add: validate_format_def)

section \<open>KDF parameters\<close>

record kdf_params =
  kp_algorithm :: kdf_algorithm
  kp_salt :: encoded_bytes
  kp_memory_kib :: u32
  kp_iterations :: u32
  kp_parallelism :: u32
  kp_output_bytes :: u32

record kdf_config =
  kc_memory_kib :: u32
  kc_iterations :: u32
  kc_parallelism :: u32

definition RECOMMENDED_MEMORY_KIB :: u32 where
  "RECOMMENDED_MEMORY_KIB = 19456"

definition RECOMMENDED_ITERATIONS :: u32 where
  "RECOMMENDED_ITERATIONS = 2"

definition RECOMMENDED_PARALLELISM :: u32 where
  "RECOMMENDED_PARALLELISM = 1"

definition OUTPUT_BYTES :: u32 where
  "OUTPUT_BYTES = 32"

definition kdf_config_default :: kdf_config where
  "kdf_config_default =
     \<lparr>kc_memory_kib = RECOMMENDED_MEMORY_KIB, kc_iterations = RECOMMENDED_ITERATIONS,
      kc_parallelism = RECOMMENDED_PARALLELISM\<rparr>"

definition kdf_from_config :: "bytes \<Rightarrow> kdf_config \<Rightarrow> kdf_params" where
  "kdf_from_config salt config =
     \<lparr>kp_algorithm = Argon2id, kp_salt = EncodedBytes salt,
      kp_memory_kib = kc_memory_kib config, kp_iterations = kc_iterations config,
      kp_parallelism = kc_parallelism config, kp_output_bytes = OUTPUT_BYTES\<rparr>"

definition kdf_recommended :: "bytes \<Rightarrow> kdf_params" where
  "kdf_recommended salt = kdf_from_config salt kdf_config_default"

definition kdf_validate :: "kdf_params \<Rightarrow> unit result" where
  "kdf_validate k =
     (if \<not> (19456 \<le> kp_memory_kib k \<and> kp_memory_kib k \<le> 262144)
        then Inl (InvalidKdfParameters ''memoryKiB is out of bounds'')
      else if \<not> (1 \<le> kp_iterations k \<and> kp_iterations k \<le> 10)
        then Inl (InvalidKdfParameters ''iterations is out of bounds'')
      else if \<not> (1 \<le> kp_parallelism k \<and> kp_parallelism k \<le> 4)
        then Inl (InvalidKdfParameters ''parallelism is out of bounds'')
      else if \<not> (16 \<le> eb_len (kp_salt k) \<and> eb_len (kp_salt k) \<le> 64)
        then Inl (InvalidKdfParameters ''salt length is out of bounds'')
      else if kp_output_bytes k \<noteq> OUTPUT_BYTES
        then Inl (InvalidKdfParameters ''output length must be 32 bytes'')
      else Inr ())"

text \<open>The declarative form of the defensive limits.\<close>

definition kdf_in_bounds :: "kdf_params \<Rightarrow> bool" where
  "kdf_in_bounds k \<longleftrightarrow>
     kp_memory_kib k \<in> {19456..262144} \<and> kp_iterations k \<in> {1..10} \<and>
     kp_parallelism k \<in> {1..4} \<and> eb_len (kp_salt k) \<in> {16..64} \<and>
     kp_output_bytes k = OUTPUT_BYTES"

lemma kdf_validate_ok: "kdf_validate k = Inr () \<longleftrightarrow> kdf_in_bounds k"
  by (auto simp: kdf_validate_def kdf_in_bounds_def)

lemma kdf_validate_err: "kdf_validate k = Inl e \<Longrightarrow> \<exists>m. e = InvalidKdfParameters m"
  by (auto simp: kdf_validate_def split: if_splits)

lemma kdf_validate_no_panic [simp]: "no_panic (kdf_validate k)"
  by (simp add: kdf_validate_def)

lemma kdf_config_default_ok:
  "length salt = 16 \<Longrightarrow> kdf_validate (kdf_from_config salt kdf_config_default) = Inr ()"
  by (simp add: kdf_validate_def kdf_from_config_def kdf_config_default_def eb_len_def
      RECOMMENDED_MEMORY_KIB_def RECOMMENDED_ITERATIONS_def RECOMMENDED_PARALLELISM_def)

section \<open>Metadata\<close>

record wrapped_dek =
  wd_algorithm :: aead_algorithm
  wd_nonce :: encoded_bytes
  wd_ciphertext :: encoded_bytes

record vault_meta =
  vm_format :: rstring
  vm_version :: u32
  vm_vault_id :: vault_id
  vm_created_at :: u64
  vm_kdf :: kdf_params
  vm_wrapped_dek :: wrapped_dek

definition meta_validate :: "vault_meta \<Rightarrow> unit result" where
  "meta_validate m =
     and_then (map_err (rename_format_error (InvalidMetadata ''unexpected format name''))
                (validate_format (vm_format m) (vm_version m))) (\<lambda>_.
     and_then (kdf_validate (vm_kdf m)) (\<lambda>_.
     if eb_len (wd_nonce (vm_wrapped_dek m)) \<noteq> 24
       then Inl (InvalidMetadata ''wrapped DEK nonce must be 24 bytes'')
     else if eb_len (wd_ciphertext (vm_wrapped_dek m)) \<noteq> 48
       then Inl (InvalidMetadata ''wrapped DEK ciphertext must be 48 bytes'')
     else Inr ()))"

lemma meta_validate_ok:
  "meta_validate m = Inr () \<longleftrightarrow>
     vm_format m = FORMAT \<and> vm_version m = FORMAT_VERSION \<and> kdf_in_bounds (vm_kdf m) \<and>
     eb_len (wd_nonce (vm_wrapped_dek m)) = 24 \<and> eb_len (wd_ciphertext (vm_wrapped_dek m)) = 48"
  by (auto simp: meta_validate_def and_then_Inr kdf_validate_ok validate_format_ok)

lemma meta_validate_no_panic [simp]: "no_panic (meta_validate m)"
  by (auto simp: meta_validate_def intro!: no_panic_and_then)

section \<open>Encrypted slots and the active pointer\<close>

record encrypted_slot =
  es_format :: rstring
  es_version :: u32
  es_vault_id :: vault_id
  es_slot :: slot_id
  es_generation :: u64
  es_algorithm :: aead_algorithm
  es_nonce :: encoded_bytes
  es_ciphertext :: encoded_bytes

definition slot_validate :: "encrypted_slot \<Rightarrow> vault_id \<Rightarrow> unit result" where
  "slot_validate s expected_vault_id =
     and_then (map_err (rename_format_error (InvalidSlot ''unexpected format name''))
                (validate_format (es_format s) (es_version s))) (\<lambda>_.
     if es_vault_id s \<noteq> expected_vault_id
       then Inl (InvalidSlot ''vaultId does not match metadata'')
     else if eb_len (es_nonce s) \<noteq> 24
       then Inl (InvalidSlot ''nonce must be 24 bytes'')
     else if \<not> (16 \<le> eb_len (es_ciphertext s)
            \<and> eb_len (es_ciphertext s) \<le> DEVICE_STORAGE_LIMIT_BYTES)
       then Inl (InvalidSlot ''ciphertext length is out of bounds'')
     else Inr ())"

lemma slot_validate_ok:
  "slot_validate s i = Inr () \<longleftrightarrow>
     es_format s = FORMAT \<and> es_version s = FORMAT_VERSION \<and> es_vault_id s = i \<and>
     eb_len (es_nonce s) = 24 \<and> eb_len (es_ciphertext s) \<in> {16..DEVICE_STORAGE_LIMIT_BYTES}"
  by (auto simp: slot_validate_def and_then_Inr validate_format_ok)

lemma slot_validate_no_panic [simp]: "no_panic (slot_validate s i)"
  by (auto simp: slot_validate_def intro!: no_panic_and_then)

record active_slot =
  as_version :: u32
  as_slot :: slot_id
  as_generation :: u64

definition pointer_validate :: "active_slot \<Rightarrow> unit result" where
  "pointer_validate p =
     (if as_version p \<noteq> FORMAT_VERSION then Inl UnsupportedFormatVersion else Inr ())"

lemma pointer_validate_ok: "pointer_validate p = Inr () \<longleftrightarrow> as_version p = FORMAT_VERSION"
  by (simp add: pointer_validate_def)

section \<open>Entries\<close>

record vault_entry =
  ve_id :: entry_id
  ve_title :: rstring
  ve_secret :: rstring
  ve_description :: "rstring option"
  ve_created_at :: u64
  ve_updated_at :: u64

record new_vault_entry =
  ne_title :: rstring
  ne_secret :: rstring
  ne_description :: "rstring option"

record update_vault_entry =
  ue_id :: entry_id
  ue_title :: rstring
  ue_secret :: rstring
  ue_description :: "rstring option"

definition validate_entry_fields :: "rstring \<Rightarrow> rstring \<Rightarrow> rstring option \<Rightarrow> unit result" where
  "validate_entry_fields title secret description =
     (if \<not> (1 \<le> chars_count title \<and> chars_count title \<le> MAX_TITLE_CHARS)
        then Inl (InvalidContainer ''title length is out of bounds'')
      else if \<not> (1 \<le> byte_len secret \<and> byte_len secret \<le> MAX_SECRET_BYTES)
        then Inl (InvalidContainer ''secret length is out of bounds'')
      else if (case description of None \<Rightarrow> False
               | Some value \<Rightarrow> chars_count value > MAX_DESCRIPTION_CHARS)
        then Inl (InvalidContainer ''description length is out of bounds'')
      else Inr ())"

definition entry_fields_ok :: "rstring \<Rightarrow> rstring \<Rightarrow> rstring option \<Rightarrow> bool" where
  "entry_fields_ok title secret description \<longleftrightarrow>
     chars_count title \<in> {1..MAX_TITLE_CHARS} \<and> byte_len secret \<in> {1..MAX_SECRET_BYTES} \<and>
     (\<forall>d. description = Some d \<longrightarrow> chars_count d \<le> MAX_DESCRIPTION_CHARS)"

lemma validate_entry_fields_ok:
  "validate_entry_fields t s d = Inr () \<longleftrightarrow> entry_fields_ok t s d"
  by (auto simp: validate_entry_fields_def entry_fields_ok_def split: option.splits)

lemma validate_entry_fields_err:
  "validate_entry_fields t s d = Inl e \<Longrightarrow> \<exists>m. e = InvalidContainer m"
  by (auto simp: validate_entry_fields_def split: if_splits option.splits)

definition entry_validate :: "vault_entry \<Rightarrow> unit result" where
  "entry_validate e =
     and_then (validate_entry_fields (ve_title e) (ve_secret e) (ve_description e)) (\<lambda>_.
     if ve_updated_at e < ve_created_at e
       then Inl (InvalidContainer ''entry timestamps are inconsistent'')
     else Inr ())"

definition entry_ok :: "vault_entry \<Rightarrow> bool" where
  "entry_ok e \<longleftrightarrow> entry_fields_ok (ve_title e) (ve_secret e) (ve_description e)
     \<and> ve_created_at e \<le> ve_updated_at e"

lemma entry_validate_ok: "entry_validate e = Inr () \<longleftrightarrow> entry_ok e"
  by (auto simp: entry_validate_def entry_ok_def and_then_Inr validate_entry_fields_ok)

section \<open>The decrypted container\<close>

record vault_container =
  vc_format :: rstring
  vc_version :: u32
  vc_vault_id :: vault_id
  vc_generation :: u64
  vc_created_at :: u64
  vc_updated_at :: u64
  vc_entries :: "vault_entry list"

text \<open>
  The loop of \<open>VaultContainerV1::validate\<close>; \<open>ids\<close> is the \<open>HashSet\<close> of the identifiers seen
  so far, and \<open>insert\<close> answers whether the value was new.
\<close>

fun validate_entries :: "vault_container \<Rightarrow> vault_entry list \<Rightarrow> entry_id set \<Rightarrow> unit result" where
  "validate_entries c [] ids = Inr ()"
| "validate_entries c (e # es) ids =
     and_then (entry_validate e) (\<lambda>_.
     if ve_created_at e < vc_created_at c \<or> ve_updated_at e > vc_updated_at c
       then Inl (InvalidContainer ''entry timestamps are outside the container timeline'')
     else if ve_id e \<in> ids then Inl DuplicateEntry
     else validate_entries c es (insert (ve_id e) ids))"

definition container_validate :: "vault_container \<Rightarrow> vault_id \<Rightarrow> u64 \<Rightarrow> unit result" where
  "container_validate c expected_vault_id expected_generation =
     and_then (map_err (rename_format_error (InvalidContainer ''unexpected format name''))
                (validate_format (vc_format c) (vc_version c))) (\<lambda>_.
     if vc_vault_id c \<noteq> expected_vault_id
       then Inl (InvalidContainer ''vaultId does not match slot'')
     else if vc_generation c \<noteq> expected_generation
       then Inl (InvalidContainer ''generation does not match slot'')
     else if vc_updated_at c < vc_created_at c
       then Inl (InvalidContainer ''container timestamps are inconsistent'')
     else if length (vc_entries c) > MAX_ENTRIES
       then Inl VaultTooLarge
     else validate_entries c (vc_entries c) {})"

definition entry_in_timeline :: "vault_container \<Rightarrow> vault_entry \<Rightarrow> bool" where
  "entry_in_timeline c e \<longleftrightarrow>
     vc_created_at c \<le> ve_created_at e \<and> ve_updated_at e \<le> vc_updated_at c"

definition container_ok :: "vault_container \<Rightarrow> bool" where
  "container_ok c \<longleftrightarrow>
     vc_format c = FORMAT \<and> vc_version c = FORMAT_VERSION \<and>
     vc_created_at c \<le> vc_updated_at c \<and> length (vc_entries c) \<le> MAX_ENTRIES \<and>
     distinct (map ve_id (vc_entries c)) \<and>
     (\<forall>e \<in> set (vc_entries c). entry_ok e \<and> entry_in_timeline c e)"

lemma validate_entries_ok:
  "validate_entries c es ids = Inr () \<longleftrightarrow>
     (\<forall>e \<in> set es. entry_ok e \<and> entry_in_timeline c e) \<and>
     distinct (map ve_id es) \<and> ve_id ` set es \<inter> ids = {}"
  by (induction es arbitrary: ids)
    (auto simp: and_then_Inr entry_validate_ok entry_in_timeline_def not_less split: if_splits)

lemma container_validate_ok:
  "container_validate c i g = Inr () \<longleftrightarrow>
     container_ok c \<and> vc_vault_id c = i \<and> vc_generation c = g"
  by (auto simp: container_validate_def container_ok_def and_then_Inr validate_format_ok
      validate_entries_ok)

lemma validate_entry_fields_no_panic [simp]: "no_panic (validate_entry_fields t s d)"
  by (simp add: validate_entry_fields_def)

lemma entry_validate_no_panic [simp]: "no_panic (entry_validate e)"
  by (auto simp: entry_validate_def intro!: no_panic_and_then)

lemma validate_entries_no_panic [simp]: "no_panic (validate_entries c es ids)"
  by (induction es arbitrary: ids) (auto intro!: no_panic_and_then)

lemma container_validate_no_panic [simp]: "no_panic (container_validate c i g)"
  by (auto simp: container_validate_def intro!: no_panic_and_then)

text \<open>The container checks do not depend on the generation.\<close>

lemma container_ok_generation [simp]:
  "container_ok (c\<lparr>vc_generation := g\<rparr>) \<longleftrightarrow> container_ok c"
  by (simp add: container_ok_def entry_in_timeline_def)

end
