(* ===== verification/Codec.thy ===== *)
theory Codec
  imports Model
begin

text \<open>
  The persistent JSON form of the model's records. The hand-written \<open>Serialize\<close> and
  \<open>Deserialize\<close> impls of \<open>model.rs\<close> (identifiers and binary fields as Base64URL strings) are
  definitions here. The impls that \<open>serde_derive\<close> generates and the text layer of \<open>serde_json\<close>
  are not under \<open>src/\<close>: they are the parameter \<open>codec_lib\<close>, functions between JSON text and the
  \<^emph>\<open>wire\<close> form of a record, which has every field as its own impl hands it over.
  \<open>codec_laws\<close> states what the derive and the crate document: parsing a written value gives it
  back.
\<close>

section \<open>Hand-written impls\<close>

definition serialize_encoded_bytes :: "'z base64_lib_scheme \<Rightarrow> encoded_bytes \<Rightarrow> rstring" where
  "serialize_encoded_bytes L b = encode_base64url L (as_slice b)"

definition deserialize_encoded_bytes ::
  "'z base64_lib_scheme \<Rightarrow> rstring \<Rightarrow> encoding_error + encoded_bytes" where
  "deserialize_encoded_bytes L value =
     and_then (decode_base64url L value) (\<lambda>bs. Inr (EncodedBytes bs))"

definition serialize_vault_id :: "'z base64_lib_scheme \<Rightarrow> vault_id \<Rightarrow> rstring" where
  "serialize_vault_id L i = encode_base64url L (vault_id_as_bytes i)"

definition deserialize_vault_id ::
  "'z base64_lib_scheme \<Rightarrow> rstring \<Rightarrow> encoding_error + vault_id" where
  "deserialize_vault_id L value =
     and_then (decode_base64url_array L 16 value) (\<lambda>bs. Inr (VaultId bs))"

definition serialize_entry_id :: "'z base64_lib_scheme \<Rightarrow> entry_id \<Rightarrow> rstring" where
  "serialize_entry_id L i = encode_base64url L (entry_id_as_bytes i)"

definition deserialize_entry_id ::
  "'z base64_lib_scheme \<Rightarrow> rstring \<Rightarrow> encoding_error + entry_id" where
  "deserialize_entry_id L value =
     and_then (decode_base64url_array L 16 value) (\<lambda>bs. Inr (EntryId bs))"

named_theorems field_codec \<open>parsing a field that its own impl wrote\<close>

lemma encoded_bytes_roundtrip [field_codec]:
  "base64_laws L \<Longrightarrow> deserialize_encoded_bytes L (serialize_encoded_bytes L b) = Inr b"
  by (cases b) (simp add: deserialize_encoded_bytes_def serialize_encoded_bytes_def
      decode_encode_base64url)

lemma vault_id_field_roundtrip [field_codec]:
  "base64_laws L \<Longrightarrow> wf_vault_id i \<Longrightarrow> deserialize_vault_id L (serialize_vault_id L i) = Inr i"
  by (cases i) (simp add: deserialize_vault_id_def serialize_vault_id_def wf_vault_id_def
      decode_base64url_array_encode)

lemma entry_id_field_roundtrip [field_codec]:
  "base64_laws L \<Longrightarrow> wf_entry_id i \<Longrightarrow> deserialize_entry_id L (serialize_entry_id L i) = Inr i"
  by (cases i) (simp add: deserialize_entry_id_def serialize_entry_id_def wf_entry_id_def
      decode_base64url_array_encode)

lemma deserialize_vault_id_wf: "deserialize_vault_id L v = Inr i \<Longrightarrow> wf_vault_id i"
  by (auto simp: deserialize_vault_id_def wf_vault_id_def and_then_Inr
      dest: decode_base64url_array_length)

lemma deserialize_entry_id_wf: "deserialize_entry_id L v = Inr i \<Longrightarrow> wf_entry_id i"
  by (auto simp: deserialize_entry_id_def wf_entry_id_def and_then_Inr
      dest: decode_base64url_array_length)

section \<open>Wire forms\<close>

record kdf_params_wire =
  kpw_algorithm :: kdf_algorithm
  kpw_salt :: rstring
  kpw_memory_kib :: u32
  kpw_iterations :: u32
  kpw_parallelism :: u32
  kpw_output_bytes :: u32

record wrapped_dek_wire =
  wdw_algorithm :: aead_algorithm
  wdw_nonce :: rstring
  wdw_ciphertext :: rstring

record vault_meta_wire =
  vmw_format :: rstring
  vmw_version :: u32
  vmw_vault_id :: rstring
  vmw_created_at :: u64
  vmw_kdf :: kdf_params_wire
  vmw_wrapped_dek :: wrapped_dek_wire

record encrypted_slot_wire =
  esw_format :: rstring
  esw_version :: u32
  esw_vault_id :: rstring
  esw_slot :: slot_id
  esw_generation :: u64
  esw_algorithm :: aead_algorithm
  esw_nonce :: rstring
  esw_ciphertext :: rstring

record vault_entry_wire =
  vew_id :: rstring
  vew_title :: rstring
  vew_secret :: rstring
  vew_description :: "rstring option"
  vew_created_at :: u64
  vew_updated_at :: u64

record vault_container_wire =
  vcw_format :: rstring
  vcw_version :: u32
  vcw_vault_id :: rstring
  vcw_generation :: u64
  vcw_created_at :: u64
  vcw_updated_at :: u64
  vcw_entries :: "vault_entry_wire list"

record codec_lib = base64_lib +
  json_meta_ser :: "vault_meta_wire \<Rightarrow> rstring option"
  json_meta_de :: "rstring \<Rightarrow> vault_meta_wire option"
  json_slot_ser :: "encrypted_slot_wire \<Rightarrow> rstring option"
  json_slot_de :: "rstring \<Rightarrow> encrypted_slot_wire option"
  json_pointer_ser :: "active_slot \<Rightarrow> rstring option"
  json_pointer_de :: "rstring \<Rightarrow> active_slot option"
  json_container_ser :: "vault_container_wire \<Rightarrow> bytes option"
  json_container_de :: "bytes \<Rightarrow> vault_container_wire option"

definition codec_laws :: "'z codec_lib_scheme \<Rightarrow> bool" where
  "codec_laws L \<longleftrightarrow>
     base64_laws L \<and>
     (\<forall>w s. json_meta_ser L w = Some s \<longrightarrow> json_meta_de L s = Some w) \<and>
     (\<forall>w s. json_slot_ser L w = Some s \<longrightarrow> json_slot_de L s = Some w) \<and>
     (\<forall>p s. json_pointer_ser L p = Some s \<longrightarrow> json_pointer_de L s = Some p) \<and>
     (\<forall>w s. json_container_ser L w = Some s \<longrightarrow> json_container_de L s = Some w)"

lemma codec_laws_base64 [simp]: "codec_laws L \<Longrightarrow> base64_laws L"
  by (simp add: codec_laws_def)

section \<open>Metadata\<close>

definition kdf_to_wire :: "'z base64_lib_scheme \<Rightarrow> kdf_params \<Rightarrow> kdf_params_wire" where
  "kdf_to_wire L k =
     \<lparr>kpw_algorithm = kp_algorithm k, kpw_salt = serialize_encoded_bytes L (kp_salt k),
      kpw_memory_kib = kp_memory_kib k, kpw_iterations = kp_iterations k,
      kpw_parallelism = kp_parallelism k, kpw_output_bytes = kp_output_bytes k\<rparr>"

definition kdf_from_wire ::
  "'z base64_lib_scheme \<Rightarrow> kdf_params_wire \<Rightarrow> encoding_error + kdf_params" where
  "kdf_from_wire L w =
     and_then (deserialize_encoded_bytes L (kpw_salt w)) (\<lambda>salt.
     Inr \<lparr>kp_algorithm = kpw_algorithm w, kp_salt = salt,
          kp_memory_kib = kpw_memory_kib w, kp_iterations = kpw_iterations w,
          kp_parallelism = kpw_parallelism w, kp_output_bytes = kpw_output_bytes w\<rparr>)"

definition wrapped_dek_to_wire :: "'z base64_lib_scheme \<Rightarrow> wrapped_dek \<Rightarrow> wrapped_dek_wire" where
  "wrapped_dek_to_wire L d =
     \<lparr>wdw_algorithm = wd_algorithm d, wdw_nonce = serialize_encoded_bytes L (wd_nonce d),
      wdw_ciphertext = serialize_encoded_bytes L (wd_ciphertext d)\<rparr>"

definition wrapped_dek_from_wire ::
  "'z base64_lib_scheme \<Rightarrow> wrapped_dek_wire \<Rightarrow> encoding_error + wrapped_dek" where
  "wrapped_dek_from_wire L w =
     and_then (deserialize_encoded_bytes L (wdw_nonce w)) (\<lambda>nonce.
     and_then (deserialize_encoded_bytes L (wdw_ciphertext w)) (\<lambda>ciphertext.
     Inr \<lparr>wd_algorithm = wdw_algorithm w, wd_nonce = nonce, wd_ciphertext = ciphertext\<rparr>))"

definition meta_to_wire :: "'z base64_lib_scheme \<Rightarrow> vault_meta \<Rightarrow> vault_meta_wire" where
  "meta_to_wire L m =
     \<lparr>vmw_format = vm_format m, vmw_version = vm_version m,
      vmw_vault_id = serialize_vault_id L (vm_vault_id m), vmw_created_at = vm_created_at m,
      vmw_kdf = kdf_to_wire L (vm_kdf m),
      vmw_wrapped_dek = wrapped_dek_to_wire L (vm_wrapped_dek m)\<rparr>"

definition meta_from_wire ::
  "'z base64_lib_scheme \<Rightarrow> vault_meta_wire \<Rightarrow> encoding_error + vault_meta" where
  "meta_from_wire L w =
     and_then (deserialize_vault_id L (vmw_vault_id w)) (\<lambda>vault_id.
     and_then (kdf_from_wire L (vmw_kdf w)) (\<lambda>kdf.
     and_then (wrapped_dek_from_wire L (vmw_wrapped_dek w)) (\<lambda>wrapped_dek.
     Inr \<lparr>vm_format = vmw_format w, vm_version = vmw_version w, vm_vault_id = vault_id,
          vm_created_at = vmw_created_at w, vm_kdf = kdf, vm_wrapped_dek = wrapped_dek\<rparr>)))"

text \<open>\<open>serde_json::to_string\<close> and \<open>serde_json::from_str\<close> at the record's type.\<close>

definition meta_to_json :: "'z codec_lib_scheme \<Rightarrow> vault_meta \<Rightarrow> rstring option" where
  "meta_to_json L m = json_meta_ser L (meta_to_wire L m)"

definition meta_from_json :: "'z codec_lib_scheme \<Rightarrow> rstring \<Rightarrow> vault_meta option" where
  "meta_from_json L s =
     (case json_meta_de L s of None \<Rightarrow> None | Some w \<Rightarrow> result_ok (meta_from_wire L w))"

definition wf_meta :: "vault_meta \<Rightarrow> bool" where
  "wf_meta m \<longleftrightarrow> wf_vault_id (vm_vault_id m)"

lemma kdf_wire_roundtrip [field_codec]:
  "base64_laws L \<Longrightarrow> kdf_from_wire L (kdf_to_wire L k) = Inr k"
  by (simp add: kdf_from_wire_def kdf_to_wire_def field_codec)

lemma wrapped_dek_wire_roundtrip [field_codec]:
  "base64_laws L \<Longrightarrow> wrapped_dek_from_wire L (wrapped_dek_to_wire L d) = Inr d"
  by (simp add: wrapped_dek_from_wire_def wrapped_dek_to_wire_def field_codec)

lemma meta_wire_roundtrip:
  "base64_laws L \<Longrightarrow> wf_meta m \<Longrightarrow> meta_from_wire L (meta_to_wire L m) = Inr m"
  by (simp add: meta_from_wire_def meta_to_wire_def wf_meta_def field_codec)

lemma meta_json_roundtrip:
  "codec_laws L \<Longrightarrow> wf_meta m \<Longrightarrow> meta_to_json L m = Some s \<Longrightarrow> meta_from_json L s = Some m"
  by (simp add: codec_laws_def meta_to_json_def meta_from_json_def meta_wire_roundtrip)

lemma meta_from_json_wf: "meta_from_json L s = Some m \<Longrightarrow> wf_meta m"
  by (auto simp: meta_from_json_def meta_from_wire_def wf_meta_def and_then_Inr
      dest: deserialize_vault_id_wf split: option.splits)

section \<open>Encrypted slots and pointers\<close>

definition slot_to_wire :: "'z base64_lib_scheme \<Rightarrow> encrypted_slot \<Rightarrow> encrypted_slot_wire" where
  "slot_to_wire L s =
     \<lparr>esw_format = es_format s, esw_version = es_version s,
      esw_vault_id = serialize_vault_id L (es_vault_id s), esw_slot = es_slot s,
      esw_generation = es_generation s, esw_algorithm = es_algorithm s,
      esw_nonce = serialize_encoded_bytes L (es_nonce s),
      esw_ciphertext = serialize_encoded_bytes L (es_ciphertext s)\<rparr>"

definition slot_from_wire ::
  "'z base64_lib_scheme \<Rightarrow> encrypted_slot_wire \<Rightarrow> encoding_error + encrypted_slot" where
  "slot_from_wire L w =
     and_then (deserialize_vault_id L (esw_vault_id w)) (\<lambda>vault_id.
     and_then (deserialize_encoded_bytes L (esw_nonce w)) (\<lambda>nonce.
     and_then (deserialize_encoded_bytes L (esw_ciphertext w)) (\<lambda>ciphertext.
     Inr \<lparr>es_format = esw_format w, es_version = esw_version w, es_vault_id = vault_id,
          es_slot = esw_slot w, es_generation = esw_generation w,
          es_algorithm = esw_algorithm w, es_nonce = nonce, es_ciphertext = ciphertext\<rparr>)))"

definition slot_to_json :: "'z codec_lib_scheme \<Rightarrow> encrypted_slot \<Rightarrow> rstring option" where
  "slot_to_json L s = json_slot_ser L (slot_to_wire L s)"

definition slot_from_json :: "'z codec_lib_scheme \<Rightarrow> rstring \<Rightarrow> encrypted_slot option" where
  "slot_from_json L s =
     (case json_slot_de L s of None \<Rightarrow> None | Some w \<Rightarrow> result_ok (slot_from_wire L w))"

definition wf_slot :: "encrypted_slot \<Rightarrow> bool" where
  "wf_slot s \<longleftrightarrow> wf_vault_id (es_vault_id s)"

lemma slot_json_roundtrip:
  "codec_laws L \<Longrightarrow> wf_slot s \<Longrightarrow> slot_to_json L s = Some t \<Longrightarrow> slot_from_json L t = Some s"
  by (simp add: codec_laws_def slot_to_json_def slot_from_json_def slot_from_wire_def
      slot_to_wire_def wf_slot_def field_codec)

lemma slot_from_json_wf: "slot_from_json L t = Some s \<Longrightarrow> wf_slot s"
  by (auto simp: slot_from_json_def slot_from_wire_def wf_slot_def and_then_Inr
      dest: deserialize_vault_id_wf split: option.splits)

definition pointer_to_json :: "'z codec_lib_scheme \<Rightarrow> active_slot \<Rightarrow> rstring option" where
  "pointer_to_json L p = json_pointer_ser L p"

definition pointer_from_json :: "'z codec_lib_scheme \<Rightarrow> rstring \<Rightarrow> active_slot option" where
  "pointer_from_json L s = json_pointer_de L s"

lemma pointer_json_roundtrip:
  "codec_laws L \<Longrightarrow> pointer_to_json L p = Some s \<Longrightarrow> pointer_from_json L s = Some p"
  by (simp add: codec_laws_def pointer_to_json_def pointer_from_json_def)

section \<open>Containers\<close>

definition entry_to_wire :: "'z base64_lib_scheme \<Rightarrow> vault_entry \<Rightarrow> vault_entry_wire" where
  "entry_to_wire L e =
     \<lparr>vew_id = serialize_entry_id L (ve_id e), vew_title = ve_title e, vew_secret = ve_secret e,
      vew_description = ve_description e, vew_created_at = ve_created_at e,
      vew_updated_at = ve_updated_at e\<rparr>"

definition entry_from_wire ::
  "'z base64_lib_scheme \<Rightarrow> vault_entry_wire \<Rightarrow> encoding_error + vault_entry" where
  "entry_from_wire L w =
     and_then (deserialize_entry_id L (vew_id w)) (\<lambda>i.
     Inr \<lparr>ve_id = i, ve_title = vew_title w, ve_secret = vew_secret w,
          ve_description = vew_description w, ve_created_at = vew_created_at w,
          ve_updated_at = vew_updated_at w\<rparr>)"

fun entries_from_wire ::
  "'z base64_lib_scheme \<Rightarrow> vault_entry_wire list \<Rightarrow> encoding_error + vault_entry list" where
  "entries_from_wire L [] = Inr []"
| "entries_from_wire L (w # ws) =
     and_then (entry_from_wire L w) (\<lambda>e.
     and_then (entries_from_wire L ws) (\<lambda>es. Inr (e # es)))"

definition container_to_wire ::
  "'z base64_lib_scheme \<Rightarrow> vault_container \<Rightarrow> vault_container_wire" where
  "container_to_wire L c =
     \<lparr>vcw_format = vc_format c, vcw_version = vc_version c,
      vcw_vault_id = serialize_vault_id L (vc_vault_id c), vcw_generation = vc_generation c,
      vcw_created_at = vc_created_at c, vcw_updated_at = vc_updated_at c,
      vcw_entries = map (entry_to_wire L) (vc_entries c)\<rparr>"

definition container_from_wire ::
  "'z base64_lib_scheme \<Rightarrow> vault_container_wire \<Rightarrow> encoding_error + vault_container" where
  "container_from_wire L w =
     and_then (deserialize_vault_id L (vcw_vault_id w)) (\<lambda>vault_id.
     and_then (entries_from_wire L (vcw_entries w)) (\<lambda>entries.
     Inr \<lparr>vc_format = vcw_format w, vc_version = vcw_version w, vc_vault_id = vault_id,
          vc_generation = vcw_generation w, vc_created_at = vcw_created_at w,
          vc_updated_at = vcw_updated_at w, vc_entries = entries\<rparr>))"

text \<open>\<open>serde_json::to_vec\<close> and \<open>serde_json::from_slice\<close> at the container's type.\<close>

definition container_to_json :: "'z codec_lib_scheme \<Rightarrow> vault_container \<Rightarrow> bytes option" where
  "container_to_json L c = json_container_ser L (container_to_wire L c)"

definition container_from_json :: "'z codec_lib_scheme \<Rightarrow> bytes \<Rightarrow> vault_container option" where
  "container_from_json L s =
     (case json_container_de L s of
        None \<Rightarrow> None | Some w \<Rightarrow> result_ok (container_from_wire L w))"

definition wf_container :: "vault_container \<Rightarrow> bool" where
  "wf_container c \<longleftrightarrow>
     wf_vault_id (vc_vault_id c) \<and> (\<forall>e \<in> set (vc_entries c). wf_entry_id (ve_id e))"

lemma wf_container_generation [simp]:
  "wf_container (c\<lparr>vc_generation := g\<rparr>) \<longleftrightarrow> wf_container c"
  by (simp add: wf_container_def)

lemma entry_wire_roundtrip [field_codec]:
  "base64_laws L \<Longrightarrow> wf_entry_id (ve_id e) \<Longrightarrow> entry_from_wire L (entry_to_wire L e) = Inr e"
  by (simp add: entry_from_wire_def entry_to_wire_def field_codec)

lemma entries_wire_roundtrip [field_codec]:
  "base64_laws L \<Longrightarrow> \<forall>e \<in> set es. wf_entry_id (ve_id e) \<Longrightarrow>
   entries_from_wire L (map (entry_to_wire L) es) = Inr es"
  by (induction es) (simp_all add: field_codec)

lemma container_json_roundtrip:
  "codec_laws L \<Longrightarrow> wf_container c \<Longrightarrow> container_to_json L c = Some s \<Longrightarrow>
   container_from_json L s = Some c"
  by (simp add: codec_laws_def container_to_json_def container_from_json_def
      container_from_wire_def container_to_wire_def wf_container_def field_codec)

lemma entry_from_wire_wf: "entry_from_wire L w = Inr e \<Longrightarrow> wf_entry_id (ve_id e)"
  by (auto simp: entry_from_wire_def and_then_Inr intro: deserialize_entry_id_wf)

lemma entries_from_wire_wf:
  "entries_from_wire L ws = Inr es \<Longrightarrow> e \<in> set es \<Longrightarrow> wf_entry_id (ve_id e)"
  by (induction ws arbitrary: es)
    (auto simp: and_then_Inr entry_from_wire_wf)

lemma container_from_json_wf: "container_from_json L s = Some c \<Longrightarrow> wf_container c"
  by (auto simp: container_from_json_def container_from_wire_def wf_container_def and_then_Inr
      dest: deserialize_vault_id_wf entries_from_wire_wf split: option.splits)

end
