(* ===== verification/Crypto.thy ===== *)
theory Crypto
  imports Codec
begin

text \<open>
  \<open>crates/vault-core/src/crypto.rs\<close>: key derivation, wrapping of the data key, encryption of
  slot payloads and the additional authenticated data (AAD) that binds a ciphertext to its
  place. The primitives (Argon2id, HKDF-SHA-256, XChaCha20-Poly1305, the caller's random
  source) come from crates that are not under \<open>src/\<close>: they are the fields of \<open>crypto_lib\<close> and
  \<open>deps\<close>, and \<open>crypto_laws\<close> states what those crates document (decryption inverts
  encryption, a 16-byte tag, outputs of the requested length). Nothing is assumed about
  secrecy or unforgeability.
\<close>

section \<open>The primitives\<close>

record crypto_lib = codec_lib +
  argon2_params_new :: "u32 \<Rightarrow> u32 \<Rightarrow> u32 \<Rightarrow> nat \<Rightarrow> bool"
  argon2id_hash :: "u32 \<Rightarrow> u32 \<Rightarrow> u32 \<Rightarrow> nat \<Rightarrow> bytes \<Rightarrow> bytes \<Rightarrow> bytes option"
  hkdf_sha256 :: "bytes \<Rightarrow> bytes \<Rightarrow> bytes \<Rightarrow> nat \<Rightarrow> bytes option"
  xchacha_key_ok :: "bytes \<Rightarrow> bool"
  xchacha_encrypt :: "bytes \<Rightarrow> bytes \<Rightarrow> bytes \<Rightarrow> bytes \<Rightarrow> bytes option"
  xchacha_decrypt :: "bytes \<Rightarrow> bytes \<Rightarrow> bytes \<Rightarrow> bytes \<Rightarrow> bytes option"

text \<open>
  The arguments of the two AEAD functions are key, nonce, message (plaintext or ciphertext) and
  AAD. \<open>deps\<close> adds the caller's random source over its state \<open>'r\<close>: asked for \<open>n\<close> bytes it
  answers with bytes or fails.
\<close>

record 'r deps = crypto_lib +
  rng_try_fill :: "nat \<Rightarrow> 'r \<Rightarrow> bytes option \<times> 'r"

definition crypto_laws :: "'z crypto_lib_scheme \<Rightarrow> bool" where
  "crypto_laws L \<longleftrightarrow>
     (\<forall>k n m a c. xchacha_encrypt L k n m a = Some c \<longrightarrow>
        xchacha_decrypt L k n c a = Some m \<and> length c = length m + 16) \<and>
     (\<forall>m t p n pw salt h. argon2id_hash L m t p n pw salt = Some h \<longrightarrow> length h = n) \<and>
     (\<forall>salt ikm info n k. hkdf_sha256 L salt ikm info n = Some k \<longrightarrow> length k = n)"

definition rng_laws :: "('r, 'z) deps_scheme \<Rightarrow> bool" where
  "rng_laws L \<longleftrightarrow> (\<forall>n r bs r'. rng_try_fill L n r = (Some bs, r') \<longrightarrow> length bs = n)"

text \<open>What the third-party code is documented to do, bundled for the theorems below.\<close>

definition deps_laws :: "('r, 'z) deps_scheme \<Rightarrow> bool" where
  "deps_laws L \<longleftrightarrow> codec_laws L \<and> crypto_laws L \<and> rng_laws L"

lemma deps_lawsD [dest]:
  "deps_laws L \<Longrightarrow> codec_laws L"
  "deps_laws L \<Longrightarrow> crypto_laws L"
  "deps_laws L \<Longrightarrow> rng_laws L"
  by (simp_all add: deps_laws_def)

section \<open>Constants\<close>

definition KEK_INFO :: bytes where
  "KEK_INFO = as_bytes (str ''pocket-vault/local-kek/v1'')"

definition WRAPPED_DEK_OBJECT :: bytes where
  "WRAPPED_DEK_OBJECT = as_bytes (str ''wrapped-dek'')"

definition VAULT_SLOT_OBJECT :: bytes where
  "VAULT_SLOT_OBJECT = as_bytes (str ''vault-slot'')"

definition KEY_BYTES :: nat where
  "KEY_BYTES = 32"

definition NONCE_BYTES :: nat where
  "NONCE_BYTES = 24"

section \<open>Randomness\<close>

definition random_array ::
  "('r, 'z) deps_scheme \<Rightarrow> nat \<Rightarrow> ('r, vault_error, bytes) eff" where
  "random_array L n = (\<lambda>r. case rng_try_fill L n r of
      (None, r') \<Rightarrow> (Inl RandomGenerationFailed, r')
    | (Some bs, r') \<Rightarrow> (Inr bs, r'))"

lemma random_array_length:
  "rng_laws L \<Longrightarrow> random_array L n r = (Inr bs, r') \<Longrightarrow> length bs = n"
  by (auto simp: random_array_def rng_laws_def split: prod.splits option.splits)

lemma random_array_err:
  "random_array L n r = (Inl e, r') \<Longrightarrow> e = RandomGenerationFailed"
  by (auto simp: random_array_def split: prod.splits option.splits)

section \<open>Key derivation\<close>

definition derive_kek ::
  "'z crypto_lib_scheme \<Rightarrow> bytes \<Rightarrow> vault_id \<Rightarrow> kdf_params \<Rightarrow> bytes result" where
  "derive_kek L master_password vault_id kdf =
     and_then (kdf_validate kdf) (\<lambda>_.
     if \<not> argon2_params_new L (kp_memory_kib kdf) (kp_iterations kdf) (kp_parallelism kdf) KEY_BYTES
       then Inl (InvalidKdfParameters ''parameters were rejected by Argon2'')
     else
       and_then (ok_or KeyDerivationFailed
         (argon2id_hash L (kp_memory_kib kdf) (kp_iterations kdf) (kp_parallelism kdf) KEY_BYTES
            master_password (as_slice (kp_salt kdf)))) (\<lambda>password_key.
       ok_or KeyDerivationFailed
         (hkdf_sha256 L (vault_id_as_bytes vault_id) password_key KEK_INFO KEY_BYTES)))"

lemma derive_kek_length:
  "crypto_laws L \<Longrightarrow> derive_kek L pw i k = Inr kek \<Longrightarrow> length kek = KEY_BYTES"
  by (auto simp: derive_kek_def crypto_laws_def and_then_Inr split: if_splits)

lemma derive_kek_bounds: "derive_kek L pw i k = Inr kek \<Longrightarrow> kdf_in_bounds k"
  by (auto simp: derive_kek_def and_then_Inr kdf_validate_ok)

lemma derive_kek_no_panic [simp]: "no_panic (derive_kek L pw i k)"
  by (auto simp: derive_kek_def intro!: no_panic_and_then)

section \<open>Additional authenticated data\<close>

text \<open>
  \<open>push_aad_field\<close> panics (\<open>expect\<close>) when the length does not fit a \<open>u32\<close>; \<open>None\<close> is that
  panic here, and \<open>aad_or_panic\<close> carries it on in the callers.
\<close>

definition push_aad_field :: "bytes \<Rightarrow> bytes \<Rightarrow> bytes option" where
  "push_aad_field output value =
     (if length value < 2 ^ 32
      then Some (output @ u32_to_be_bytes (of_nat (length value)) @ value)
      else None)"

fun push_aad_fields :: "bytes \<Rightarrow> bytes list \<Rightarrow> bytes option" where
  "push_aad_fields output [] = Some output"
| "push_aad_fields output (v # vs) =
     (case push_aad_field output v of None \<Rightarrow> None | Some output' \<Rightarrow> push_aad_fields output' vs)"

definition wrapped_dek_aad :: "vault_id \<Rightarrow> bytes option" where
  "wrapped_dek_aad vault_id =
     push_aad_fields []
       [as_bytes FORMAT, WRAPPED_DEK_OBJECT, u32_to_be_bytes FORMAT_VERSION,
        vault_id_as_bytes vault_id]"

definition vault_slot_aad :: "vault_id \<Rightarrow> slot_id \<Rightarrow> u64 \<Rightarrow> bytes option" where
  "vault_slot_aad vault_id slot generation =
     push_aad_fields []
       [as_bytes FORMAT, VAULT_SLOT_OBJECT, u32_to_be_bytes FORMAT_VERSION,
        vault_id_as_bytes vault_id, [aad_byte slot], u64_to_be_bytes generation]"

definition aad_or_panic :: "bytes option \<Rightarrow> bytes result" where
  "aad_or_panic aad = ok_or (Panic ''AAD fields are statically bounded'') aad"

text \<open>The fields laid out one after the other, and the injectivity of that layout.\<close>

definition aad_field :: "bytes \<Rightarrow> bytes" where
  "aad_field v = u32_to_be_bytes (of_nat (length v)) @ v"

lemma push_aad_fields_eq:
  "push_aad_fields out vs =
     (if \<forall>v \<in> set vs. length v < 2 ^ 32 then Some (out @ concat (map aad_field vs)) else None)"
  by (induction vs arbitrary: out) (auto simp: push_aad_field_def aad_field_def)

lemma aad_field_append_inj:
  assumes "length v < 2 ^ 32" and "length w < 2 ^ 32"
  shows "aad_field v @ xs = aad_field w @ ys \<longleftrightarrow> v = w \<and> xs = ys"
proof
  assume eq: "aad_field v @ xs = aad_field w @ ys"
  then have "u32_to_be_bytes (of_nat (length v)) = u32_to_be_bytes (of_nat (length w))"
    by (simp add: aad_field_def append_eq_append_conv)
  then have "(of_nat (length v) :: u32) = of_nat (length w)"
    by (simp add: u32_to_be_bytes_inj)
  then have "length v = length w"
    using assms by (metis unat_of_nat_u32)
  with eq show "v = w \<and> xs = ys" by (simp add: aad_field_def append_eq_append_conv)
qed simp

lemma concat_aad_fields_inj:
  "\<forall>v \<in> set vs \<union> set ws. length v < 2 ^ 32 \<Longrightarrow> length vs = length ws \<Longrightarrow>
   concat (map aad_field vs) = concat (map aad_field ws) \<longleftrightarrow> vs = ws"
proof (induction vs arbitrary: ws)
  case Nil
  then show ?case by simp
next
  case (Cons v vs)
  then obtain w ws' where ws: "ws = w # ws'" by (cases ws) auto
  with Cons show ?case by (simp add: aad_field_append_inj)
qed

lemma const_field_lengths [simp]:
  "length (as_bytes FORMAT) = 12"
  "length WRAPPED_DEK_OBJECT = 11"
  "length VAULT_SLOT_OBJECT = 10"
  by code_simp+

lemma objects_differ: "WRAPPED_DEK_OBJECT \<noteq> VAULT_SLOT_OBJECT"
proof
  assume "WRAPPED_DEK_OBJECT = VAULT_SLOT_OBJECT"
  then have "length WRAPPED_DEK_OBJECT = length VAULT_SLOT_OBJECT" by simp
  then show False by simp
qed

lemma wrapped_dek_aad_Some:
  "wrapped_dek_aad i = Some a \<longleftrightarrow>
     length (vault_id_as_bytes i) < 2 ^ 32 \<and>
     a = concat (map aad_field [as_bytes FORMAT, WRAPPED_DEK_OBJECT,
           u32_to_be_bytes FORMAT_VERSION, vault_id_as_bytes i])"
  unfolding wrapped_dek_aad_def push_aad_fields_eq by (auto simp del: concat.simps)

lemma vault_slot_aad_Some:
  "vault_slot_aad i s g = Some a \<longleftrightarrow>
     length (vault_id_as_bytes i) < 2 ^ 32 \<and>
     a = concat (map aad_field [as_bytes FORMAT, VAULT_SLOT_OBJECT,
           u32_to_be_bytes FORMAT_VERSION, vault_id_as_bytes i, [aad_byte s], u64_to_be_bytes g])"
  unfolding vault_slot_aad_def push_aad_fields_eq by (auto simp del: concat.simps)

lemma vault_id_as_bytes_inj: "vault_id_as_bytes i = vault_id_as_bytes j \<longleftrightarrow> i = j"
  by (cases i; cases j) simp

lemma wrapped_dek_aad_binds:
  assumes "wrapped_dek_aad i = Some a" and "wrapped_dek_aad j = Some a"
  shows "i = j"
proof -
  let ?fs = "\<lambda>i. [as_bytes FORMAT, WRAPPED_DEK_OBJECT, u32_to_be_bytes FORMAT_VERSION,
    vault_id_as_bytes i]"
  from assms have "concat (map aad_field (?fs i)) = concat (map aad_field (?fs j))"
    and "\<forall>v \<in> set (?fs i) \<union> set (?fs j). length v < 2 ^ 32"
    unfolding wrapped_dek_aad_Some by (simp_all del: concat.simps)
  moreover have "length (?fs i) = length (?fs j)" by simp
  ultimately have "?fs i = ?fs j" using concat_aad_fields_inj [of "?fs i" "?fs j"] by blast
  then show ?thesis by (simp add: vault_id_as_bytes_inj)
qed

lemma vault_slot_aad_binds:
  assumes "vault_slot_aad i s g = Some a" and "vault_slot_aad j t h = Some a"
  shows "i = j \<and> s = t \<and> g = h"
proof -
  let ?fs = "\<lambda>i s g. [as_bytes FORMAT, VAULT_SLOT_OBJECT, u32_to_be_bytes FORMAT_VERSION,
    vault_id_as_bytes i, [aad_byte s], u64_to_be_bytes g]"
  from assms have "concat (map aad_field (?fs i s g)) = concat (map aad_field (?fs j t h))"
    and "\<forall>v \<in> set (?fs i s g) \<union> set (?fs j t h). length v < 2 ^ 32"
    unfolding vault_slot_aad_Some by (simp_all del: concat.simps)
  moreover have "length (?fs i s g) = length (?fs j t h)" by simp
  ultimately have "?fs i s g = ?fs j t h"
    using concat_aad_fields_inj [of "?fs i s g" "?fs j t h"] by blast
  then show ?thesis by (simp add: vault_id_as_bytes_inj aad_byte_inj u64_to_be_bytes_inj)
qed

lemma aad_objects_separate:
  assumes "wrapped_dek_aad i = Some a" and "vault_slot_aad j s g = Some b"
  shows "a \<noteq> b"
proof
  assume "a = b"
  with assms have "aad_field WRAPPED_DEK_OBJECT @ aad_field (u32_to_be_bytes FORMAT_VERSION)
        @ aad_field (vault_id_as_bytes i)
      = aad_field VAULT_SLOT_OBJECT @ aad_field (u32_to_be_bytes FORMAT_VERSION)
        @ aad_field (vault_id_as_bytes j) @ aad_field [aad_byte s] @ aad_field (u64_to_be_bytes g)"
    unfolding wrapped_dek_aad_Some vault_slot_aad_Some by simp
  then show False by (simp add: aad_field_append_inj objects_differ)
qed

lemma wf_vault_id_short: "wf_vault_id i \<Longrightarrow> length (vault_id_as_bytes i) < 2 ^ 32"
  by (simp add: wf_vault_id_def)

lemma vault_slot_aad_defined: "wf_vault_id i \<Longrightarrow> \<exists>a. vault_slot_aad i s g = Some a"
  by (simp add: vault_slot_aad_Some wf_vault_id_def)

section \<open>Authenticated encryption\<close>

definition encrypt ::
  "'z crypto_lib_scheme \<Rightarrow> bytes \<Rightarrow> bytes \<Rightarrow> bytes \<Rightarrow> bytes \<Rightarrow> bytes result" where
  "encrypt L key nonce plaintext aad =
     (if \<not> xchacha_key_ok L key then Inl EncryptionFailed
      else ok_or EncryptionFailed (xchacha_encrypt L key nonce plaintext aad))"

definition decrypt ::
  "'z crypto_lib_scheme \<Rightarrow> bytes \<Rightarrow> bytes \<Rightarrow> bytes \<Rightarrow> bytes \<Rightarrow> bytes result" where
  "decrypt L key nonce ciphertext aad =
     (if \<not> xchacha_key_ok L key then Inl WrongPasswordOrCorruptedVault
      else ok_or WrongPasswordOrCorruptedVault (xchacha_decrypt L key nonce ciphertext aad))"

lemma decrypt_encrypt:
  "crypto_laws L \<Longrightarrow> encrypt L k n m a = Inr c \<Longrightarrow>
   decrypt L k n c a = Inr m \<and> length c = length m + 16"
  by (auto simp: encrypt_def decrypt_def crypto_laws_def split: if_splits)

lemma crypt_no_panic [simp]:
  "no_panic (encrypt L k n m a)"
  "no_panic (decrypt L k n c a)"
  by (simp_all add: encrypt_def decrypt_def)

section \<open>Wrapping the data key\<close>

definition wrap_dek ::
  "('r, 'z) deps_scheme \<Rightarrow> bytes \<Rightarrow> bytes \<Rightarrow> vault_id \<Rightarrow> ('r, vault_error, wrapped_dek) eff" where
  "wrap_dek L kek dek vault_id =
     bindE (random_array L NONCE_BYTES) (\<lambda>nonce.
     bindE (lift (aad_or_panic (wrapped_dek_aad vault_id))) (\<lambda>aad.
     bindE (lift (encrypt L kek nonce dek aad)) (\<lambda>ciphertext.
     ret \<lparr>wd_algorithm = XChaCha20Poly1305, wd_nonce = EncodedBytes nonce,
          wd_ciphertext = EncodedBytes ciphertext\<rparr>)))"

text \<open>\<open><[u8]>::copy_from_slice\<close> panics on a length mismatch.\<close>

definition copy_from_slice :: "bytes \<Rightarrow> bytes \<Rightarrow> bytes result" where
  "copy_from_slice dst source =
     (if length dst = length source then Inr source
      else Inl (Panic ''copy_from_slice: source slice length does not match''))"

definition unwrap_dek ::
  "'z crypto_lib_scheme \<Rightarrow> bytes \<Rightarrow> wrapped_dek \<Rightarrow> vault_id \<Rightarrow> bytes result" where
  "unwrap_dek L kek wrapped vault_id =
     (if eb_len (wd_nonce wrapped) \<noteq> NONCE_BYTES
        then Inl (InvalidMetadata ''wrapped DEK nonce must be 24 bytes'')
      else
        and_then (aad_or_panic (wrapped_dek_aad vault_id)) (\<lambda>aad.
        and_then (decrypt L kek (as_slice (wd_nonce wrapped)) (as_slice (wd_ciphertext wrapped)) aad)
          (\<lambda>plaintext.
        if length plaintext \<noteq> KEY_BYTES then Inl WrongPasswordOrCorruptedVault
        else copy_from_slice (replicate KEY_BYTES 0) plaintext)))"

section \<open>Slot payloads\<close>

definition encrypt_slot_payload ::
  "('r, 'z) deps_scheme \<Rightarrow> bytes \<Rightarrow> vault_id \<Rightarrow> slot_id \<Rightarrow> u64 \<Rightarrow> bytes
     \<Rightarrow> ('r, vault_error, encrypted_slot) eff" where
  "encrypt_slot_payload L dek vault_id slot generation plaintext =
     bindE (random_array L NONCE_BYTES) (\<lambda>nonce.
     bindE (lift (aad_or_panic (vault_slot_aad vault_id slot generation))) (\<lambda>aad.
     bindE (lift (encrypt L dek nonce plaintext aad)) (\<lambda>ciphertext.
     ret \<lparr>es_format = FORMAT, es_version = FORMAT_VERSION, es_vault_id = vault_id,
          es_slot = slot, es_generation = generation, es_algorithm = XChaCha20Poly1305,
          es_nonce = EncodedBytes nonce, es_ciphertext = EncodedBytes ciphertext\<rparr>)))"

definition decrypt_slot_payload ::
  "'z crypto_lib_scheme \<Rightarrow> bytes \<Rightarrow> encrypted_slot \<Rightarrow> bytes result" where
  "decrypt_slot_payload L dek slot =
     (if eb_len (es_nonce slot) \<noteq> NONCE_BYTES
        then Inl (InvalidSlot ''nonce must be 24 bytes'')
      else
        and_then (aad_or_panic (vault_slot_aad (es_vault_id slot) (es_slot slot) (es_generation slot)))
          (\<lambda>aad.
        decrypt L dek (as_slice (es_nonce slot)) (as_slice (es_ciphertext slot)) aad))"

section \<open>Round trips and shapes\<close>

lemma wrap_dek_Inr:
  assumes "wrap_dek L kek dek i r = (Inr w, r')"
  obtains nonce aad c where "random_array L NONCE_BYTES r = (Inr nonce, r')"
    and "wrapped_dek_aad i = Some aad" and "encrypt L kek nonce dek aad = Inr c"
    and "w = \<lparr>wd_algorithm = XChaCha20Poly1305, wd_nonce = EncodedBytes nonce,
          wd_ciphertext = EncodedBytes c\<rparr>"
  using assms
  by (auto simp: wrap_dek_def bindE_Inr aad_or_panic_def)

lemma encrypt_slot_payload_Inr:
  assumes "encrypt_slot_payload L dek i s g p r = (Inr slot, r')"
  obtains nonce aad c where "random_array L NONCE_BYTES r = (Inr nonce, r')"
    and "vault_slot_aad i s g = Some aad" and "encrypt L dek nonce p aad = Inr c"
    and "slot = \<lparr>es_format = FORMAT, es_version = FORMAT_VERSION, es_vault_id = i,
          es_slot = s, es_generation = g, es_algorithm = XChaCha20Poly1305,
          es_nonce = EncodedBytes nonce, es_ciphertext = EncodedBytes c\<rparr>"
  using assms
  by (auto simp: encrypt_slot_payload_def bindE_Inr aad_or_panic_def)

lemma unwrap_wrap_dek:
  assumes "crypto_laws L" and "rng_laws L" and "length dek = KEY_BYTES"
    and "wrap_dek L kek dek i r = (Inr w, r')"
  shows "unwrap_dek L kek w i = Inr dek"
  using assms(4)
proof (cases rule: wrap_dek_Inr)
  case (1 nonce aad c)
  with assms have "length nonce = NONCE_BYTES" "decrypt L kek nonce c aad = Inr dek"
    by (auto dest: random_array_length decrypt_encrypt)
  with 1 assms(3) show ?thesis
    by (simp add: unwrap_dek_def eb_len_def aad_or_panic_def copy_from_slice_def)
qed

lemma wrap_dek_shape:
  assumes "crypto_laws L" and "rng_laws L" and "length dek = KEY_BYTES"
    and "wrap_dek L kek dek i r = (Inr w, r')"
  shows "eb_len (wd_nonce w) = 24 \<and> eb_len (wd_ciphertext w) = 48"
  using assms(4)
proof (cases rule: wrap_dek_Inr)
  case (1 nonce aad c)
  with assms show ?thesis
    by (auto simp: eb_len_def NONCE_BYTES_def KEY_BYTES_def
        dest!: random_array_length decrypt_encrypt)
qed

lemma decrypt_encrypt_slot_payload:
  assumes "crypto_laws L" and "rng_laws L"
    and "encrypt_slot_payload L dek i s g p r = (Inr slot, r')"
  shows "decrypt_slot_payload L dek slot = Inr p"
  using assms(3)
proof (cases rule: encrypt_slot_payload_Inr)
  case (1 nonce aad c)
  with assms have "length nonce = NONCE_BYTES" "decrypt L dek nonce c aad = Inr p"
    by (auto dest: random_array_length decrypt_encrypt)
  with 1 show ?thesis
    by (simp add: decrypt_slot_payload_def eb_len_def aad_or_panic_def)
qed

lemma encrypt_slot_payload_fields:
  assumes "encrypt_slot_payload L dek i s g p r = (Inr slot, r')"
  shows "es_format slot = FORMAT \<and> es_version slot = FORMAT_VERSION \<and> es_vault_id slot = i
    \<and> es_slot slot = s \<and> es_generation slot = g"
  using assms by (cases rule: encrypt_slot_payload_Inr) simp

lemma encrypt_slot_payload_valid:
  assumes "crypto_laws L" and "rng_laws L"
    and "encrypt_slot_payload L dek i s g p r = (Inr slot, r')"
    and "length p + 16 \<le> DEVICE_STORAGE_LIMIT_BYTES"
  shows "slot_validate slot i = Inr ()"
  using assms(3)
proof (cases rule: encrypt_slot_payload_Inr)
  case (1 nonce aad c)
  with assms(1,2,4) have "length nonce = 24" "length c = length p + 16"
    by (auto simp: NONCE_BYTES_def dest: random_array_length decrypt_encrypt)
  with 1 assms(4) show ?thesis by (simp add: slot_validate_ok eb_len_def)
qed

section \<open>Panic freedom\<close>

text \<open>The \<open>expect\<close> and \<open>copy_from_slice\<close> panics are unreachable for 16-byte vault ids.\<close>

lemma aad_no_panic:
  "wf_vault_id i \<Longrightarrow> no_panic (aad_or_panic (wrapped_dek_aad i))"
  "wf_vault_id i \<Longrightarrow> no_panic (aad_or_panic (vault_slot_aad i s g))"
  using wf_vault_id_short [of i]
  by (auto simp: aad_or_panic_def wrapped_dek_aad_Some vault_slot_aad_Some simp del: concat.simps)

lemma unwrap_dek_no_panic: "wf_vault_id i \<Longrightarrow> no_panic (unwrap_dek L kek w i)"
  by (auto simp: unwrap_dek_def copy_from_slice_def aad_no_panic intro!: no_panic_and_then)

lemma decrypt_slot_payload_no_panic: "wf_slot s \<Longrightarrow> no_panic (decrypt_slot_payload L dek s)"
  by (auto simp: decrypt_slot_payload_def wf_slot_def aad_no_panic intro!: no_panic_and_then)

lemma random_array_no_panic [simp]: "no_panic (fst (random_array L n r))"
  by (simp add: random_array_def split: prod.splits option.splits)

lemma wrap_dek_no_panic: "wf_vault_id i \<Longrightarrow> no_panic (fst (wrap_dek L kek dek i r))"
  by (auto simp: wrap_dek_def aad_no_panic intro!: no_panic_bindE)

lemma encrypt_slot_payload_no_panic:
  "wf_vault_id i \<Longrightarrow> no_panic (fst (encrypt_slot_payload L dek i s g p r))"
  by (auto simp: encrypt_slot_payload_def aad_no_panic intro!: no_panic_bindE)

end
