(* ===== verification/Sample_Deps.thy ===== *)
theory Sample_Deps
  imports Crypto
begin

text \<open>
  One concrete, executable choice of the third-party functions, on which the witnesses evaluate:
  a self-delimiting binary codec in place of \<open>serde_json\<close>, a byte-to-character map in place of
  Base64, truncation in place of Argon2id and HKDF, and parts of the key and of the associated data in
  place of the Poly1305 tag.
  It is not the code's cryptography and no property rests on it; it shows that the named laws
  (\<open>codec_laws\<close>, \<open>crypto_laws\<close>, \<open>rng_laws\<close>) can hold together.
\<close>

section \<open>Self-delimiting encodings\<close>

definition delimited :: "('a \<Rightarrow> bytes) \<Rightarrow> (bytes \<Rightarrow> ('a \<times> bytes) option) \<Rightarrow> bool" where
  "delimited enc dec \<longleftrightarrow> (\<forall>x r. dec (enc x @ r) = Some (x, r))"

lemma delimitedD: "delimited enc dec \<Longrightarrow> dec (enc x @ r) = Some (x, r)"
  by (simp add: delimited_def)

fun enc_nat :: "nat \<Rightarrow> bytes" where
  "enc_nat n = (if n < 128 then [u8_of n] else u8_of (128 + n mod 128) # enc_nat (n div 128))"

declare enc_nat.simps [simp del]

fun dec_nat :: "bytes \<Rightarrow> (nat \<times> bytes) option" where
  "dec_nat [] = None"
| "dec_nat (b # bs) =
     (if unat b < 128 then Some (unat b, bs)
      else case dec_nat bs of None \<Rightarrow> None
           | Some (n, r) \<Rightarrow> Some (unat b - 128 + 128 * n, r))"

lemma delimited_nat: "delimited enc_nat dec_nat"
proof -
  have "dec_nat (enc_nat n @ r) = Some (n, r)" for n r
  proof (induction n rule: enc_nat.induct)
    case (1 n)
    then show ?case by (cases "n < 128") (simp_all add: enc_nat.simps [of n])
  qed
  then show ?thesis by (simp add: delimited_def)
qed

fun dec_many :: "(bytes \<Rightarrow> ('a \<times> bytes) option) \<Rightarrow> nat \<Rightarrow> bytes \<Rightarrow> ('a list \<times> bytes) option" where
  "dec_many dec 0 bs = Some ([], bs)"
| "dec_many dec (Suc n) bs =
     (case dec bs of None \<Rightarrow> None
      | Some (x, r) \<Rightarrow>
          (case dec_many dec n r of None \<Rightarrow> None | Some (xs, r') \<Rightarrow> Some (x # xs, r')))"

definition enc_list :: "('a \<Rightarrow> bytes) \<Rightarrow> 'a list \<Rightarrow> bytes" where
  "enc_list enc xs = enc_nat (length xs) @ concat (map enc xs)"

definition dec_list :: "(bytes \<Rightarrow> ('a \<times> bytes) option) \<Rightarrow> bytes \<Rightarrow> ('a list \<times> bytes) option" where
  "dec_list dec bs = (case dec_nat bs of None \<Rightarrow> None | Some (n, r) \<Rightarrow> dec_many dec n r)"

lemma delimited_list:
  assumes "delimited enc dec"
  shows "delimited (enc_list enc) (dec_list dec)"
proof -
  have "dec_many dec (length xs) (concat (map enc xs) @ r) = Some (xs, r)" for xs r
    by (induction xs) (simp_all add: delimitedD [OF assms])
  then show ?thesis
    by (simp add: delimited_def enc_list_def dec_list_def delimitedD [OF delimited_nat])
qed

definition enc_pair :: "('a \<Rightarrow> bytes) \<Rightarrow> ('b \<Rightarrow> bytes) \<Rightarrow> 'a \<times> 'b \<Rightarrow> bytes" where
  "enc_pair e1 e2 p = e1 (fst p) @ e2 (snd p)"

definition dec_pair ::
  "(bytes \<Rightarrow> ('a \<times> bytes) option) \<Rightarrow> (bytes \<Rightarrow> ('b \<times> bytes) option)
     \<Rightarrow> bytes \<Rightarrow> (('a \<times> 'b) \<times> bytes) option" where
  "dec_pair d1 d2 bs =
     (case d1 bs of None \<Rightarrow> None
      | Some (x, r) \<Rightarrow> (case d2 r of None \<Rightarrow> None | Some (y, r') \<Rightarrow> Some ((x, y), r')))"

lemma delimited_pair:
  "delimited e1 d1 \<Longrightarrow> delimited e2 d2 \<Longrightarrow> delimited (enc_pair e1 e2) (dec_pair d1 d2)"
  by (simp add: delimited_def enc_pair_def dec_pair_def)

text \<open>Carrying an encoding over to another type along a map with a left inverse.\<close>

definition dec_map ::
  "('a \<Rightarrow> 'b) \<Rightarrow> (bytes \<Rightarrow> ('a \<times> bytes) option) \<Rightarrow> bytes \<Rightarrow> ('b \<times> bytes) option" where
  "dec_map g d bs = (case d bs of None \<Rightarrow> None | Some (x, r) \<Rightarrow> Some (g x, r))"

lemma delimited_map:
  "delimited e d \<Longrightarrow> (\<And>y. g (f y) = y) \<Longrightarrow> delimited (\<lambda>y. e (f y)) (dec_map g d)"
  by (simp add: delimited_def dec_map_def)

section \<open>Encodings of the wire records\<close>

abbreviation enc_word :: "'w::len word \<Rightarrow> bytes" where
  "enc_word w \<equiv> enc_nat (unat w)"

abbreviation dec_word :: "bytes \<Rightarrow> ('w::len word \<times> bytes) option" where
  "dec_word \<equiv> dec_map of_nat dec_nat"

abbreviation enc_str :: "rstring \<Rightarrow> bytes" where
  "enc_str \<equiv> enc_list enc_nat"

abbreviation dec_str :: "bytes \<Rightarrow> (rstring \<times> bytes) option" where
  "dec_str \<equiv> dec_list dec_nat"

lemma delimited_word: "delimited enc_word (dec_word :: bytes \<Rightarrow> ('w::len word \<times> bytes) option)"
  by (rule delimited_map [OF delimited_nat]) simp

lemma delimited_str: "delimited enc_str dec_str"
  by (rule delimited_list [OF delimited_nat])

definition opt_to_list :: "'a option \<Rightarrow> 'a list" where
  "opt_to_list x = (case x of None \<Rightarrow> [] | Some y \<Rightarrow> [y])"

definition list_to_opt :: "'a list \<Rightarrow> 'a option" where
  "list_to_opt xs = (case xs of [] \<Rightarrow> None | y # _ \<Rightarrow> Some y)"

definition slot_to_nat :: "slot_id \<Rightarrow> nat" where
  "slot_to_nat s = (case s of A \<Rightarrow> 0 | B \<Rightarrow> 1)"

definition nat_to_slot :: "nat \<Rightarrow> slot_id" where
  "nat_to_slot n = (if n = 0 then A else B)"

lemma opt_list_inverse [simp]: "list_to_opt (opt_to_list x) = x"
  by (simp add: opt_to_list_def list_to_opt_def split: option.splits)

lemma slot_nat_inverse [simp]: "nat_to_slot (slot_to_nat s) = s"
  by (cases s) (simp_all add: slot_to_nat_def nat_to_slot_def)

definition enc_kdf :: "kdf_params_wire \<Rightarrow> bytes" where
  "enc_kdf w = enc_pair enc_str (enc_list enc_word)
     (kpw_salt w, [kpw_memory_kib w, kpw_iterations w, kpw_parallelism w, kpw_output_bytes w])"

definition dec_kdf :: "bytes \<Rightarrow> (kdf_params_wire \<times> bytes) option" where
  "dec_kdf = dec_map (\<lambda>(salt, ns). \<lparr>kpw_algorithm = Argon2id, kpw_salt = salt,
     kpw_memory_kib = ns ! 0, kpw_iterations = ns ! 1, kpw_parallelism = ns ! 2,
     kpw_output_bytes = ns ! 3\<rparr>) (dec_pair dec_str (dec_list dec_word))"

lemma only_algorithms: "Argon2id = a" "XChaCha20Poly1305 = b"
  by (cases a, simp) (cases b, simp)

lemma delimited_kdf: "delimited enc_kdf dec_kdf"
  unfolding enc_kdf_def dec_kdf_def
  by (rule delimited_map [OF delimited_pair [OF delimited_str delimited_list [OF delimited_word]]])
    (auto intro!: kdf_params_wire.equality only_algorithms)

definition enc_meta :: "vault_meta_wire \<Rightarrow> bytes" where
  "enc_meta w =
     enc_pair (enc_list enc_str) (enc_pair enc_word (enc_pair enc_word enc_kdf))
       ([vmw_format w, vmw_vault_id w, wdw_nonce (vmw_wrapped_dek w),
         wdw_ciphertext (vmw_wrapped_dek w)],
        vmw_version w, vmw_created_at w, vmw_kdf w)"

definition dec_meta :: "bytes \<Rightarrow> (vault_meta_wire \<times> bytes) option" where
  "dec_meta = dec_map (\<lambda>(ss, version, created, kdf).
     \<lparr>vmw_format = ss ! 0, vmw_version = version, vmw_vault_id = ss ! 1,
      vmw_created_at = created, vmw_kdf = kdf,
      vmw_wrapped_dek = \<lparr>wdw_algorithm = XChaCha20Poly1305, wdw_nonce = ss ! 2,
        wdw_ciphertext = ss ! 3\<rparr>\<rparr>)
     (dec_pair (dec_list dec_str) (dec_pair dec_word (dec_pair dec_word dec_kdf)))"

lemma delimited_meta: "delimited enc_meta dec_meta"
  unfolding enc_meta_def dec_meta_def
  by (rule delimited_map [OF delimited_pair [OF delimited_list [OF delimited_str]
        delimited_pair [OF delimited_word delimited_pair [OF delimited_word delimited_kdf]]]])
    (auto intro!: vault_meta_wire.equality wrapped_dek_wire.equality only_algorithms)

definition enc_slot :: "encrypted_slot_wire \<Rightarrow> bytes" where
  "enc_slot w =
     enc_pair (enc_list enc_str) (enc_pair enc_word (enc_pair enc_word enc_nat))
       ([esw_format w, esw_vault_id w, esw_nonce w, esw_ciphertext w],
        esw_version w, esw_generation w, slot_to_nat (esw_slot w))"

definition dec_slot :: "bytes \<Rightarrow> (encrypted_slot_wire \<times> bytes) option" where
  "dec_slot = dec_map (\<lambda>(ss, version, generation, n).
     \<lparr>esw_format = ss ! 0, esw_version = version, esw_vault_id = ss ! 1,
      esw_slot = nat_to_slot n, esw_generation = generation,
      esw_algorithm = XChaCha20Poly1305, esw_nonce = ss ! 2, esw_ciphertext = ss ! 3\<rparr>)
     (dec_pair (dec_list dec_str) (dec_pair dec_word (dec_pair dec_word dec_nat)))"

lemma delimited_slot: "delimited enc_slot dec_slot"
  unfolding enc_slot_def dec_slot_def
  by (rule delimited_map [OF delimited_pair [OF delimited_list [OF delimited_str]
        delimited_pair [OF delimited_word delimited_pair [OF delimited_word delimited_nat]]]])
    (auto intro!: encrypted_slot_wire.equality only_algorithms)

definition enc_pointer :: "active_slot \<Rightarrow> bytes" where
  "enc_pointer p = enc_pair enc_word (enc_pair enc_nat enc_word)
     (as_version p, slot_to_nat (as_slot p), as_generation p)"

definition dec_pointer :: "bytes \<Rightarrow> (active_slot \<times> bytes) option" where
  "dec_pointer = dec_map (\<lambda>(version, n, generation).
     \<lparr>as_version = version, as_slot = nat_to_slot n, as_generation = generation\<rparr>)
     (dec_pair dec_word (dec_pair dec_nat dec_word))"

lemma delimited_pointer: "delimited enc_pointer dec_pointer"
  unfolding enc_pointer_def dec_pointer_def
  by (rule delimited_map
      [OF delimited_pair [OF delimited_word delimited_pair [OF delimited_nat delimited_word]]])
    (auto intro!: active_slot.equality)

definition enc_entry :: "vault_entry_wire \<Rightarrow> bytes" where
  "enc_entry w =
     enc_pair (enc_list enc_str) (enc_pair (enc_list enc_str) (enc_pair enc_word enc_word))
       ([vew_id w, vew_title w, vew_secret w], opt_to_list (vew_description w),
        vew_created_at w, vew_updated_at w)"

definition dec_entry :: "bytes \<Rightarrow> (vault_entry_wire \<times> bytes) option" where
  "dec_entry = dec_map (\<lambda>(ss, ds, created, updated).
     \<lparr>vew_id = ss ! 0, vew_title = ss ! 1, vew_secret = ss ! 2,
      vew_description = list_to_opt ds, vew_created_at = created, vew_updated_at = updated\<rparr>)
     (dec_pair (dec_list dec_str) (dec_pair (dec_list dec_str) (dec_pair dec_word dec_word)))"

lemma delimited_entry: "delimited enc_entry dec_entry"
  unfolding enc_entry_def dec_entry_def
  by (rule delimited_map [OF delimited_pair [OF delimited_list [OF delimited_str]
        delimited_pair [OF delimited_list [OF delimited_str]
          delimited_pair [OF delimited_word delimited_word]]]])
    (auto intro!: vault_entry_wire.equality)

definition enc_container :: "vault_container_wire \<Rightarrow> bytes" where
  "enc_container w =
     enc_pair (enc_list enc_str)
       (enc_pair enc_word (enc_pair (enc_list enc_word) (enc_list enc_entry)))
       ([vcw_format w, vcw_vault_id w], vcw_version w,
        [vcw_generation w, vcw_created_at w, vcw_updated_at w], vcw_entries w)"

definition dec_container :: "bytes \<Rightarrow> (vault_container_wire \<times> bytes) option" where
  "dec_container = dec_map (\<lambda>(ss, version, ns, entries).
     \<lparr>vcw_format = ss ! 0, vcw_version = version, vcw_vault_id = ss ! 1,
      vcw_generation = ns ! 0, vcw_created_at = ns ! 1, vcw_updated_at = ns ! 2,
      vcw_entries = entries\<rparr>)
     (dec_pair (dec_list dec_str)
       (dec_pair dec_word (dec_pair (dec_list dec_word) (dec_list dec_entry))))"

lemma delimited_container: "delimited enc_container dec_container"
  unfolding enc_container_def dec_container_def
  by (rule delimited_map [OF delimited_pair [OF delimited_list [OF delimited_str]
        delimited_pair [OF delimited_word
          delimited_pair [OF delimited_list [OF delimited_word]
            delimited_list [OF delimited_entry]]]]])
    (auto intro!: vault_container_wire.equality)

section \<open>The sample functions\<close>

text \<open>Bytes as characters from U+0100 on, so no \<open>=\<close> and every character is a scalar value.\<close>

definition sample_b64_encode :: "bytes \<Rightarrow> rstring" where
  "sample_b64_encode bs = map (\<lambda>b. 256 + unat b) bs"

definition sample_b64_decode :: "rstring \<Rightarrow> bytes option" where
  "sample_b64_decode s =
     (if list_all (\<lambda>c. 256 \<le> c \<and> c < 512) s then Some (map (\<lambda>c. u8_of (c - 256)) s) else None)"

definition sample_print :: "('a \<Rightarrow> bytes) \<Rightarrow> 'a \<Rightarrow> rstring option" where
  "sample_print enc x = Some (sample_b64_encode (enc x))"

definition sample_parse :: "(bytes \<Rightarrow> ('a \<times> bytes) option) \<Rightarrow> rstring \<Rightarrow> 'a option" where
  "sample_parse dec s =
     (case sample_b64_decode s of None \<Rightarrow> None
      | Some bs \<Rightarrow> (case dec bs of Some (x, []) \<Rightarrow> Some x | _ \<Rightarrow> None))"

text \<open>The tag shows three bytes of the key and the last thirteen of the associated data, which for
  a slot are its side and its generation.\<close>

definition sample_tag :: "bytes \<Rightarrow> bytes \<Rightarrow> bytes" where
  "sample_tag k a = take 16 (take 3 k @ rev (take 13 (rev a)) @ replicate 16 0)"

definition sample_encrypt :: "bytes \<Rightarrow> bytes \<Rightarrow> bytes \<Rightarrow> bytes \<Rightarrow> bytes option" where
  "sample_encrypt k n m a = Some (sample_tag k a @ m)"

definition sample_decrypt :: "bytes \<Rightarrow> bytes \<Rightarrow> bytes \<Rightarrow> bytes \<Rightarrow> bytes option" where
  "sample_decrypt k n c a =
     (if 16 \<le> length c \<and> take 16 c = sample_tag k a then Some (drop 16 c) else None)"

text \<open>The random source counts its calls and fills with the count.\<close>

definition sample_fill :: "nat \<Rightarrow> nat \<Rightarrow> bytes option \<times> nat" where
  "sample_fill n r = (Some (replicate n (of_nat r)), Suc r)"

definition sample :: "nat deps" where
  "sample =
     \<lparr>b64_encode = sample_b64_encode, b64_decode = sample_b64_decode,
      json_meta_ser = sample_print enc_meta, json_meta_de = sample_parse dec_meta,
      json_slot_ser = sample_print enc_slot, json_slot_de = sample_parse dec_slot,
      json_pointer_ser = sample_print enc_pointer, json_pointer_de = sample_parse dec_pointer,
      json_container_ser = (\<lambda>w. Some (enc_container w)),
      json_container_de =
        (\<lambda>bs. case dec_container bs of Some (w, []) \<Rightarrow> Some w | _ \<Rightarrow> None),
      argon2_params_new = (\<lambda>m t p n. True),
      argon2id_hash = (\<lambda>m t p n pw salt. Some (take n (pw @ salt @ replicate n 0))),
      hkdf_sha256 = (\<lambda>salt ikm info n. Some (take n (ikm @ replicate n 0))),
      xchacha_key_ok = (\<lambda>k. length k = 32),
      xchacha_encrypt = sample_encrypt, xchacha_decrypt = sample_decrypt,
      rng_try_fill = sample_fill\<rparr>"

lemma sample_b64_inverse [simp]: "sample_b64_decode (sample_b64_encode bs) = Some bs"
proof -
  have "unat b < 256" for b :: u8 using unsigned_less [of b, where 'a = nat] by simp
  then show ?thesis
    by (simp add: sample_b64_decode_def sample_b64_encode_def list_all_iff comp_def)
qed

lemma sample_parse_print:
  "delimited enc dec \<Longrightarrow> sample_print enc x = Some s \<Longrightarrow> sample_parse dec s = Some x"
  using delimitedD [of enc dec x "[]"] by (auto simp: sample_print_def sample_parse_def)

lemma sample_codec_laws: "codec_laws sample"
proof -
  have "of_char CHR ''='' \<notin> set (sample_b64_encode bs)" for bs
    by (auto simp: sample_b64_encode_def)
  moreover have "dec_container (enc_container w) = Some (w, [])" for w
    using delimitedD [OF delimited_container, of w "[]"] by simp
  ultimately show ?thesis
    by (auto simp: codec_laws_def base64_laws_def sample_def
        intro: sample_parse_print [OF delimited_meta] sample_parse_print [OF delimited_slot]
          sample_parse_print [OF delimited_pointer])
qed

lemma sample_crypto_laws: "crypto_laws sample"
  by (auto simp: crypto_laws_def sample_def sample_encrypt_def sample_decrypt_def sample_tag_def)

lemma sample_rng_laws: "rng_laws sample"
  by (auto simp: rng_laws_def sample_def sample_fill_def)

lemma sample_deps_laws: "deps_laws sample"
  by (simp add: deps_laws_def sample_codec_laws sample_crypto_laws sample_rng_laws)

end
