(* ===== verification/Vault.thy ===== *)
theory Vault
  imports Sample_Deps
begin

text \<open>
  \<open>crates/vault-core/src/vault.rs\<close>, the life of a vault: creation, unlocking, password change,
  encryption of the current state for a slot and the verification that precedes a commit. The
  entry operations are in \<open>Vault_Entries\<close>. Every function of the file that takes
  \<open>&mut impl TryCryptoRng\<close> threads the state of the random source.
\<close>

section \<open>State\<close>

definition ID_BYTES :: nat where
  "ID_BYTES = 16"

definition SALT_BYTES :: nat where
  "SALT_BYTES = 16"

definition MIN_MASTER_PASSWORD_CHARS :: nat where
  "MIN_MASTER_PASSWORD_CHARS = 16"

record unlocked_vault =
  uv_container :: vault_container
  uv_dek :: bytes
  uv_persisted_slot :: slot_id

record created_vault =
  cv_metadata :: vault_meta
  cv_initial_slot :: encrypted_slot
  cv_active_slot :: active_slot
  cv_unlocked :: unlocked_vault

definition vault_id_of :: "unlocked_vault \<Rightarrow> vault_id" where
  "vault_id_of v = vc_vault_id (uv_container v)"

definition generation_of :: "unlocked_vault \<Rightarrow> u64" where
  "generation_of v = vc_generation (uv_container v)"

definition persisted_slot_of :: "unlocked_vault \<Rightarrow> slot_id" where
  "persisted_slot_of v = uv_persisted_slot v"

definition entries_of :: "unlocked_vault \<Rightarrow> vault_entry list" where
  "entries_of v = vc_entries (uv_container v)"

section \<open>Serialisation of the container\<close>

definition serialize_container :: "'z codec_lib_scheme \<Rightarrow> vault_container \<Rightarrow> bytes result" where
  "serialize_container L c =
     and_then (ok_or SerializationFailed (container_to_json L c)) (\<lambda>plaintext.
     if length plaintext > MAX_SLOT_JSON_BYTES - 16 then Inl VaultTooLarge else Inr plaintext)"

definition decrypt_container ::
  "'z crypto_lib_scheme \<Rightarrow> bytes \<Rightarrow> encrypted_slot \<Rightarrow> vault_container result" where
  "decrypt_container L dek slot =
     and_then (decrypt_slot_payload L dek slot) (\<lambda>plaintext.
     if length plaintext > MAX_SLOT_JSON_BYTES then Inl VaultTooLarge
     else
       and_then (ok_or (InvalidContainer ''plaintext JSON is invalid'')
                  (container_from_json L plaintext)) (\<lambda>container.
       and_then (container_validate container (es_vault_id slot) (es_generation slot)) (\<lambda>_.
       Inr container)))"

lemma serialize_container_Inr:
  "serialize_container L c = Inr p \<longleftrightarrow>
     container_to_json L c = Some p \<and> length p + 16 \<le> MAX_SLOT_JSON_BYTES"
  by (auto simp: serialize_container_def and_then_Inr MAX_SLOT_JSON_BYTES_def
      DEVICE_STORAGE_LIMIT_BYTES_def not_less split: if_splits)

lemma decrypt_container_Inr:
  "decrypt_container L dek slot = Inr c \<longleftrightarrow>
     (\<exists>p. decrypt_slot_payload L dek slot = Inr p \<and> length p \<le> MAX_SLOT_JSON_BYTES \<and>
        container_from_json L p = Some c) \<and>
     container_ok c \<and> vc_vault_id c = es_vault_id slot \<and> vc_generation c = es_generation slot"
  by (auto simp: decrypt_container_def and_then_Inr container_validate_ok not_less
      split: if_splits)

lemma decrypt_container_wf: "decrypt_container L dek slot = Inr c \<Longrightarrow> wf_container c"
  by (auto simp: decrypt_container_Inr dest: container_from_json_wf)

section \<open>Creation\<close>

definition validate_new_master_password :: "bytes \<Rightarrow> unit result" where
  "validate_new_master_password master_password =
     and_then (ok_or (InvalidMasterPassword ''password must be valid UTF-8'')
                (from_utf8 master_password)) (\<lambda>value.
     if chars_count value < MIN_MASTER_PASSWORD_CHARS
       then Inl (InvalidMasterPassword ''password must contain at least 16 characters'')
     else Inr ())"

definition create_vault ::
  "('r, 'z) deps_scheme \<Rightarrow> bytes \<Rightarrow> kdf_config \<Rightarrow> u64 \<Rightarrow> ('r, vault_error, created_vault) eff" where
  "create_vault L master_password config now =
     bindE (lift (validate_new_master_password master_password)) (\<lambda>_.
     bindE (random_array L ID_BYTES) (\<lambda>id_bytes.
     bindE (random_array L SALT_BYTES) (\<lambda>salt.
     let vault_id = VaultId id_bytes; kdf = kdf_from_config salt config in
     bindE (lift (kdf_validate kdf)) (\<lambda>_.
     bindE (lift (derive_kek L master_password vault_id kdf)) (\<lambda>kek.
     bindE (random_array L KEY_BYTES) (\<lambda>dek.
     bindE (wrap_dek L kek dek vault_id) (\<lambda>wrapped_dek.
     let metadata =
           \<lparr>vm_format = FORMAT, vm_version = FORMAT_VERSION, vm_vault_id = vault_id,
            vm_created_at = now, vm_kdf = kdf, vm_wrapped_dek = wrapped_dek\<rparr>;
         container =
           \<lparr>vc_format = FORMAT, vc_version = FORMAT_VERSION, vc_vault_id = vault_id,
            vc_generation = 0, vc_created_at = now, vc_updated_at = now, vc_entries = []\<rparr>
     in
     bindE (lift (serialize_container L container)) (\<lambda>plaintext.
     bindE (encrypt_slot_payload L dek vault_id A (vc_generation container) plaintext)
       (\<lambda>initial_slot.
     ret \<lparr>cv_metadata = metadata, cv_initial_slot = initial_slot,
          cv_active_slot = \<lparr>as_version = FORMAT_VERSION, as_slot = A, as_generation = 0\<rparr>,
          cv_unlocked = \<lparr>uv_container = container, uv_dek = dek, uv_persisted_slot = A\<rparr>\<rparr>)))))))))"

section \<open>Unlocking and password change\<close>

definition unlock_vault ::
  "'z crypto_lib_scheme \<Rightarrow> bytes \<Rightarrow> vault_meta \<Rightarrow> encrypted_slot \<Rightarrow> unlocked_vault result" where
  "unlock_vault L master_password metadata slot =
     and_then (meta_validate metadata) (\<lambda>_.
     and_then (slot_validate slot (vm_vault_id metadata)) (\<lambda>_.
     and_then (derive_kek L master_password (vm_vault_id metadata) (vm_kdf metadata)) (\<lambda>kek.
     and_then (unwrap_dek L kek (vm_wrapped_dek metadata) (vm_vault_id metadata)) (\<lambda>dek.
     and_then (decrypt_container L dek slot) (\<lambda>container.
     if vc_created_at container \<noteq> vm_created_at metadata
       then Inl (InvalidMetadata ''createdAt does not match encrypted vault'')
     else Inr \<lparr>uv_container = container, uv_dek = dek, uv_persisted_slot = es_slot slot\<rparr>)))))"

definition rewrap_vault_key ::
  "('r, 'z) deps_scheme \<Rightarrow> bytes \<Rightarrow> bytes \<Rightarrow> vault_meta \<Rightarrow> unlocked_vault \<Rightarrow> kdf_config
     \<Rightarrow> ('r, vault_error, vault_meta) eff" where
  "rewrap_vault_key L current_master_password new_master_password metadata vault config =
     bindE (lift (meta_validate metadata)) (\<lambda>_.
     if vm_vault_id metadata \<noteq> vc_vault_id (uv_container vault)
        \<or> vm_created_at metadata \<noteq> vc_created_at (uv_container vault)
       then lift (Inl (InvalidMetadata ''metadata does not match the unlocked vault''))
     else
     bindE (lift (derive_kek L current_master_password (vm_vault_id metadata) (vm_kdf metadata)))
       (\<lambda>current_kek.
     bindE (lift (unwrap_dek L current_kek (vm_wrapped_dek metadata) (vm_vault_id metadata)))
       (\<lambda>verified_dek.
     if verified_dek \<noteq> uv_dek vault then lift (Inl WrongPasswordOrCorruptedVault)
     else
     bindE (lift (validate_new_master_password new_master_password)) (\<lambda>_.
     bindE (random_array L SALT_BYTES) (\<lambda>salt.
     let kdf = kdf_from_config salt config in
     bindE (lift (kdf_validate kdf)) (\<lambda>_.
     bindE (lift (derive_kek L new_master_password (vm_vault_id metadata) kdf)) (\<lambda>new_kek.
     bindE (wrap_dek L new_kek (uv_dek vault) (vm_vault_id metadata)) (\<lambda>wrapped_dek.
     ret \<lparr>vm_format = vm_format metadata, vm_version = vm_version metadata,
          vm_vault_id = vm_vault_id metadata, vm_created_at = vm_created_at metadata,
          vm_kdf = kdf, vm_wrapped_dek = wrapped_dek\<rparr>))))))))"

section \<open>Encryption for a slot and commit\<close>

definition encrypt_for_slot_at_generation ::
  "('r, 'z) deps_scheme \<Rightarrow> unlocked_vault \<Rightarrow> slot_id \<Rightarrow> u64
     \<Rightarrow> ('r, vault_error, encrypted_slot) eff" where
  "encrypt_for_slot_at_generation L v slot generation =
     (let candidate = (uv_container v)\<lparr>vc_generation := generation\<rparr> in
      bindE (lift (serialize_container L candidate)) (\<lambda>plaintext.
      encrypt_slot_payload L (uv_dek v) (vc_vault_id candidate) slot generation plaintext))"

definition encrypt_for_slot ::
  "('r, 'z) deps_scheme \<Rightarrow> unlocked_vault \<Rightarrow> slot_id \<Rightarrow> ('r, vault_error, encrypted_slot) eff" where
  "encrypt_for_slot L v slot =
     bindE (lift (ok_or GenerationOverflow (checked_add (vc_generation (uv_container v)) 1)))
       (\<lambda>generation. encrypt_for_slot_at_generation L v slot generation)"

definition decrypt_candidate ::
  "'z crypto_lib_scheme \<Rightarrow> unlocked_vault \<Rightarrow> encrypted_slot \<Rightarrow> vault_container result" where
  "decrypt_candidate L v slot =
     and_then (slot_validate slot (vc_vault_id (uv_container v))) (\<lambda>_.
     decrypt_container L (uv_dek v) slot)"

definition verify_next_slot ::
  "'z crypto_lib_scheme \<Rightarrow> unlocked_vault \<Rightarrow> encrypted_slot \<Rightarrow> unit result" where
  "verify_next_slot L v slot =
     and_then (ok_or GenerationOverflow (checked_add (vc_generation (uv_container v)) 1))
       (\<lambda>expected_generation.
     if es_slot slot \<noteq> slot_other (uv_persisted_slot v) \<or> es_generation slot \<noteq> expected_generation
       then Inl SlotVerificationFailed
     else
       and_then (decrypt_candidate L v slot) (\<lambda>verified.
       if verified \<noteq> (uv_container v)\<lparr>vc_generation := expected_generation\<rparr>
         then Inl SlotVerificationFailed
       else Inr ()))"

definition commit_verified_slot ::
  "'z crypto_lib_scheme \<Rightarrow> unlocked_vault \<Rightarrow> encrypted_slot \<Rightarrow> unit result \<times> unlocked_vault" where
  "commit_verified_slot L v slot =
     (case verify_next_slot L v slot of
        Inl e \<Rightarrow> (Inl e, v)
      | Inr _ \<Rightarrow>
          (Inr (), v\<lparr>uv_container := (uv_container v)\<lparr>vc_generation := es_generation slot\<rparr>,
                     uv_persisted_slot := es_slot slot\<rparr>))"

section \<open>Well-formed sessions\<close>

definition wf_vault :: "unlocked_vault \<Rightarrow> bool" where
  "wf_vault v \<longleftrightarrow>
     container_ok (uv_container v) \<and> wf_container (uv_container v) \<and> length (uv_dek v) = KEY_BYTES"

section \<open>Encrypting and reading back\<close>

lemma container_payload_roundtrip:
  assumes L: "deps_laws L" and c: "container_ok c" "wf_container c"
    and ser: "serialize_container L c = Inr p"
    and enc: "encrypt_slot_payload L dek (vc_vault_id c) s (vc_generation c) p r = (Inr slot, r')"
  shows "decrypt_container L dek slot = Inr c"
    and "slot_validate slot (vc_vault_id c) = Inr ()"
proof -
  have p: "container_to_json L c = Some p" "length p + 16 \<le> MAX_SLOT_JSON_BYTES"
    using ser by (auto simp: serialize_container_Inr)
  then have "container_from_json L p = Some c"
    using L c by (auto intro: container_json_roundtrip)
  moreover have "decrypt_slot_payload L dek slot = Inr p"
    using L enc by (auto intro: decrypt_encrypt_slot_payload)
  ultimately show "decrypt_container L dek slot = Inr c"
    using c p encrypt_slot_payload_fields [OF enc] by (simp add: decrypt_container_Inr)
  show "slot_validate slot (vc_vault_id c) = Inr ()"
    using L enc p by (auto intro: encrypt_slot_payload_valid simp: MAX_SLOT_JSON_BYTES_def)
qed

lemma encrypt_for_slot_at_generation_Inr:
  assumes "encrypt_for_slot_at_generation L v s g r = (Inr slot, r')"
  obtains p where "serialize_container L ((uv_container v)\<lparr>vc_generation := g\<rparr>) = Inr p"
    and "encrypt_slot_payload L (uv_dek v) (vc_vault_id (uv_container v)) s g p r = (Inr slot, r')"
  using assms by (auto simp: encrypt_for_slot_at_generation_def bindE_Inr)

lemma encrypt_for_slot_at_generation_fields:
  assumes "encrypt_for_slot_at_generation L v s g r = (Inr slot, r')"
  shows "es_slot slot = s" and "es_generation slot = g"
    and "es_vault_id slot = vc_vault_id (uv_container v)"
  using assms by (auto elim!: encrypt_for_slot_at_generation_Inr dest: encrypt_slot_payload_fields)

lemma encrypt_for_slot_at_generation_roundtrip:
  assumes L: "deps_laws L" and v: "wf_vault v"
    and enc: "encrypt_for_slot_at_generation L v s g r = (Inr slot, r')"
  shows "decrypt_container L (uv_dek v) slot = Inr ((uv_container v)\<lparr>vc_generation := g\<rparr>)"
    and "slot_validate slot (vc_vault_id (uv_container v)) = Inr ()"
proof -
  obtain p where 1: "serialize_container L ((uv_container v)\<lparr>vc_generation := g\<rparr>) = Inr p"
    "encrypt_slot_payload L (uv_dek v) (vc_vault_id (uv_container v)) s g p r = (Inr slot, r')"
    using enc by (rule encrypt_for_slot_at_generation_Inr)
  let ?c = "(uv_container v)\<lparr>vc_generation := g\<rparr>"
  have c: "container_ok ?c" "wf_container ?c" using v by (simp_all add: wf_vault_def)
  have e: "encrypt_slot_payload L (uv_dek v) (vc_vault_id ?c) s (vc_generation ?c) p r
      = (Inr slot, r')" using 1(2) by simp
  show "decrypt_container L (uv_dek v) slot = Inr ?c"
    by (rule container_payload_roundtrip(1) [OF L c 1(1) e])
  show "slot_validate slot (vc_vault_id (uv_container v)) = Inr ()"
    using container_payload_roundtrip(2) [OF L c 1(1) e] by simp
qed

lemma encrypt_for_slot_Inr:
  "encrypt_for_slot L v s r = (Inr slot, r') \<longleftrightarrow>
     (\<exists>g. checked_add (vc_generation (uv_container v)) 1 = Some g \<and>
        encrypt_for_slot_at_generation L v s g r = (Inr slot, r'))"
  by (auto simp: encrypt_for_slot_def bindE_Inr)

section \<open>Verification and commit\<close>

lemma verify_next_slot_Inr:
  "verify_next_slot L v slot = Inr () \<longleftrightarrow>
     (\<exists>g. checked_add (vc_generation (uv_container v)) 1 = Some g \<and>
        es_slot slot = slot_other (uv_persisted_slot v) \<and> es_generation slot = g \<and>
        slot_validate slot (vc_vault_id (uv_container v)) = Inr () \<and>
        decrypt_container L (uv_dek v) slot = Inr ((uv_container v)\<lparr>vc_generation := g\<rparr>))"
  by (auto simp: verify_next_slot_def decrypt_candidate_def and_then_Inr split: if_splits)

lemma commit_verified_slot_Inr:
  "commit_verified_slot L v slot = (Inr (), v') \<longleftrightarrow>
     verify_next_slot L v slot = Inr () \<and>
     v' = v\<lparr>uv_container := (uv_container v)\<lparr>vc_generation := es_generation slot\<rparr>,
            uv_persisted_slot := es_slot slot\<rparr>"
  by (auto simp: commit_verified_slot_def split: sum.splits)

lemma commit_verified_slot_Inl:
  "commit_verified_slot L v slot = (Inl e, v') \<longleftrightarrow> verify_next_slot L v slot = Inl e \<and> v' = v"
  by (auto simp: commit_verified_slot_def split: sum.splits)

text \<open>A slot that was just encrypted for the inactive side at the next generation verifies.\<close>

lemma verify_own_slot:
  assumes L: "deps_laws L" and v: "wf_vault v"
    and g: "checked_add (vc_generation (uv_container v)) 1 = Some g"
    and enc: "encrypt_for_slot_at_generation L v (slot_other (uv_persisted_slot v)) g r
      = (Inr slot, r')"
  shows "verify_next_slot L v slot = Inr ()"
  using encrypt_for_slot_at_generation_roundtrip [OF L v enc]
    encrypt_for_slot_at_generation_fields [OF enc] g
  by (simp add: verify_next_slot_Inr)

section \<open>Creation and unlocking\<close>

lemma validate_new_master_password_ok:
  "validate_new_master_password pw = Inr () \<longleftrightarrow>
     (\<exists>s. wf_str s \<and> as_bytes s = pw \<and> MIN_MASTER_PASSWORD_CHARS \<le> chars_count s)"
  by (auto simp: validate_new_master_password_def and_then_Inr from_utf8_iff not_less
      split: if_splits)

lemma create_vault_Inr:
  assumes "create_vault L pw config now r = (Inr cv, r')"
  obtains i salt kek dek w p slot r1 r2 r3 r4
  where "validate_new_master_password pw = Inr ()"
    and "random_array L ID_BYTES r = (Inr i, r1)"
    and "random_array L SALT_BYTES r1 = (Inr salt, r2)"
    and "kdf_in_bounds (kdf_from_config salt config)"
    and "derive_kek L pw (VaultId i) (kdf_from_config salt config) = Inr kek"
    and "random_array L KEY_BYTES r2 = (Inr dek, r3)"
    and "wrap_dek L kek dek (VaultId i) r3 = (Inr w, r4)"
    and "serialize_container L (uv_container (cv_unlocked cv)) = Inr p"
    and "encrypt_slot_payload L dek (VaultId i) A 0 p r4 = (Inr slot, r')"
    and "cv = \<lparr>cv_metadata = \<lparr>vm_format = FORMAT, vm_version = FORMAT_VERSION,
                 vm_vault_id = VaultId i, vm_created_at = now,
                 vm_kdf = kdf_from_config salt config, vm_wrapped_dek = w\<rparr>,
               cv_initial_slot = slot,
               cv_active_slot = \<lparr>as_version = FORMAT_VERSION, as_slot = A, as_generation = 0\<rparr>,
               cv_unlocked = \<lparr>uv_container = \<lparr>vc_format = FORMAT, vc_version = FORMAT_VERSION,
                   vc_vault_id = VaultId i, vc_generation = 0, vc_created_at = now,
                   vc_updated_at = now, vc_entries = []\<rparr>,
                 uv_dek = dek, uv_persisted_slot = A\<rparr>\<rparr>"
  using assms by (auto simp: create_vault_def Let_def bindE_Inr kdf_validate_ok)

lemma unlock_vault_Inr:
  "unlock_vault L pw m slot = Inr v \<longleftrightarrow>
     meta_validate m = Inr () \<and> slot_validate slot (vm_vault_id m) = Inr () \<and>
     (\<exists>kek. derive_kek L pw (vm_vault_id m) (vm_kdf m) = Inr kek \<and>
        unwrap_dek L kek (vm_wrapped_dek m) (vm_vault_id m) = Inr (uv_dek v)) \<and>
     decrypt_container L (uv_dek v) slot = Inr (uv_container v) \<and>
     vc_created_at (uv_container v) = vm_created_at m \<and> uv_persisted_slot v = es_slot slot"
  by (cases v) (auto simp: unlock_vault_def and_then_Inr split: if_splits)

lemma unwrap_dek_length: "unwrap_dek L kek w i = Inr dek \<Longrightarrow> length dek = KEY_BYTES"
  by (auto simp: unwrap_dek_def copy_from_slice_def and_then_Inr split: if_splits)

lemma unlock_vault_wf: "unlock_vault L pw m slot = Inr v \<Longrightarrow> wf_vault v"
  by (auto simp: unlock_vault_Inr wf_vault_def decrypt_container_Inr
      dest: unwrap_dek_length container_from_json_wf)

lemma create_vault_wf:
  assumes L: "deps_laws L" and c: "create_vault L pw config now r = (Inr cv, r')"
  shows "wf_vault (cv_unlocked cv)" and "wf_meta (cv_metadata cv)"
    and "meta_validate (cv_metadata cv) = Inr ()"
proof -
  from c obtain i salt kek dek w p slot r1 r2 r3 r4 where
    i: "random_array L ID_BYTES r = (Inr i, r1)" and
    salt: "random_array L SALT_BYTES r1 = (Inr salt, r2)" and
    kdf: "kdf_in_bounds (kdf_from_config salt config)" and
    dek: "random_array L KEY_BYTES r2 = (Inr dek, r3)" and
    w: "wrap_dek L kek dek (VaultId i) r3 = (Inr w, r4)" and
    cv: "cv = \<lparr>cv_metadata = \<lparr>vm_format = FORMAT, vm_version = FORMAT_VERSION,
                 vm_vault_id = VaultId i, vm_created_at = now,
                 vm_kdf = kdf_from_config salt config, vm_wrapped_dek = w\<rparr>,
               cv_initial_slot = slot,
               cv_active_slot = \<lparr>as_version = FORMAT_VERSION, as_slot = A, as_generation = 0\<rparr>,
               cv_unlocked = \<lparr>uv_container = \<lparr>vc_format = FORMAT, vc_version = FORMAT_VERSION,
                   vc_vault_id = VaultId i, vc_generation = 0, vc_created_at = now,
                   vc_updated_at = now, vc_entries = []\<rparr>,
                 uv_dek = dek, uv_persisted_slot = A\<rparr>\<rparr>"
    by (rule create_vault_Inr)
  have "length i = 16" "length dek = KEY_BYTES"
    using L i dek by (auto dest!: random_array_length simp: ID_BYTES_def)
  then show "wf_vault (cv_unlocked cv)" "wf_meta (cv_metadata cv)"
    by (simp_all add: cv wf_vault_def wf_meta_def container_ok_def wf_container_def wf_vault_id_def)
  show "meta_validate (cv_metadata cv) = Inr ()"
    using L kdf wrap_dek_shape [OF _ _ \<open>length dek = KEY_BYTES\<close> w]
    by (auto simp: cv meta_validate_ok)
qed

lemma create_vault_slot:
  assumes L: "deps_laws L" and c: "create_vault L pw config now r = (Inr cv, r')"
  shows "decrypt_container L (uv_dek (cv_unlocked cv)) (cv_initial_slot cv)
      = Inr (uv_container (cv_unlocked cv))"
    and "slot_validate (cv_initial_slot cv) (vm_vault_id (cv_metadata cv)) = Inr ()"
    and "es_slot (cv_initial_slot cv) = A" and "es_generation (cv_initial_slot cv) = 0"
proof -
  let ?c = "uv_container (cv_unlocked cv)"
  have wf: "container_ok ?c" "wf_container ?c"
    using create_vault_wf(1) [OF L c] by (simp_all add: wf_vault_def)
  obtain p r4 where p: "serialize_container L ?c = Inr p"
    and e: "encrypt_slot_payload L (uv_dek (cv_unlocked cv)) (vc_vault_id ?c) A
        (vc_generation ?c) p r4 = (Inr (cv_initial_slot cv), r')"
    and eq: "vc_vault_id ?c = vm_vault_id (cv_metadata cv)" "vc_generation ?c = 0"
    using c by (auto elim!: create_vault_Inr)
  show "decrypt_container L (uv_dek (cv_unlocked cv)) (cv_initial_slot cv) = Inr ?c"
    by (rule container_payload_roundtrip(1) [OF L wf p e])
  show "slot_validate (cv_initial_slot cv) (vm_vault_id (cv_metadata cv)) = Inr ()"
    using container_payload_roundtrip(2) [OF L wf p e] by (simp add: eq)
  show "es_slot (cv_initial_slot cv) = A" "es_generation (cv_initial_slot cv) = 0"
    using encrypt_slot_payload_fields [OF e] by (simp_all add: eq)
qed

lemma create_vault_match:
  assumes "create_vault L pw config now r = (Inr cv, r')"
  shows "vm_vault_id (cv_metadata cv) = vc_vault_id (uv_container (cv_unlocked cv))"
    and "vm_created_at (cv_metadata cv) = vc_created_at (uv_container (cv_unlocked cv))"
    and "vm_created_at (cv_metadata cv) = now"
    and "uv_persisted_slot (cv_unlocked cv) = A"
    and "vc_generation (uv_container (cv_unlocked cv)) = 0"
    and "vc_entries (uv_container (cv_unlocked cv)) = []"
    and "cv_active_slot cv = \<lparr>as_version = FORMAT_VERSION, as_slot = A, as_generation = 0\<rparr>"
  using assms by (auto elim!: create_vault_Inr)

lemma create_vault_keys:
  assumes L: "deps_laws L" and c: "create_vault L pw config now r = (Inr cv, r')"
  obtains kek where "derive_kek L pw (vm_vault_id (cv_metadata cv)) (vm_kdf (cv_metadata cv)) = Inr kek"
    and "unwrap_dek L kek (vm_wrapped_dek (cv_metadata cv)) (vm_vault_id (cv_metadata cv))
      = Inr (uv_dek (cv_unlocked cv))"
  using c
proof (cases rule: create_vault_Inr)
  case (1 i salt kek dek w p slot r1 r2 r3 r4)
  have "length dek = KEY_BYTES" using L 1(6) by (auto dest: random_array_length)
  then have "unwrap_dek L kek w (VaultId i) = Inr dek"
    using L 1(7) by (auto intro: unwrap_wrap_dek)
  with 1 show ?thesis by (intro that) simp_all
qed

lemma rewrap_vault_key_Inr:
  assumes "rewrap_vault_key L cur new m v config r = (Inr m', r')"
  obtains kek salt new_kek w r1
  where "meta_validate m = Inr ()" and "vm_vault_id m = vc_vault_id (uv_container v)"
    and "vm_created_at m = vc_created_at (uv_container v)"
    and "derive_kek L cur (vm_vault_id m) (vm_kdf m) = Inr kek"
    and "unwrap_dek L kek (vm_wrapped_dek m) (vm_vault_id m) = Inr (uv_dek v)"
    and "validate_new_master_password new = Inr ()"
    and "random_array L SALT_BYTES r = (Inr salt, r1)"
    and "kdf_in_bounds (kdf_from_config salt config)"
    and "derive_kek L new (vm_vault_id m) (kdf_from_config salt config) = Inr new_kek"
    and "wrap_dek L new_kek (uv_dek v) (vm_vault_id m) r1 = (Inr w, r')"
    and "m' = m\<lparr>vm_kdf := kdf_from_config salt config, vm_wrapped_dek := w\<rparr>"
  using assms
  by (auto simp: rewrap_vault_key_def bindE_Inr kdf_validate_ok Let_def split: if_splits)

section \<open>Panic freedom\<close>

lemma serialize_container_no_panic [simp]: "no_panic (serialize_container L c)"
  by (auto simp: serialize_container_def intro!: no_panic_and_then)

lemma decrypt_container_no_panic: "wf_slot s \<Longrightarrow> no_panic (decrypt_container L dek s)"
  by (auto simp: decrypt_container_def decrypt_slot_payload_no_panic intro!: no_panic_and_then)

lemma validate_new_master_password_no_panic [simp]:
  "no_panic (validate_new_master_password pw)"
  by (auto simp: validate_new_master_password_def intro!: no_panic_and_then)

lemma create_vault_no_panic: "rng_laws L \<Longrightarrow> no_panic (fst (create_vault L pw config now r))"
  by (auto simp: create_vault_def Let_def wf_vault_id_def ID_BYTES_def
      wrap_dek_no_panic encrypt_slot_payload_no_panic dest!: random_array_length
      intro!: no_panic_bindE)

lemma unlock_vault_no_panic:
  "wf_meta m \<Longrightarrow> wf_slot s \<Longrightarrow> no_panic (unlock_vault L pw m s)"
  by (auto simp: unlock_vault_def wf_meta_def unwrap_dek_no_panic decrypt_container_no_panic
      intro!: no_panic_and_then)

lemma rewrap_vault_key_no_panic:
  "wf_meta m \<Longrightarrow> no_panic (fst (rewrap_vault_key L cur new m v config r))"
  by (auto simp: rewrap_vault_key_def Let_def wf_meta_def unwrap_dek_no_panic wrap_dek_no_panic
      intro!: no_panic_bindE)

lemma encrypt_for_slot_no_panic:
  "wf_vault v \<Longrightarrow> no_panic (fst (encrypt_for_slot_at_generation L v s g r))"
  "wf_vault v \<Longrightarrow> no_panic (fst (encrypt_for_slot L v s r))"
  by (auto simp: encrypt_for_slot_def encrypt_for_slot_at_generation_def Let_def wf_vault_def
      wf_container_def encrypt_slot_payload_no_panic intro!: no_panic_bindE)

lemma verify_next_slot_no_panic: "wf_slot s \<Longrightarrow> no_panic (verify_next_slot L v s)"
  by (auto simp: verify_next_slot_def decrypt_candidate_def decrypt_container_no_panic
      intro!: no_panic_and_then)

section \<open>Which errors the steps of creation report\<close>

lemma create_errors:
  "random_array L n r = (Inl e, r') \<Longrightarrow> e = RandomGenerationFailed"
  "kdf_validate k = Inl e \<Longrightarrow> \<exists>m. e = InvalidKdfParameters m"
  "derive_kek L' pw i k = Inl e \<Longrightarrow> (\<exists>m. e = InvalidKdfParameters m) \<or> e = KeyDerivationFailed"
  "wrap_dek L kek dek i r = (Inl e, r')
     \<Longrightarrow> e = RandomGenerationFailed \<or> e = EncryptionFailed \<or> (\<exists>m. e = Panic m)"
  "serialize_container L'' c = Inl e \<Longrightarrow> e = SerializationFailed \<or> e = VaultTooLarge"
  "encrypt_slot_payload L dek i s g p r = (Inl e, r')
     \<Longrightarrow> e = RandomGenerationFailed \<or> e = EncryptionFailed \<or> (\<exists>m. e = Panic m)"
  by (auto simp: derive_kek_def wrap_dek_def encrypt_slot_payload_def serialize_container_def
      aad_or_panic_def encrypt_def and_then_Inl bindE_Inl split: if_splits
      dest: random_array_err kdf_validate_err)

section \<open>A sample vault for the witnesses\<close>

definition sample_password :: bytes where
  "sample_password = as_bytes (str ''correct horse battery staple'')"

definition sample_created :: created_vault where
  "sample_created = projr (fst (create_vault sample sample_password kdf_config_default 100 0))"

lemma sample_created:
  "create_vault sample sample_password kdf_config_default 100 0 = (Inr sample_created, 5)"
proof -
  have "is_ok (fst (create_vault sample sample_password kdf_config_default 100 0))"
    and "snd (create_vault sample sample_password kdf_config_default 100 0) = 5"
    by code_simp+
  then show ?thesis by (auto simp: is_ok_fst sample_created_def)
qed

lemmas sample_created_facts =
  create_vault_wf [OF sample_deps_laws sample_created]
  create_vault_slot [OF sample_deps_laws sample_created]
  create_vault_match [OF sample_created]

section \<open>Properties\<close>

text \<open>C11: A vault that \<open>create_vault\<close> has just built opens again with the same password: its
  metadata and first slot unlock to exactly the session that creation returned.\<close>

theorem create_then_unlock:
  assumes L: "deps_laws L" and c: "create_vault L pw config now r = (Inr cv, r')"
  shows "unlock_vault L pw (cv_metadata cv) (cv_initial_slot cv) = Inr (cv_unlocked cv)"
proof -
  obtain kek where "derive_kek L pw (vm_vault_id (cv_metadata cv)) (vm_kdf (cv_metadata cv)) = Inr kek"
    and "unwrap_dek L kek (vm_wrapped_dek (cv_metadata cv)) (vm_vault_id (cv_metadata cv))
      = Inr (uv_dek (cv_unlocked cv))"
    by (rule create_vault_keys [OF L c])
  moreover have "vc_created_at (uv_container (cv_unlocked cv)) = vm_created_at (cv_metadata cv)"
    and "uv_persisted_slot (cv_unlocked cv) = A"
    using c by (auto elim!: create_vault_Inr)
  ultimately show ?thesis
    using create_vault_wf(3) [OF L c] create_vault_slot [OF L c] by (simp add: unlock_vault_Inr)
qed

lemma create_then_unlock_witness:
  "unlock_vault sample sample_password (cv_metadata sample_created) (cv_initial_slot sample_created)
     = Inr (cv_unlocked sample_created)"
  by (rule create_then_unlock [OF sample_deps_laws sample_created])

text \<open>Everything \<open>create_vault\<close> hands to the persistence layer is accepted by the format's own
  checks, the pointer names the initial slot, and the session is an empty well-formed vault at
  generation 0 in slot A.\<close>

theorem create_vault_output_valid:
  assumes L: "deps_laws L" and c: "create_vault L pw config now r = (Inr cv, r')"
  shows "meta_validate (cv_metadata cv) = Inr () \<and>
    slot_validate (cv_initial_slot cv) (vm_vault_id (cv_metadata cv)) = Inr () \<and>
    pointer_validate (cv_active_slot cv) = Inr () \<and>
    as_slot (cv_active_slot cv) = es_slot (cv_initial_slot cv) \<and>
    as_generation (cv_active_slot cv) = es_generation (cv_initial_slot cv) \<and>
    wf_vault (cv_unlocked cv) \<and> generation_of (cv_unlocked cv) = 0 \<and>
    entries_of (cv_unlocked cv) = [] \<and> uv_persisted_slot (cv_unlocked cv) = A"
  using create_vault_wf [OF L c] create_vault_slot [OF L c] c
  by (auto elim!: create_vault_Inr
      simp: pointer_validate_ok generation_of_def entries_of_def)

lemma create_vault_output_valid_witness:
  "slot_validate (cv_initial_slot sample_created) (vm_vault_id (cv_metadata sample_created)) = Inr ()
   \<and> wf_vault (cv_unlocked sample_created)"
  using create_vault_output_valid [OF sample_deps_laws sample_created] by simp

text \<open>C34: The master-password policy. Creation is refused with \<open>InvalidMasterPassword\<close>, before any
  randomness is drawn, exactly when the password is not the UTF-8 form of a string of at least
  16 characters.\<close>

theorem master_password_policy:
  "if \<exists>s. wf_str s \<and> as_bytes s = pw \<and> 16 \<le> chars_count s
   then \<forall>m r'. create_vault L pw config now r \<noteq> (Inl (InvalidMasterPassword m), r')
   else \<exists>m. create_vault L pw config now r = (Inl (InvalidMasterPassword m), r)"
proof -
  have good: "(\<exists>s. wf_str s \<and> as_bytes s = pw \<and> 16 \<le> chars_count s)
      \<longleftrightarrow> validate_new_master_password pw = Inr ()"
    by (simp add: validate_new_master_password_ok MIN_MASTER_PASSWORD_CHARS_def)
  show ?thesis
  proof (cases "validate_new_master_password pw")
    case (Inl e)
    then have "\<exists>m. e = InvalidMasterPassword m"
      by (auto simp: validate_new_master_password_def and_then_Inl split: if_splits)
    with Inl show ?thesis unfolding good by (auto simp: create_vault_def bindE_lift)
  next
    case (Inr u)
    then show ?thesis unfolding good
      by (auto simp: create_vault_def Let_def bindE_Inl dest: create_errors)
  qed
qed

text \<open>C15: Changing the master password keeps the vault. After a successful \<open>rewrap_vault_key\<close> the new
  password with the new metadata unlocks every encrypted slot with the same result as the old
  password with the old metadata, and only \<open>kdf\<close> and \<open>wrappedDek\<close> of the metadata change.\<close>

theorem password_change_keeps_vault:
  assumes L: "deps_laws L" and rw: "rewrap_vault_key L cur new m v config r = (Inr m', r')"
  shows "(\<forall>slot. unlock_vault L new m' slot = unlock_vault L cur m slot) \<and>
    (\<exists>kdf w. m' = m\<lparr>vm_kdf := kdf, vm_wrapped_dek := w\<rparr>)"
proof -
  obtain kek salt new_kek w r1 where
    m: "meta_validate m = Inr ()" and
    kek: "derive_kek L cur (vm_vault_id m) (vm_kdf m) = Inr kek" and
    dek: "unwrap_dek L kek (vm_wrapped_dek m) (vm_vault_id m) = Inr (uv_dek v)" and
    kdf: "kdf_in_bounds (kdf_from_config salt config)" and
    new_kek: "derive_kek L new (vm_vault_id m) (kdf_from_config salt config) = Inr new_kek" and
    w: "wrap_dek L new_kek (uv_dek v) (vm_vault_id m) r1 = (Inr w, r')" and
    m': "m' = m\<lparr>vm_kdf := kdf_from_config salt config, vm_wrapped_dek := w\<rparr>"
    using rw by (rule rewrap_vault_key_Inr)
  have "unwrap_dek L new_kek w (vm_vault_id m) = Inr (uv_dek v)"
    and "meta_validate m' = Inr ()"
    using L m kdf unwrap_wrap_dek [OF _ _ unwrap_dek_length [OF dek] w]
      wrap_dek_shape [OF _ _ unwrap_dek_length [OF dek] w]
    by (auto simp: m' meta_validate_ok)
  then have "unlock_vault L new m' slot = unlock_vault L cur m slot" for slot
    using m kek dek new_kek by (simp add: unlock_vault_def m')
  then show ?thesis using m' by blast
qed

definition sample_new_password :: bytes where
  "sample_new_password = as_bytes (str ''a new phrase beyond the looking glass'')"

lemma sample_rewrap:
  "\<exists>m' r'. rewrap_vault_key sample sample_password sample_new_password
     (cv_metadata sample_created) (cv_unlocked sample_created) kdf_config_default 5 = (Inr m', r')"
proof -
  have "is_ok (fst (rewrap_vault_key sample sample_password sample_new_password
        (cv_metadata sample_created) (cv_unlocked sample_created) kdf_config_default 5))"
    by code_simp
  then show ?thesis by (auto simp: is_ok_fst)
qed

lemma password_change_keeps_vault_witness:
  "\<exists>m' r'. rewrap_vault_key sample sample_password sample_new_password
        (cv_metadata sample_created) (cv_unlocked sample_created) kdf_config_default 5 = (Inr m', r')
     \<and> unlock_vault sample sample_new_password m' (cv_initial_slot sample_created)
       = unlock_vault sample sample_password (cv_metadata sample_created)
           (cv_initial_slot sample_created)"
  using sample_rewrap password_change_keeps_vault [OF sample_deps_laws] by blast

text \<open>A password change needs the current password. If the key derived from the given current
  password does not unwrap the session's own data key, the change is refused with
  \<open>WrongPasswordOrCorruptedVault\<close> and no randomness is drawn.\<close>

theorem password_change_needs_current_password:
  assumes "meta_validate m = Inr ()" and "wf_meta m"
    and "vm_vault_id m = vc_vault_id (uv_container v)"
    and "vm_created_at m = vc_created_at (uv_container v)"
    and "derive_kek L cur (vm_vault_id m) (vm_kdf m) = Inr kek"
    and "unwrap_dek L kek (vm_wrapped_dek m) (vm_vault_id m) \<noteq> Inr (uv_dek v)"
  shows "rewrap_vault_key L cur new m v config r = (Inl WrongPasswordOrCorruptedVault, r)"
proof -
  have "e = WrongPasswordOrCorruptedVault"
    if e: "unwrap_dek L kek (vm_wrapped_dek m) (vm_vault_id m) = Inl e" for e
  proof -
    have "no_panic (unwrap_dek L kek (vm_wrapped_dek m) (vm_vault_id m))"
      using assms(2) by (simp add: unwrap_dek_no_panic wf_meta_def)
    with e assms(1) show ?thesis
      by (auto simp: unwrap_dek_def meta_validate_ok NONCE_BYTES_def aad_or_panic_def
          and_then_Inl decrypt_def copy_from_slice_def split: if_splits)
  qed
  then show ?thesis using assms
    by (cases "unwrap_dek L kek (vm_wrapped_dek m) (vm_vault_id m)")
      (simp_all add: rewrap_vault_key_def bindE_lift)
qed

definition sample_wrong_kek :: bytes where
  "sample_wrong_kek =
     projr (derive_kek sample sample_new_password (vm_vault_id (cv_metadata sample_created))
       (vm_kdf (cv_metadata sample_created)))"

lemma password_change_needs_current_password_witness:
  "rewrap_vault_key sample sample_new_password sample_password
     (cv_metadata sample_created) (cv_unlocked sample_created) kdf_config_default 5
   = (Inl WrongPasswordOrCorruptedVault, 5)"
proof -
  let ?m = "cv_metadata sample_created" and ?v = "cv_unlocked sample_created"
  have "is_ok (derive_kek sample sample_new_password (vm_vault_id ?m) (vm_kdf ?m))"
    by code_simp
  then have k: "derive_kek sample sample_new_password (vm_vault_id ?m) (vm_kdf ?m)
      = Inr sample_wrong_kek"
    by (auto simp: is_ok_iff sample_wrong_kek_def)
  have "\<not> is_ok (unwrap_dek sample sample_wrong_kek (vm_wrapped_dek ?m) (vm_vault_id ?m))"
    by code_simp
  then have "unwrap_dek sample sample_wrong_kek (vm_wrapped_dek ?m) (vm_vault_id ?m)
      \<noteq> Inr (uv_dek ?v)"
    by auto
  then show ?thesis
    by (intro password_change_needs_current_password [OF _ _ _ _ k] sample_created_facts)
qed

text \<open>A commit advances the session by exactly one generation or not at all. It succeeds only
  for an authenticated slot of the inactive side at the next generation that decrypts to the
  session's current contents; then the session moves to that slot and generation with its
  entries and key unchanged, and otherwise the session stays as it was.\<close>

theorem commit_advances_one_generation:
  assumes "commit_verified_slot L v slot = (res, v')"
  shows "case res of
      Inl e \<Rightarrow> v' = v
    | Inr _ \<Rightarrow> unat (generation_of v') = unat (generation_of v) + 1 \<and>
        uv_persisted_slot v' = slot_other (uv_persisted_slot v) \<and>
        es_slot slot = uv_persisted_slot v' \<and> es_generation slot = generation_of v' \<and>
        entries_of v' = entries_of v \<and> uv_dek v' = uv_dek v \<and>
        slot_validate slot (vault_id_of v) = Inr () \<and>
        decrypt_container L (uv_dek v) slot = Inr (uv_container v')"
  using assms
  by (cases res) (auto simp: commit_verified_slot_Inr commit_verified_slot_Inl verify_next_slot_Inr
      generation_of_def entries_of_def vault_id_of_def dest: checked_add_unat)

definition sample_next_slot :: encrypted_slot where
  "sample_next_slot = projr (fst (encrypt_for_slot sample (cv_unlocked sample_created) B 5))"

lemma sample_next_slot:
  "encrypt_for_slot sample (cv_unlocked sample_created) B 5 = (Inr sample_next_slot, 6)"
proof -
  have "is_ok (fst (encrypt_for_slot sample (cv_unlocked sample_created) B 5))"
    and "snd (encrypt_for_slot sample (cv_unlocked sample_created) B 5) = 6"
    by code_simp+
  then show ?thesis by (auto simp: is_ok_fst sample_next_slot_def)
qed

lemma sample_next_slot_verifies:
  "verify_next_slot sample (cv_unlocked sample_created) sample_next_slot = Inr ()"
proof -
  have "slot_other (uv_persisted_slot (cv_unlocked sample_created)) = B"
    by (simp add: create_vault_match [OF sample_created])
  then show ?thesis
    using sample_next_slot verify_own_slot [OF sample_deps_laws sample_created_facts(1)]
    by (auto simp: encrypt_for_slot_Inr)
qed

lemma commit_advances_one_generation_witness:
  "\<exists>v'. commit_verified_slot sample (cv_unlocked sample_created) sample_next_slot = (Inr (), v') \<and>
     unat (generation_of v') = unat (generation_of (cv_unlocked sample_created)) + 1"
proof -
  obtain v' where "commit_verified_slot sample (cv_unlocked sample_created) sample_next_slot
      = (Inr (), v')"
    using sample_next_slot_verifies by (simp add: commit_verified_slot_Inr)
  then show ?thesis using commit_advances_one_generation by fastforce
qed

text \<open>The slot that the code encrypts for a save always passes its own read-back check. A slot
  that \<open>encrypt_for_slot\<close> produced for the inactive side of a well-formed session verifies and
  commits.\<close>

theorem encrypted_slot_commits:
  assumes "deps_laws L" and "wf_vault v"
    and "encrypt_for_slot L v (slot_other (uv_persisted_slot v)) r = (Inr slot, r')"
  shows "\<exists>v'. verify_next_slot L v slot = Inr () \<and> commit_verified_slot L v slot = (Inr (), v') \<and>
    wf_vault v' \<and> entries_of v' = entries_of v"
proof -
  have "verify_next_slot L v slot = Inr ()"
    using assms by (auto simp: encrypt_for_slot_Inr intro: verify_own_slot)
  then show ?thesis using assms(2)
    by (simp add: commit_verified_slot_Inr wf_vault_def entries_of_def)
qed

lemma encrypted_slot_commits_witness:
  "\<exists>v'. commit_verified_slot sample (cv_unlocked sample_created) sample_next_slot = (Inr (), v')"
proof -
  have "slot_other (uv_persisted_slot (cv_unlocked sample_created)) = B"
    by (simp add: create_vault_match [OF sample_created])
  then show ?thesis
    using encrypted_slot_commits [OF sample_deps_laws sample_created_facts(1)] sample_next_slot
    by fastforce
qed

text \<open>C31: Ciphertexts cannot be moved. If the AEAD opens a slot's ciphertext only under the
  associated data it was sealed with, then changing the envelope's vault identifier, side or
  generation makes decryption fail with \<open>WrongPasswordOrCorruptedVault\<close>.\<close>

theorem slot_relocation_rejected:
  assumes "vault_slot_aad (es_vault_id slot) (es_slot slot) (es_generation slot) = Some aad"
    and "\<forall>other. other \<noteq> aad \<longrightarrow>
      xchacha_decrypt L dek (as_slice (es_nonce slot)) (as_slice (es_ciphertext slot)) other = None"
    and "eb_len (es_nonce slot) = NONCE_BYTES" and "wf_vault_id i"
    and "(i, s, g) \<noteq> (es_vault_id slot, es_slot slot, es_generation slot)"
  shows "decrypt_container L dek (slot\<lparr>es_vault_id := i, es_slot := s, es_generation := g\<rparr>)
    = Inl WrongPasswordOrCorruptedVault"
proof -
  obtain aad' where aad': "vault_slot_aad i s g = Some aad'"
    using vault_slot_aad_defined [OF assms(4)] by blast
  then have "aad' \<noteq> aad" using assms(1,5) vault_slot_aad_binds by fastforce
  then show ?thesis using assms(2,3) aad'
    by (simp add: decrypt_container_def decrypt_slot_payload_def aad_or_panic_def decrypt_def)
qed

definition binding_sample :: "nat deps" where
  "binding_sample = sample\<lparr>xchacha_decrypt := \<lambda>k n c a.
     if Some a = vault_slot_aad (es_vault_id sample_next_slot) B 1 then sample_decrypt k n c a
     else None\<rparr>"

lemma slot_relocation_rejected_witness:
  "decrypt_container binding_sample (uv_dek (cv_unlocked sample_created))
     (sample_next_slot\<lparr>es_vault_id := VaultId (replicate 16 0), es_slot := A, es_generation := 1\<rparr>)
   = Inl WrongPasswordOrCorruptedVault"
proof -
  obtain g where "checked_add (vc_generation (uv_container (cv_unlocked sample_created))) 1 = Some g"
    and enc: "encrypt_for_slot_at_generation sample (cv_unlocked sample_created) B g 5
      = (Inr sample_next_slot, 6)"
    using sample_next_slot by (auto simp: encrypt_for_slot_Inr)
  moreover have "vc_generation (uv_container (cv_unlocked sample_created)) = 0"
    by (rule create_vault_match [OF sample_created])
  ultimately have fields: "es_slot sample_next_slot = B" "es_generation sample_next_slot = 1"
    using encrypt_for_slot_at_generation_fields [OF enc] by (auto simp: checked_add_def)
  have "eb_len (es_nonce sample_next_slot) = NONCE_BYTES"
    using encrypt_for_slot_at_generation_roundtrip(2) [OF sample_deps_laws sample_created_facts(1) enc]
    by (simp add: slot_validate_ok NONCE_BYTES_def)
  moreover have wf: "wf_vault_id (es_vault_id sample_next_slot)"
    using encrypt_for_slot_at_generation_fields(3) [OF enc] sample_created_facts(1)
    by (simp add: wf_vault_def wf_container_def)
  obtain aad where "vault_slot_aad (es_vault_id sample_next_slot) B 1 = Some aad"
    using vault_slot_aad_defined [OF wf] by blast
  ultimately show ?thesis
    by (intro slot_relocation_rejected [where aad = aad])
      (simp_all add: fields binding_sample_def wf_vault_id_def)
qed

end
