(* ===== verification/Storage.thy ===== *)
theory Storage
  imports Errors Rust_String
begin

text \<open>
  The storage interface of \<open>crates/vault-core/src/storage.rs\<close>: the trait \<open>DeviceStorage\<close> as a
  record of its three methods, each threading the adapter's own state \<open>'s\<close>, and \<open>MemoryStorage\<close>,
  the implementation that the code itself ships (the browser bridge opens snapshots through it).
  The locale \<open>lawful_storage\<close> says what the repository may rely on: a successful call does what
  it says to one key, a failed one may have done it or not and touches no other key.
\<close>

section \<open>The trait\<close>

type_synonym key = rstring

record 's device_storage =
  ds_get :: "key \<Rightarrow> ('s, storage_error, rstring option) eff"
  ds_set :: "key \<Rightarrow> rstring \<Rightarrow> ('s, storage_error, unit) eff"
  ds_remove :: "key \<Rightarrow> ('s, storage_error, unit) eff"

section \<open>MemoryStorage\<close>

text \<open>The three sets hold the keys whose next operation fails, once.\<close>

record memory =
  ms_values :: "key \<Rightarrow> rstring option"
  ms_fail_get :: "key set"
  ms_fail_set :: "key set"
  ms_fail_remove :: "key set"

definition memory_default :: memory where
  "memory_default =
     \<lparr>ms_values = Map.empty, ms_fail_get = {}, ms_fail_set = {}, ms_fail_remove = {}\<rparr>"

definition memory_raw :: "memory \<Rightarrow> key \<Rightarrow> rstring option" where
  "memory_raw s k = ms_values s k"

definition memory_insert_raw :: "key \<Rightarrow> rstring \<Rightarrow> memory \<Rightarrow> memory" where
  "memory_insert_raw k v s = s\<lparr>ms_values := (ms_values s)(k \<mapsto> v)\<rparr>"

definition memory_fail_next_get :: "key \<Rightarrow> memory \<Rightarrow> memory" where
  "memory_fail_next_get k s = s\<lparr>ms_fail_get := insert k (ms_fail_get s)\<rparr>"

definition memory_fail_next_set :: "key \<Rightarrow> memory \<Rightarrow> memory" where
  "memory_fail_next_set k s = s\<lparr>ms_fail_set := insert k (ms_fail_set s)\<rparr>"

definition memory_fail_next_remove :: "key \<Rightarrow> memory \<Rightarrow> memory" where
  "memory_fail_next_remove k s = s\<lparr>ms_fail_remove := insert k (ms_fail_remove s)\<rparr>"

definition memory_get :: "key \<Rightarrow> (memory, storage_error, rstring option) eff" where
  "memory_get k s =
     (if k \<in> ms_fail_get s then (Inl ReadFailed, s\<lparr>ms_fail_get := ms_fail_get s - {k}\<rparr>)
      else (Inr (ms_values s k), s))"

definition memory_set :: "key \<Rightarrow> rstring \<Rightarrow> (memory, storage_error, unit) eff" where
  "memory_set k v s =
     (if k \<in> ms_fail_set s then (Inl WriteFailed, s\<lparr>ms_fail_set := ms_fail_set s - {k}\<rparr>)
      else (Inr (), s\<lparr>ms_values := (ms_values s)(k \<mapsto> v)\<rparr>))"

definition memory_remove :: "key \<Rightarrow> (memory, storage_error, unit) eff" where
  "memory_remove k s =
     (if k \<in> ms_fail_remove s
      then (Inl RemoveFailed, s\<lparr>ms_fail_remove := ms_fail_remove s - {k}\<rparr>)
      else (Inr (), s\<lparr>ms_values := (ms_values s)(k := None)\<rparr>))"

definition memory_storage :: "memory device_storage" where
  "memory_storage = \<lparr>ds_get = memory_get, ds_set = memory_set, ds_remove = memory_remove\<rparr>"

lemma memory_storage_sel [simp]:
  "ds_get memory_storage = memory_get"
  "ds_set memory_storage = memory_set"
  "ds_remove memory_storage = memory_remove"
  by (simp_all add: memory_storage_def)

section \<open>What a client may rely on\<close>

text \<open>
  \<open>values\<close> reads the stored values off an adapter state. \<open>reliable\<close> describes the states from
  which no call with a non-empty key fails. A device whose writes are lost or torn does not satisfy the laws; the
  code's read-back checks are about such devices and are stated without the locale.
\<close>

locale lawful_storage =
  fixes D :: "'s device_storage"
    and vals :: "'s \<Rightarrow> key \<Rightarrow> rstring option"
    and reliable :: "'s \<Rightarrow> bool"
  assumes get_vals: "ds_get D k s = (res, s') \<Longrightarrow> vals s' = vals s"
    and get_ok: "ds_get D k s = (Inr x, s') \<Longrightarrow> x = vals s k"
    and set_ok: "ds_set D k v s = (Inr u, s') \<Longrightarrow> vals s' = (vals s)(k \<mapsto> v)"
    and set_err: "ds_set D k v s = (Inl e, s') \<Longrightarrow> vals s' = vals s \<or> vals s' = (vals s)(k \<mapsto> v)"
    and remove_ok: "ds_remove D k s = (Inr u, s') \<Longrightarrow> vals s' = (vals s)(k := None)"
    and remove_err: "ds_remove D k s = (Inl e, s') \<Longrightarrow> vals s' = vals s \<or> vals s' = (vals s)(k := None)"
    and reliable_get: "reliable s \<Longrightarrow> k \<noteq> [] \<Longrightarrow> \<exists>s'. ds_get D k s = (Inr (vals s k), s') \<and> reliable s'"
    and reliable_set: "reliable s \<Longrightarrow> k \<noteq> [] \<Longrightarrow> \<exists>s'. ds_set D k v s = (Inr (), s') \<and> reliable s'"
    and reliable_remove: "reliable s \<Longrightarrow> k \<noteq> [] \<Longrightarrow> \<exists>s'. ds_remove D k s = (Inr (), s') \<and> reliable s'"

definition memory_reliable :: "memory \<Rightarrow> bool" where
  "memory_reliable s \<longleftrightarrow> ms_fail_get s = {} \<and> ms_fail_set s = {} \<and> ms_fail_remove s = {}"

interpretation mem: lawful_storage memory_storage ms_values memory_reliable
  by unfold_locales
    (auto simp: memory_get_def memory_set_def memory_remove_def memory_reliable_def
      split: if_splits)

end
