(* ===== verification/Rust_Order.thy ===== *)
theory Rust_Order
  imports Prelude
begin

text \<open>
  \<open>std::cmp::Ordering\<close>, the comparisons of \<open>u64\<close> and \<open>bool\<close>, \<open>then_with\<close>, and the
  stable \<open>slice::sort_by\<close>. The locale \<open>comparison\<close> is the contract the sort documents for its
  comparator (a total preorder); under it the sort permutes, orders, and puts a minimal element
  first, the earliest such element of the input.
\<close>

section \<open>Ordering\<close>

datatype ordering = Less | Equal | Greater

fun reverse :: "ordering \<Rightarrow> ordering" where
  "reverse Less = Greater"
| "reverse Equal = Equal"
| "reverse Greater = Less"

definition cmp :: "'a::linorder \<Rightarrow> 'a \<Rightarrow> ordering" where
  "cmp x y = (if x < y then Less else if x = y then Equal else Greater)"

fun then_with :: "ordering \<Rightarrow> ordering \<Rightarrow> ordering" where
  "then_with Equal o2 = o2"
| "then_with o1 o2 = o1"

lemma cmp_simps [simp]:
  "cmp x y = Less \<longleftrightarrow> x < y"
  "cmp x y = Equal \<longleftrightarrow> x = y"
  "cmp x y = Greater \<longleftrightarrow> y < x"
  by (auto simp: cmp_def)

lemma reverse_cmp [simp]: "reverse (cmp x y) = cmp y x"
  by (auto simp: cmp_def)

lemma reverse_then_with [simp]:
  "reverse (then_with a b) = then_with (reverse a) (reverse b)"
  by (cases a) auto

lemma then_with_Greater: "then_with a b = Greater \<longleftrightarrow> a = Greater \<or> a = Equal \<and> b = Greater"
  by (cases a) auto

section \<open>A stable sort\<close>

fun insert_by :: "('a \<Rightarrow> 'a \<Rightarrow> ordering) \<Rightarrow> 'a \<Rightarrow> 'a list \<Rightarrow> 'a list" where
  "insert_by c x [] = [x]"
| "insert_by c x (y # ys) = (if c x y = Greater then y # insert_by c x ys else x # y # ys)"

definition sort_by :: "('a \<Rightarrow> 'a \<Rightarrow> ordering) \<Rightarrow> 'a list \<Rightarrow> 'a list" where
  "sort_by c xs = foldr (insert_by c) xs []"

lemma set_insert_by [simp]: "set (insert_by c x ys) = insert x (set ys)"
  by (induction ys) auto

lemma set_sort_by [simp]: "set (sort_by c xs) = set xs"
  by (induction xs) (simp_all add: sort_by_def)

lemma sort_by_Nil_iff [simp]: "sort_by c xs = [] \<longleftrightarrow> xs = []"
  using set_sort_by [of c xs] by (metis set_empty)

section \<open>The comparator's contract\<close>

locale comparison =
  fixes c :: "'a \<Rightarrow> 'a \<Rightarrow> ordering"
  assumes swap: "c y x = reverse (c x y)"
    and trans: "c x y \<noteq> Greater \<Longrightarrow> c y z \<noteq> Greater \<Longrightarrow> c x z \<noteq> Greater"
begin

definition le :: "'a \<Rightarrow> 'a \<Rightarrow> bool" where
  "le x y \<longleftrightarrow> c x y \<noteq> Greater"

lemma le_total: "le x y \<or> le y x"
  using swap [of x y] by (cases "c x y") (auto simp: le_def)

lemma le_refl: "le x x"
  using le_total by blast

lemma le_trans: "le x y \<Longrightarrow> le y z \<Longrightarrow> le x z"
  unfolding le_def by (rule trans)

lemma sorted_insert_by: "sorted_wrt le ys \<Longrightarrow> sorted_wrt le (insert_by c x ys)"
proof (induction ys)
  case (Cons y ys)
  show ?case
  proof (cases "c x y = Greater")
    case True
    then have "le y x" using le_total [of x y] by (simp add: le_def)
    with Cons True show ?thesis by simp
  next
    case False
    with Cons.prems show ?thesis using le_trans [of x y] by (auto simp: le_def)
  qed
qed simp

lemma sorted_sort_by: "sorted_wrt le (sort_by c xs)"
  by (induction xs) (simp_all add: sort_by_def sorted_insert_by)

text \<open>The first element of the sorted list: nothing in the input comes before it.\<close>

lemma hd_sort_by:
  assumes "xs \<noteq> []"
  shows "hd (sort_by c xs) \<in> set xs" and "y \<in> set xs \<Longrightarrow> c (hd (sort_by c xs)) y \<noteq> Greater"
proof -
  obtain z zs where z: "sort_by c xs = z # zs"
    using assms sort_by_Nil_iff [of c xs] by (cases "sort_by c xs") auto
  then have *: "set xs = insert z (set zs)" using set_sort_by [of c xs] by simp
  then show "hd (sort_by c xs) \<in> set xs" by (simp add: z)
  show "c (hd (sort_by c xs)) y \<noteq> Greater" if "y \<in> set xs"
    using that * sorted_sort_by [of xs] le_refl by (auto simp: z le_def)
qed

end

end
