(* ===== verification/Repository.thy ===== *)
theory Repository
  imports Vault Storage Rust_Order
begin

text \<open>
  \<open>TwoSlotRepository\<close> of \<open>crates/vault-core/src/storage.rs\<close>: initialisation, opening with
  selection of the newest authenticated slot and repair of the pointer, saving into the inactive
  slot, and clearing. The repository holds nothing but the storage adapter, so its operations
  are functions over the adapter's state; a \<open>&mut\<close> session or random source is threaded beside it.
\<close>

section \<open>Keys\<close>

definition META_KEY :: key where
  "META_KEY = str ''vault_meta_v1''"

definition SLOT_A_KEY :: key where
  "SLOT_A_KEY = str ''vault_slot_a_v1''"

definition SLOT_B_KEY :: key where
  "SLOT_B_KEY = str ''vault_slot_b_v1''"

definition ACTIVE_SLOT_KEY :: key where
  "ACTIVE_SLOT_KEY = str ''active_slot_v1''"

definition MAX_ACTIVE_POINTER_BYTES :: nat where
  "MAX_ACTIVE_POINTER_BYTES = 1024"

fun slot_key :: "slot_id \<Rightarrow> key" where
  "slot_key A = SLOT_A_KEY"
| "slot_key B = SLOT_B_KEY"

lemmas key_defs = META_KEY_def SLOT_A_KEY_def SLOT_B_KEY_def ACTIVE_SLOT_KEY_def

lemma keys_distinct [simp]:
  "slot_key s \<noteq> META_KEY" "META_KEY \<noteq> slot_key s"
  "slot_key s \<noteq> ACTIVE_SLOT_KEY" "ACTIVE_SLOT_KEY \<noteq> slot_key s"
  "META_KEY \<noteq> ACTIVE_SLOT_KEY" "ACTIVE_SLOT_KEY \<noteq> META_KEY"
  by (cases s; simp add: key_defs)+

lemma slot_keys_distinct [simp]:
  "SLOT_A_KEY \<noteq> META_KEY" "META_KEY \<noteq> SLOT_A_KEY" "SLOT_B_KEY \<noteq> META_KEY" "META_KEY \<noteq> SLOT_B_KEY"
  "SLOT_A_KEY \<noteq> ACTIVE_SLOT_KEY" "ACTIVE_SLOT_KEY \<noteq> SLOT_A_KEY" "SLOT_B_KEY \<noteq> ACTIVE_SLOT_KEY"
  "ACTIVE_SLOT_KEY \<noteq> SLOT_B_KEY" "SLOT_A_KEY \<noteq> SLOT_B_KEY" "SLOT_B_KEY \<noteq> SLOT_A_KEY"
  by (simp_all add: key_defs)

lemma keys_not_empty [simp]:
  "META_KEY \<noteq> []" "SLOT_A_KEY \<noteq> []" "SLOT_B_KEY \<noteq> []" "ACTIVE_SLOT_KEY \<noteq> []" "slot_key s \<noteq> []"
  by (cases s; simp add: key_defs str_def)+

lemma slot_key_inj [simp]: "slot_key s = slot_key t \<longleftrightarrow> s = t"
  by (cases s; cases t) (simp_all add: key_defs)

section \<open>Values\<close>

text \<open>
  \<open>Result::ok\<close> as the code uses it to skip an unreadable value: an error becomes \<open>None\<close>, a
  panic still unwinds.
\<close>

definition skip_err :: "'a result \<Rightarrow> 'a option result" where
  "skip_err r = (case r of
     Inr x \<Rightarrow> Inr (Some x)
   | Inl (Panic m) \<Rightarrow> Inl (Panic m)
   | Inl _ \<Rightarrow> Inr None)"

definition skip_errE :: "('s, vault_error, 'a) eff \<Rightarrow> ('s, vault_error, 'a option) eff" where
  "skip_errE m = (\<lambda>s. case m s of (r, s') \<Rightarrow> (skip_err r, s'))"

definition write_json_verified ::
  "'s device_storage \<Rightarrow> ('a \<Rightarrow> rstring option) \<Rightarrow> key \<Rightarrow> 'a \<Rightarrow> nat \<Rightarrow> ('s, vault_error, unit) eff" where
  "write_json_verified D to_json key value maximum_bytes =
     bindE (lift (ok_or SerializationFailed (to_json value))) (\<lambda>encoded.
     if byte_len encoded > maximum_bytes then lift (Inl VaultTooLarge)
     else
       bindE (map_errE Storage (ds_set D key encoded)) (\<lambda>_.
       bindE (map_errE Storage (ds_get D key)) (\<lambda>got.
       bindE (lift (ok_or SlotVerificationFailed got)) (\<lambda>stored.
       if stored \<noteq> encoded then lift (Inl SlotVerificationFailed) else ret ()))))"

definition read_optional_json ::
  "'s device_storage \<Rightarrow> (rstring \<Rightarrow> 'a option) \<Rightarrow> key \<Rightarrow> nat \<Rightarrow> ('s, vault_error, 'a option) eff" where
  "read_optional_json D from_json key maximum_bytes =
     bindE (map_errE Storage (ds_get D key)) (\<lambda>got.
     case got of
       None \<Rightarrow> ret None
     | Some encoded \<Rightarrow>
         if byte_len encoded > maximum_bytes then lift (Inl VaultTooLarge)
         else
           bindE (lift (ok_or SerializationFailed (from_json encoded))) (\<lambda>value. ret (Some value)))"

definition read_required_json ::
  "'s device_storage \<Rightarrow> (rstring \<Rightarrow> 'a option) \<Rightarrow> key \<Rightarrow> nat \<Rightarrow> ('s, vault_error, 'a) eff" where
  "read_required_json D from_json key maximum_bytes =
     bindE (read_optional_json D from_json key maximum_bytes) (\<lambda>value.
     lift (ok_or Uninitialized value))"

section \<open>Initialisation\<close>

definition initialize ::
  "'z codec_lib_scheme \<Rightarrow> 's device_storage \<Rightarrow> created_vault \<Rightarrow> ('s, vault_error, unit) eff" where
  "initialize L D created =
     bindE (lift (meta_validate (cv_metadata created))) (\<lambda>_.
     bindE (lift (slot_validate (cv_initial_slot created) (vm_vault_id (cv_metadata created)))) (\<lambda>_.
     bindE (lift (pointer_validate (cv_active_slot created))) (\<lambda>_.
     if es_slot (cv_initial_slot created) \<noteq> as_slot (cv_active_slot created)
        \<or> es_generation (cv_initial_slot created) \<noteq> as_generation (cv_active_slot created)
       then lift (Inl (InvalidSlot ''initial slot and active pointer do not match''))
     else
       bindE (map_errE Storage (ds_get D META_KEY)) (\<lambda>existing.
       if existing \<noteq> None then lift (Inl AlreadyInitialized)
       else
         bindE (write_json_verified D (slot_to_json L) (slot_key (es_slot (cv_initial_slot created)))
                  (cv_initial_slot created) MAX_SLOT_JSON_BYTES) (\<lambda>_.
         bindE (write_json_verified D (meta_to_json L) META_KEY (cv_metadata created)
                  MAX_METADATA_JSON_BYTES) (\<lambda>_.
         bindE (write_json_verified D (pointer_to_json L) ACTIVE_SLOT_KEY (cv_active_slot created)
                  MAX_ACTIVE_POINTER_BYTES) (\<lambda>_.
         ret ())))))))"

section \<open>Opening\<close>

record opened_vault =
  ov_vault :: unlocked_vault
  ov_active_pointer_repaired :: bool

text \<open>The \<open>for\<close> loop over \<open>[(SlotId::A, SLOT_A_KEY), (SlotId::B, SLOT_B_KEY)]\<close>.\<close>

fun read_candidates ::
  "'z codec_lib_scheme \<Rightarrow> 's device_storage \<Rightarrow> vault_id \<Rightarrow> (slot_id \<times> key) list
     \<Rightarrow> ('s, vault_error, encrypted_slot list) eff" where
  "read_candidates L D vault_id [] = ret []"
| "read_candidates L D vault_id ((expected_slot, key) # rest) =
     bindE (skip_errE (read_optional_json D (slot_from_json L) key MAX_SLOT_JSON_BYTES)) (\<lambda>got.
     let candidates =
           (case got of
              Some (Some slot) \<Rightarrow>
                if es_slot slot \<noteq> expected_slot \<or> \<not> is_ok (slot_validate slot vault_id) then []
                else [slot]
            | _ \<Rightarrow> [])
     in
     bindE (read_candidates L D vault_id rest) (\<lambda>more. ret (candidates @ more)))"

fun decrypt_candidates ::
  "'z crypto_lib_scheme \<Rightarrow> bytes \<Rightarrow> vault_meta \<Rightarrow> encrypted_slot list
     \<Rightarrow> (encrypted_slot \<times> vault_container) list result" where
  "decrypt_candidates L dek metadata [] = Inr []"
| "decrypt_candidates L dek metadata (slot # rest) =
     and_then (skip_err (decrypt_container L dek slot)) (\<lambda>opened.
     and_then (decrypt_candidates L dek metadata rest) (\<lambda>more.
     Inr (case opened of
            Some container \<Rightarrow>
              if vc_created_at container = vm_created_at metadata then (slot, container) # more
              else more
          | None \<Rightarrow> more)))"

definition pointer_matches :: "active_slot option \<Rightarrow> encrypted_slot \<Rightarrow> bool" where
  "pointer_matches pointer slot = (case pointer of
     None \<Rightarrow> False
   | Some value \<Rightarrow> as_slot value = es_slot slot \<and> as_generation value = es_generation slot)"

definition pointer_preference ::
  "active_slot option \<Rightarrow> encrypted_slot \<Rightarrow> encrypted_slot \<Rightarrow> ordering" where
  "pointer_preference pointer right left =
     cmp (pointer_matches pointer right) (pointer_matches pointer left)"

definition compare_candidates ::
  "active_slot option \<Rightarrow> encrypted_slot \<times> vault_container \<Rightarrow> encrypted_slot \<times> vault_container
     \<Rightarrow> ordering" where
  "compare_candidates pointer left right =
     then_with (cmp (es_generation (fst right)) (es_generation (fst left)))
       (pointer_preference pointer (fst right) (fst left))"

definition read_pointer ::
  "'z codec_lib_scheme \<Rightarrow> 's device_storage \<Rightarrow> ('s, vault_error, active_slot option) eff" where
  "read_pointer L D =
     bindE (skip_errE (read_optional_json D (pointer_from_json L) ACTIVE_SLOT_KEY
                         MAX_ACTIVE_POINTER_BYTES)) (\<lambda>got.
     ret (case got of
            Some (Some pointer) \<Rightarrow> if is_ok (pointer_validate pointer) then Some pointer else None
          | _ \<Rightarrow> None))"

definition select_candidate ::
  "active_slot option \<Rightarrow> (encrypted_slot \<times> vault_container) list
     \<Rightarrow> (encrypted_slot \<times> vault_container) result" where
  "select_candidate pointer candidates =
     (case sort_by (compare_candidates pointer) candidates of
        [] \<Rightarrow> Inl WrongPasswordOrCorruptedVault
      | best # _ \<Rightarrow> Inr best)"

definition open_vault ::
  "'z crypto_lib_scheme \<Rightarrow> 's device_storage \<Rightarrow> bytes \<Rightarrow> ('s, vault_error, opened_vault) eff" where
  "open_vault L D master_password =
     bindE (read_required_json D (meta_from_json L) META_KEY MAX_METADATA_JSON_BYTES) (\<lambda>metadata.
     bindE (lift (meta_validate metadata)) (\<lambda>_.
     bindE (read_pointer L D) (\<lambda>pointer.
     bindE (read_candidates L D (vm_vault_id metadata) [(A, SLOT_A_KEY), (B, SLOT_B_KEY)])
       (\<lambda>encrypted_candidates.
     if encrypted_candidates = [] then lift (Inl WrongPasswordOrCorruptedVault)
     else
     bindE (lift (derive_kek L master_password (vm_vault_id metadata) (vm_kdf metadata))) (\<lambda>kek.
     bindE (lift (unwrap_dek L kek (vm_wrapped_dek metadata) (vm_vault_id metadata))) (\<lambda>dek.
     bindE (lift (decrypt_candidates L dek metadata encrypted_candidates)) (\<lambda>candidates.
     bindE (lift (select_candidate pointer candidates)) (\<lambda>(selected_slot, container).
     let selected_pointer =
           \<lparr>as_version = FORMAT_VERSION, as_slot = es_slot selected_slot,
            as_generation = es_generation selected_slot\<rparr>;
         active_pointer_repaired = (pointer \<noteq> Some selected_pointer);
         opened =
           \<lparr>ov_vault = \<lparr>uv_container = container, uv_dek = dek,
              uv_persisted_slot = es_slot selected_slot\<rparr>,
            ov_active_pointer_repaired = active_pointer_repaired\<rparr>
     in
     if active_pointer_repaired
       then bindE (write_json_verified D (pointer_to_json L) ACTIVE_SLOT_KEY selected_pointer
                     MAX_ACTIVE_POINTER_BYTES) (\<lambda>_. ret opened)
     else ret opened))))))))"

section \<open>Saving and clearing\<close>

text \<open>The storage side of \<open>save\<close>, from the write of the slot to the write of the pointer.\<close>

definition store_slot ::
  "'z crypto_lib_scheme \<Rightarrow> 's device_storage \<Rightarrow> unlocked_vault \<Rightarrow> slot_id \<Rightarrow> u64 \<Rightarrow> encrypted_slot
     \<Rightarrow> ('s, vault_error, encrypted_slot) eff" where
  "store_slot L D v target next_generation slot =
     bindE (write_json_verified D (slot_to_json L) (slot_key target) slot MAX_SLOT_JSON_BYTES) (\<lambda>_.
     bindE (read_required_json D (slot_from_json L) (slot_key target) MAX_SLOT_JSON_BYTES) (\<lambda>stored.
     bindE (lift (slot_validate stored (vault_id_of v))) (\<lambda>_.
     bindE (lift (verify_next_slot L v stored)) (\<lambda>_.
     bindE (write_json_verified D (pointer_to_json L) ACTIVE_SLOT_KEY
              \<lparr>as_version = FORMAT_VERSION, as_slot = target, as_generation = next_generation\<rparr>
              MAX_ACTIVE_POINTER_BYTES) (\<lambda>_.
     ret stored)))))"

definition save ::
  "('r, 'z) deps_scheme \<Rightarrow> 's device_storage \<Rightarrow> ('s \<times> unlocked_vault \<times> 'r, vault_error, unit) eff" where
  "save L D = (\<lambda>(s, v, r).
     let target = slot_other (uv_persisted_slot v) in
     case checked_add (generation_of v) 1 of
       None \<Rightarrow> (Inl GenerationOverflow, (s, v, r))
     | Some next_generation \<Rightarrow>
         (case encrypt_for_slot_at_generation L v target next_generation r of
            (Inl e, r') \<Rightarrow> (Inl e, (s, v, r'))
          | (Inr slot, r') \<Rightarrow>
              (case store_slot L D v target next_generation slot s of
                 (Inl e, s') \<Rightarrow> (Inl e, (s', v, r'))
               | (Inr stored, s') \<Rightarrow>
                   (case commit_verified_slot L v stored of
                      (res, v') \<Rightarrow> (res, (s', v', r'))))))"

fun clear_keys :: "'s device_storage \<Rightarrow> key list \<Rightarrow> ('s, vault_error, unit) eff" where
  "clear_keys D [] = ret ()"
| "clear_keys D (key # rest) =
     bindE (map_errE Storage (ds_remove D key)) (\<lambda>_.
     bindE (map_errE Storage (ds_get D key)) (\<lambda>left.
     if left \<noteq> None then lift (Inl SlotVerificationFailed) else clear_keys D rest))"

definition clear_device_storage :: "'s device_storage \<Rightarrow> ('s, vault_error, unit) eff" where
  "clear_device_storage D = clear_keys D [META_KEY, SLOT_A_KEY, SLOT_B_KEY, ACTIVE_SLOT_KEY]"

text \<open>The repository as an object: the adapter and nothing else. A method on \<open>&mut self\<close> runs on it.\<close>

record 's two_slot_repository =
  rp_storage :: 's

definition repository_new :: "'s \<Rightarrow> 's two_slot_repository" where
  "repository_new storage = \<lparr>rp_storage = storage\<rparr>"

definition repository_storage :: "'s two_slot_repository \<Rightarrow> 's" where
  "repository_storage repository = rp_storage repository"

definition repository_storage_mut :: "('s \<Rightarrow> 's) \<Rightarrow> 's two_slot_repository \<Rightarrow> 's two_slot_repository" where
  "repository_storage_mut change repository = repository\<lparr>rp_storage := change (rp_storage repository)\<rparr>"

definition repository_into_inner :: "'s two_slot_repository \<Rightarrow> 's" where
  "repository_into_inner repository = rp_storage repository"

definition on_repository :: "('s, 'e, 'a) eff \<Rightarrow> ('s two_slot_repository, 'e, 'a) eff" where
  "on_repository method repository =
     (case method (rp_storage repository) of (res, storage) \<Rightarrow> (res, repository\<lparr>rp_storage := storage\<rparr>))"

lemma repository_new_simps [simp]:
  "repository_storage (repository_new s) = s"
  "repository_into_inner (repository_new s) = s"
  "repository_storage_mut f (repository_new s) = repository_new (f s)"
  "on_repository method (repository_new s) = (case method s of (res, s') \<Rightarrow> (res, repository_new s'))"
  by (simp_all add: repository_new_def repository_storage_def repository_into_inner_def
      repository_storage_mut_def on_repository_def)

section \<open>What the stored values say\<close>

text \<open>
  The reading side as a function of the stored values alone: the parsed value under a key, the
  slot of a side that passes the format checks, and the authenticated container in it.
\<close>

definition stored_json ::
  "(rstring \<Rightarrow> 'a option) \<Rightarrow> nat \<Rightarrow> (key \<Rightarrow> rstring option) \<Rightarrow> key \<Rightarrow> 'a option result" where
  "stored_json from_json maximum_bytes vs key = (case vs key of
     None \<Rightarrow> Inr None
   | Some encoded \<Rightarrow>
       if byte_len encoded > maximum_bytes then Inl VaultTooLarge
       else and_then (ok_or SerializationFailed (from_json encoded)) (\<lambda>value. Inr (Some value)))"

definition stored_pointer ::
  "'z codec_lib_scheme \<Rightarrow> (key \<Rightarrow> rstring option) \<Rightarrow> active_slot option" where
  "stored_pointer L vs =
     (case stored_json (pointer_from_json L) MAX_ACTIVE_POINTER_BYTES vs ACTIVE_SLOT_KEY of
        Inr (Some p) \<Rightarrow> if pointer_validate p = Inr () then Some p else None
      | _ \<Rightarrow> None)"

definition stored_slot ::
  "'z codec_lib_scheme \<Rightarrow> vault_id \<Rightarrow> (key \<Rightarrow> rstring option) \<Rightarrow> slot_id \<Rightarrow> encrypted_slot list" where
  "stored_slot L i vs side =
     (case stored_json (slot_from_json L) MAX_SLOT_JSON_BYTES vs (slot_key side) of
        Inr (Some slot) \<Rightarrow> if es_slot slot = side \<and> slot_validate slot i = Inr () then [slot] else []
      | _ \<Rightarrow> [])"

definition authentic ::
  "'z crypto_lib_scheme \<Rightarrow> bytes \<Rightarrow> vault_meta \<Rightarrow> encrypted_slot
     \<Rightarrow> (encrypted_slot \<times> vault_container) list" where
  "authentic L dek m slot = (case decrypt_container L dek slot of
     Inr c \<Rightarrow> if vc_created_at c = vm_created_at m then [(slot, c)] else []
   | Inl _ \<Rightarrow> [])"

definition candidates_of ::
  "'z crypto_lib_scheme \<Rightarrow> bytes \<Rightarrow> vault_meta \<Rightarrow> (key \<Rightarrow> rstring option) \<Rightarrow> slot_id
     \<Rightarrow> (encrypted_slot \<times> vault_container) list" where
  "candidates_of L dek m vs side = concat (map (authentic L dek m) (stored_slot L (vm_vault_id m) vs side))"

abbreviation all_candidates where
  "all_candidates L dek m vs \<equiv> candidates_of L dek m vs A @ candidates_of L dek m vs B"

abbreviation stored_meta where
  "stored_meta L vs \<equiv> stored_json (meta_from_json L) MAX_METADATA_JSON_BYTES vs META_KEY"

lemma stored_json_cong: "vs k = vs' k \<Longrightarrow> stored_json f n vs k = stored_json f n vs' k"
  by (simp add: stored_json_def)

lemma stored_json_upd [simp]:
  "k \<noteq> k' \<Longrightarrow> stored_json f n (vs(k' := x)) k = stored_json f n vs k"
  by (simp add: stored_json_def)

lemma candidates_of_upd [simp]:
  "k \<noteq> slot_key side \<Longrightarrow> candidates_of L dek m (vs(k := x)) side = candidates_of L dek m vs side"
  by (simp add: candidates_of_def stored_slot_def)

lemma stored_pointer_upd [simp]:
  "k \<noteq> ACTIVE_SLOT_KEY \<Longrightarrow> stored_pointer L (vs(k := x)) = stored_pointer L vs"
  by (simp add: stored_pointer_def)

lemma stored_json_Some:
  "stored_json f n vs k = Inr (Some x) \<longleftrightarrow> (\<exists>e. vs k = Some e \<and> byte_len e \<le> n \<and> f e = Some x)"
  by (auto simp: stored_json_def and_then_Inr split: option.splits)

lemma stored_slot_mem:
  "slot \<in> set (stored_slot L i vs side) \<longleftrightarrow>
     stored_json (slot_from_json L) MAX_SLOT_JSON_BYTES vs (slot_key side) = Inr (Some slot) \<and>
     es_slot slot = side \<and> slot_validate slot i = Inr ()"
proof (cases "stored_json (slot_from_json L) MAX_SLOT_JSON_BYTES vs (slot_key side)")
  case (Inr x)
  show ?thesis
  proof (cases x)
    case (Some a)
    have "stored_slot L i vs side
        = (if es_slot a = side \<and> slot_validate a i = Inr () then [a] else [])"
      using Inr Some by (simp add: stored_slot_def)
    then show ?thesis unfolding Inr Some by (cases "a = slot") simp_all
  qed (simp add: Inr stored_slot_def)
qed (simp add: stored_slot_def)

lemma stored_slot_single: "slot \<in> set (stored_slot L i vs side) \<Longrightarrow> stored_slot L i vs side = [slot]"
  unfolding stored_slot_mem by (elim conjE) (simp add: stored_slot_def)

lemma stored_slot_wf: "slot \<in> set (stored_slot L i vs side) \<Longrightarrow> wf_slot slot"
  by (auto simp: stored_slot_mem stored_json_Some dest: slot_from_json_wf)

lemma authentic_mem:
  "(t, c) \<in> set (authentic L dek m slot) \<longleftrightarrow>
     t = slot \<and> decrypt_container L dek slot = Inr c \<and> vc_created_at c = vm_created_at m"
  by (auto simp: authentic_def split: sum.splits)

lemma candidates_of_mem_iff:
  "(slot, c) \<in> set (candidates_of L dek m vs side) \<longleftrightarrow>
     slot \<in> set (stored_slot L (vm_vault_id m) vs side) \<and> decrypt_container L dek slot = Inr c \<and>
     vc_created_at c = vm_created_at m"
  by (auto simp: candidates_of_def authentic_mem)

lemma candidates_of_mem:
  assumes "(slot, c) \<in> set (candidates_of L dek m vs side)"
  shows "es_slot slot = side" and "es_generation slot = vc_generation c"
    and "candidates_of L dek m vs side = [(slot, c)]"
    and "slot_validate slot (vm_vault_id m) = Inr ()"
proof -
  have *: "slot \<in> set (stored_slot L (vm_vault_id m) vs side)" "decrypt_container L dek slot = Inr c"
    "vc_created_at c = vm_created_at m"
    using assms by (simp_all add: candidates_of_mem_iff)
  then show "es_slot slot = side" "es_generation slot = vc_generation c"
    "slot_validate slot (vm_vault_id m) = Inr ()"
    by (simp_all add: stored_slot_mem decrypt_container_Inr)
  show "candidates_of L dek m vs side = [(slot, c)]"
    using * stored_slot_single [OF *(1)] by (simp add: candidates_of_def authentic_def)
qed

section \<open>Selection\<close>

interpretation candidates: comparison "compare_candidates p" for p
proof
  fix x y z :: "encrypted_slot \<times> vault_container"
  show "compare_candidates p y x = reverse (compare_candidates p x y)"
    by (simp add: compare_candidates_def pointer_preference_def)
  show "compare_candidates p x y \<noteq> Greater \<Longrightarrow> compare_candidates p y z \<noteq> Greater \<Longrightarrow>
      compare_candidates p x z \<noteq> Greater"
    by (auto simp: compare_candidates_def pointer_preference_def then_with_Greater)
qed

lemma select_candidate_Inr:
  assumes "select_candidate p cs = Inr x"
  shows "x \<in> set cs"
    and "y \<in> set cs \<Longrightarrow> es_generation (fst y) \<le> es_generation (fst x)"
    and "y \<in> set cs \<Longrightarrow> es_generation (fst y) = es_generation (fst x) \<Longrightarrow>
      pointer_matches p (fst y) \<Longrightarrow> pointer_matches p (fst x)"
proof -
  have ne: "cs \<noteq> []" and x: "x = hd (sort_by (compare_candidates p) cs)"
    using assms by (auto simp: select_candidate_def sort_by_def split: list.splits)
  show "x \<in> set cs" using candidates.hd_sort_by(1) [OF ne] x by simp
  show "es_generation (fst y) \<le> es_generation (fst x)" if "y \<in> set cs"
    using candidates.hd_sort_by(2) [OF ne that, of p] x
    by (auto simp: compare_candidates_def then_with_Greater)
  show "pointer_matches p (fst x)" if "y \<in> set cs" "es_generation (fst y) = es_generation (fst x)"
    "pointer_matches p (fst y)"
    using candidates.hd_sort_by(2) [OF ne that(1), of p] x that(2,3)
    by (auto simp: compare_candidates_def then_with_Greater pointer_preference_def)
qed

lemma select_candidate_defined:
  assumes "cs \<noteq> []"
  obtains x where "select_candidate p cs = Inr x"
  using assms sort_by_Nil_iff [of "compare_candidates p" cs]
  by (cases "sort_by (compare_candidates p) cs") (auto simp: select_candidate_def)

lemma decrypt_candidates_eq:
  "list_all wf_slot slots \<Longrightarrow>
   decrypt_candidates L dek m slots = Inr (concat (map (authentic L dek m) slots))"
proof (induction slots)
  case (Cons slot rest)
  then have "no_panic (decrypt_container L dek slot)" by (simp add: decrypt_container_no_panic)
  then have "skip_err (decrypt_container L dek slot) = Inr (result_ok (decrypt_container L dek slot))"
    by (auto simp: skip_err_def result_ok_def no_panic_def split: sum.splits vault_error.splits)
  with Cons show ?case by (auto simp: authentic_def split: sum.splits)
qed simp

section \<open>The repository over a lawful device\<close>

lemma skip_errE_apply: "skip_errE m s = (r, s') \<longleftrightarrow> (\<exists>q. m s = (q, s') \<and> r = skip_err q)"
  by (auto simp: skip_errE_def split: prod.splits)

lemma skip_err_Inr:
  "skip_err r = Inr x \<longleftrightarrow> (case x of Some y \<Rightarrow> r = Inr y | None \<Rightarrow> (\<exists>e. r = Inl e \<and> (\<forall>m. e \<noteq> Panic m)))"
  by (auto simp: skip_err_def split: sum.splits vault_error.splits option.splits)

context lawful_storage
begin

text \<open>A verified write stores exactly the encoding; a failed one stores it or nothing.\<close>

lemma write_Inr:
  assumes "write_json_verified D f k x n s = (Inr u, s')"
  obtains e where "f x = Some e" and "byte_len e \<le> n" and "vals s' = (vals s)(k \<mapsto> e)"
  using assms
  by (auto simp: write_json_verified_def bindE_Inr not_less split: if_splits
      dest!: set_ok get_vals)

lemma write_Inl:
  assumes "write_json_verified D f k x n s = (Inl d, s')"
  shows "vals s' = vals s \<or> (\<exists>e. f x = Some e \<and> byte_len e \<le> n \<and> vals s' = (vals s)(k \<mapsto> e))"
  using assms
  by (auto simp: write_json_verified_def bindE_Inl map_errE_Inl not_less split: if_splits
      dest!: set_ok set_err get_vals)

lemma reliable_write:
  assumes "reliable s" and "k \<noteq> []" and "f x = Some e" and "byte_len e \<le> n"
  obtains s' where "write_json_verified D f k x n s = (Inr (), s')" and "reliable s'"
    and "vals s' = (vals s)(k \<mapsto> e)"
proof -
  obtain t where t: "ds_set D k e s = (Inr (), t)" "reliable t"
    using reliable_set [OF assms(1,2)] by blast
  obtain s' where s': "ds_get D k t = (Inr (vals t k), s')" "reliable s'"
    using reliable_get [OF t(2) assms(2)] by blast
  have vt: "vals t = (vals s)(k \<mapsto> e)" using t(1) by (rule set_ok)
  have "write_json_verified D f k x n s = (Inr (), s')"
    using assms(3,4) t(1) s'(1) vt
    by (simp add: write_json_verified_def bindE_apply map_errE_apply)
  moreover have "vals s' = (vals s)(k \<mapsto> e)" using get_vals [OF s'(1)] vt by simp
  ultimately show ?thesis using s'(2) that by blast
qed

text \<open>A read leaves the values and answers from them, or reports a storage failure.\<close>

lemma read_optional:
  assumes "read_optional_json D f k n s = (res, s')"
  shows "vals s' = vals s \<and> (res = stored_json f n (vals s) k \<or> (\<exists>e. res = Inl (Storage e)))"
proof (cases "ds_get D k s")
  case (Pair got t)
  show ?thesis
  proof (cases got)
    case (Inl e)
    with Pair assms get_vals [OF Pair] show ?thesis
      by (auto simp: read_optional_json_def bindE_apply map_errE_apply)
  next
    case (Inr x)
    then have "x = vals s k" using Pair get_ok by blast
    with Inr Pair assms get_vals [OF Pair] show ?thesis
      by (cases x; cases "ok_or SerializationFailed (f (the x))")
        (auto simp: read_optional_json_def bindE_apply map_errE_apply stored_json_def
          split: if_splits option.splits)
  qed
qed

lemma reliable_read:
  assumes "reliable s" and "k \<noteq> []"
  obtains s' where "read_optional_json D f k n s = (stored_json f n (vals s) k, s')"
    and "reliable s'" and "vals s' = vals s"
proof -
  obtain s' where s': "ds_get D k s = (Inr (vals s k), s')" "reliable s'"
    using reliable_get [OF assms] by blast
  have "read_optional_json D f k n s = (stored_json f n (vals s) k, s')"
    using s'(1)
    by (cases "vals s k"; cases "ok_or SerializationFailed (f (the (vals s k)))")
      (auto simp: read_optional_json_def bindE_apply map_errE_apply stored_json_def
        split: option.splits)
  then show ?thesis using that s'(2) get_vals [OF s'(1)] by blast
qed

lemma read_required_Inr:
  assumes "read_required_json D f k n s = (Inr x, s')"
  shows "vals s' = vals s" and "stored_json f n (vals s) k = Inr (Some x)"
  using assms by (auto simp: read_required_json_def bindE_Inr dest!: read_optional)

lemma read_required_vals: "read_required_json D f k n s = (res, s') \<Longrightarrow> vals s' = vals s"
  by (cases "read_optional_json D f k n s"; cases "fst (read_optional_json D f k n s)")
    (auto simp: read_required_json_def bindE_apply dest!: read_optional)

lemma reliable_read_required:
  assumes "reliable s" and "k \<noteq> []" and "stored_json f n (vals s) k = Inr (Some x)"
  obtains s' where "read_required_json D f k n s = (Inr x, s')" and "reliable s'"
    and "vals s' = vals s"
proof -
  obtain s' where "read_optional_json D f k n s = (stored_json f n (vals s) k, s')"
    and "reliable s'" and "vals s' = vals s"
    by (rule reliable_read [OF assms(1,2)])
  then show ?thesis using that assms(3) by (simp add: read_required_json_def bindE_apply)
qed

end

text \<open>
  The pointer is a small JSON object; \<open>serde_json\<close> prints every one of them, in far fewer than
  the 1024 bytes the repository allows.
\<close>

definition pointer_fits :: "'z codec_lib_scheme \<Rightarrow> bool" where
  "pointer_fits L \<longleftrightarrow>
     (\<forall>p. \<exists>e. pointer_to_json L p = Some e \<and> byte_len e \<le> MAX_ACTIVE_POINTER_BYTES)"

abbreviation pointer_for :: "slot_id \<Rightarrow> u64 \<Rightarrow> active_slot" where
  "pointer_for side g \<equiv> \<lparr>as_version = FORMAT_VERSION, as_slot = side, as_generation = g\<rparr>"

lemma stored_json_no_panic: "stored_json f n vs k \<noteq> Inl (Panic m)"
  by (auto simp: stored_json_def and_then_Inl split: option.splits)

lemma skip_err_stored: "skip_err (stored_json f n vs k) = Inr (result_ok (stored_json f n vs k))"
  using stored_json_no_panic [of f n vs k]
  by (auto simp: skip_err_def result_ok_def split: sum.splits vault_error.splits)

lemma pointer_to_stored:
  assumes "codec_laws L" and "pointer_to_json L (pointer_for side g) = Some p"
    and "byte_len p \<le> MAX_ACTIVE_POINTER_BYTES"
  shows "stored_pointer L (vs(ACTIVE_SLOT_KEY \<mapsto> p)) = Some (pointer_for side g)"
  using assms
  by (simp add: stored_pointer_def stored_json_def pointer_json_roundtrip pointer_validate_ok)

context lawful_storage
begin

lemma reliable_pointer:
  assumes "reliable s"
  obtains s' where "read_pointer L D s = (Inr (stored_pointer L (vals s)), s')"
    and "reliable s'" and "vals s' = vals s"
proof -
  obtain s' where s': "read_optional_json D (pointer_from_json L) ACTIVE_SLOT_KEY
        MAX_ACTIVE_POINTER_BYTES s
      = (stored_json (pointer_from_json L) MAX_ACTIVE_POINTER_BYTES (vals s) ACTIVE_SLOT_KEY, s')"
    "reliable s'" "vals s' = vals s"
    by (rule reliable_read [OF assms keys_not_empty(4)])
  have "read_pointer L D s = (Inr (stored_pointer L (vals s)), s')"
    using s'(1)
    by (simp add: read_pointer_def bindE_apply skip_errE_def skip_err_stored)
      (auto simp: stored_pointer_def result_ok_def is_ok_iff split: sum.splits option.splits)
  then show ?thesis using that s'(2,3) by blast
qed

lemma reliable_candidates:
  assumes "reliable s"
  shows "\<exists>s'. read_candidates L D i (map (\<lambda>side. (side, slot_key side)) sides) s
      = (Inr (concat (map (stored_slot L i (vals s)) sides)), s') \<and> reliable s' \<and> vals s' = vals s"
  using assms
proof (induction sides arbitrary: s)
  case (Cons side sides)
  obtain t where t: "read_optional_json D (slot_from_json L) (slot_key side) MAX_SLOT_JSON_BYTES s
      = (stored_json (slot_from_json L) MAX_SLOT_JSON_BYTES (vals s) (slot_key side), t)"
    "reliable t" "vals t = vals s"
    by (rule reliable_read [OF Cons.prems keys_not_empty(5)])
  obtain s' where s': "read_candidates L D i (map (\<lambda>side. (side, slot_key side)) sides) t
      = (Inr (concat (map (stored_slot L i (vals s)) sides)), s')" "reliable s'" "vals s' = vals s"
    using Cons.IH [OF t(2)] t(3) by auto
  have "(case result_ok (stored_json (slot_from_json L) MAX_SLOT_JSON_BYTES (vals s) (slot_key side)) of
          Some (Some slot) \<Rightarrow>
            if es_slot slot \<noteq> side \<or> \<not> is_ok (slot_validate slot i) then [] else [slot]
        | _ \<Rightarrow> []) = stored_slot L i (vals s) side"
    by (auto simp: stored_slot_def result_ok_def is_ok_iff split: sum.splits option.splits)
  then show ?case using t(1) s'
    by (simp add: bindE_apply skip_errE_def skip_err_stored Let_def)
qed simp

lemma open_reliable:
  assumes s: "reliable s" and fits: "pointer_fits L"
    and m: "stored_meta L (vals s) = Inr (Some m)" "meta_validate m = Inr ()"
    and kek: "derive_kek L pw (vm_vault_id m) (vm_kdf m) = Inr kek"
    and dek: "unwrap_dek L kek (vm_wrapped_dek m) (vm_vault_id m) = Inr dek"
    and sel: "select_candidate (stored_pointer L (vals s)) (all_candidates L dek m (vals s)) = Inr (slot, c)"
  obtains s' where
    "open_vault L D pw s = (Inr \<lparr>ov_vault = \<lparr>uv_container = c, uv_dek = dek,
         uv_persisted_slot = es_slot slot\<rparr>, ov_active_pointer_repaired =
         (stored_pointer L (vals s) \<noteq> Some (pointer_for (es_slot slot) (es_generation slot)))\<rparr>, s')"
    and "reliable s'"
    and "if stored_pointer L (vals s) = Some (pointer_for (es_slot slot) (es_generation slot))
      then vals s' = vals s
      else \<exists>p. pointer_to_json L (pointer_for (es_slot slot) (es_generation slot)) = Some p \<and>
        byte_len p \<le> MAX_ACTIVE_POINTER_BYTES \<and> vals s' = (vals s)(ACTIVE_SLOT_KEY \<mapsto> p)"
proof -
  obtain s1 where s1: "read_required_json D (meta_from_json L) META_KEY MAX_METADATA_JSON_BYTES s
      = (Inr m, s1)" "reliable s1" "vals s1 = vals s"
    by (rule reliable_read_required [OF s keys_not_empty(1) m(1)])
  obtain s2 where s2: "read_pointer L D s1 = (Inr (stored_pointer L (vals s)), s2)" "reliable s2"
    "vals s2 = vals s"
    using reliable_pointer [OF s1(2)] s1(3) by metis
  define slots where
    "slots = stored_slot L (vm_vault_id m) (vals s) A @ stored_slot L (vm_vault_id m) (vals s) B"
  define ptr where "ptr = stored_pointer L (vals s)"
  obtain s3 where s3: "read_candidates L D (vm_vault_id m) [(A, SLOT_A_KEY), (B, SLOT_B_KEY)] s2
      = (Inr slots, s3)" "reliable s3" "vals s3 = vals s"
    using reliable_candidates [OF s2(2), of L "vm_vault_id m" "[A, B]"] s2(3) by (auto simp: slots_def)
  have "list_all wf_slot slots" by (auto simp: slots_def list_all_iff dest: stored_slot_wf)
  then have dec: "decrypt_candidates L dek m slots = Inr (all_candidates L dek m (vals s))"
    by (simp add: decrypt_candidates_eq candidates_of_def slots_def)
  have ne: "slots \<noteq> []"
    using select_candidate_Inr(1) [OF sel] by (auto simp: candidates_of_def slots_def)
  let ?p = "pointer_for (es_slot slot) (es_generation slot)"
  let ?o = "\<lambda>b. \<lparr>ov_vault = \<lparr>uv_container = c, uv_dek = dek, uv_persisted_slot = es_slot slot\<rparr>,
    ov_active_pointer_repaired = b\<rparr>"
  have open_eq: "open_vault L D pw s =
      (if ptr \<noteq> Some ?p
       then bindE (write_json_verified D (pointer_to_json L) ACTIVE_SLOT_KEY ?p
              MAX_ACTIVE_POINTER_BYTES) (\<lambda>_. ret (?o (ptr \<noteq> Some ?p)))
       else ret (?o (ptr \<noteq> Some ?p))) s3"
    using s1(1) s2(1) [folded ptr_def] s3(1) ne dec m kek dek sel [folded ptr_def]
    by (simp add: open_vault_def bindE_apply Let_def split del: if_split)
  show ?thesis
  proof (cases "stored_pointer L (vals s) = Some ?p")
    case True
    with open_eq s3 show ?thesis by (intro that [of s3]) (simp_all add: ptr_def)
  next
    case False
    obtain p where p: "pointer_to_json L ?p = Some p" "byte_len p \<le> MAX_ACTIVE_POINTER_BYTES"
      using fits unfolding pointer_fits_def by blast
    obtain s4 where "write_json_verified D (pointer_to_json L) ACTIVE_SLOT_KEY ?p
        MAX_ACTIVE_POINTER_BYTES s3 = (Inr (), s4)" "reliable s4"
      "vals s4 = (vals s3)(ACTIVE_SLOT_KEY \<mapsto> p)"
      by (rule reliable_write [OF s3(2) keys_not_empty(4), where f = "pointer_to_json L", OF p])
    with False open_eq s3 p show ?thesis
      by (intro that [of s4]) (simp_all add: bindE_apply ptr_def)
  qed
qed

end

section \<open>What saving and initialising leave behind\<close>

context lawful_storage
begin

lemma store_slot_Inr:
  assumes "store_slot L D v target g slot s = (Inr stored, s')"
  obtains e p where "slot_to_json L slot = Some e" and "byte_len e \<le> MAX_SLOT_JSON_BYTES"
    and "slot_from_json L e = Some stored"
    and "slot_validate stored (vault_id_of v) = Inr ()" and "verify_next_slot L v stored = Inr ()"
    and "pointer_to_json L (pointer_for target g) = Some p"
    and "byte_len p \<le> MAX_ACTIVE_POINTER_BYTES"
    and "vals s' = (vals s)(slot_key target \<mapsto> e, ACTIVE_SLOT_KEY \<mapsto> p)"
proof -
  obtain s1 s2 where w1: "write_json_verified D (slot_to_json L) (slot_key target) slot
        MAX_SLOT_JSON_BYTES s = (Inr (), s1)"
    and rd: "read_required_json D (slot_from_json L) (slot_key target) MAX_SLOT_JSON_BYTES s1
      = (Inr stored, s2)"
    and chk: "slot_validate stored (vault_id_of v) = Inr ()" "verify_next_slot L v stored = Inr ()"
    and w2: "write_json_verified D (pointer_to_json L) ACTIVE_SLOT_KEY (pointer_for target g)
        MAX_ACTIVE_POINTER_BYTES s2 = (Inr (), s')"
    using assms by (auto simp: store_slot_def bindE_Inr)
  obtain e where e: "slot_to_json L slot = Some e" "byte_len e \<le> MAX_SLOT_JSON_BYTES"
    "vals s1 = (vals s)(slot_key target \<mapsto> e)"
    using w1 by (rule write_Inr)
  obtain p where p: "pointer_to_json L (pointer_for target g) = Some p"
    "byte_len p \<le> MAX_ACTIVE_POINTER_BYTES" "vals s' = (vals s2)(ACTIVE_SLOT_KEY \<mapsto> p)"
    using w2 by (rule write_Inr)
  have "slot_from_json L e = Some stored"
    using read_required_Inr(2) [OF rd] e(3) by (auto simp: stored_json_Some)
  with e p chk read_required_Inr(1) [OF rd] show ?thesis by (intro that) simp_all
qed

lemma store_slot_Inl:
  assumes "store_slot L D v target g slot s = (Inl d, s')"
  shows "vals s' = vals s \<or>
    (\<exists>e. slot_to_json L slot = Some e \<and> byte_len e \<le> MAX_SLOT_JSON_BYTES \<and>
       (vals s' = (vals s)(slot_key target \<mapsto> e) \<or>
        (\<exists>p. vals s' = (vals s)(slot_key target \<mapsto> e, ACTIVE_SLOT_KEY \<mapsto> p))))"
proof (cases "write_json_verified D (slot_to_json L) (slot_key target) slot MAX_SLOT_JSON_BYTES s")
  case (Pair res s1)
  show ?thesis
  proof (cases res)
    case (Inl x)
    with Pair assms have "write_json_verified D (slot_to_json L) (slot_key target) slot
        MAX_SLOT_JSON_BYTES s = (Inl x, s')"
      by (simp add: store_slot_def bindE_apply)
    from write_Inl [OF this] show ?thesis by blast
  next
    case (Inr u)
    with Pair obtain e where e: "slot_to_json L slot = Some e" "byte_len e \<le> MAX_SLOT_JSON_BYTES"
      "vals s1 = (vals s)(slot_key target \<mapsto> e)"
      by (auto elim: write_Inr)
    have rest: "bindE (read_required_json D (slot_from_json L) (slot_key target)
          MAX_SLOT_JSON_BYTES) (\<lambda>stored.
        bindE (lift (slot_validate stored (vault_id_of v))) (\<lambda>_.
        bindE (lift (verify_next_slot L v stored)) (\<lambda>_.
        bindE (write_json_verified D (pointer_to_json L) ACTIVE_SLOT_KEY (pointer_for target g)
          MAX_ACTIVE_POINTER_BYTES) (\<lambda>_. ret stored)))) s1 = (Inl d, s')"
      using assms Pair Inr by (simp add: store_slot_def bindE_apply)
    have "vals s' = vals s1 \<or> (\<exists>p. vals s' = (vals s1)(ACTIVE_SLOT_KEY \<mapsto> p))"
      using rest
      by (auto simp: bindE_Inl dest!: read_required_vals write_Inl)
    with e show ?thesis by auto
  qed
qed

text \<open>
  Initialisation stops before its first write, with all values as they were, or performs the
  three verified writes in order: slot, metadata, pointer.
\<close>

definition initial_writes ::
  "'z codec_lib_scheme \<Rightarrow> created_vault \<Rightarrow> ('s, vault_error, unit) eff" where
  "initial_writes L cv =
     bindE (write_json_verified D (slot_to_json L) (slot_key (es_slot (cv_initial_slot cv)))
              (cv_initial_slot cv) MAX_SLOT_JSON_BYTES) (\<lambda>_.
     bindE (write_json_verified D (meta_to_json L) META_KEY (cv_metadata cv)
              MAX_METADATA_JSON_BYTES) (\<lambda>_.
     bindE (write_json_verified D (pointer_to_json L) ACTIVE_SLOT_KEY (cv_active_slot cv)
              MAX_ACTIVE_POINTER_BYTES) (\<lambda>_. ret ())))"

lemma get_Inr: "ds_get D k s = (Inr x, s') \<Longrightarrow> vals s k = x \<and> vals s' = vals s"
  using get_ok get_vals by blast

lemma get_Inl: "ds_get D k s = (Inl e, s') \<Longrightarrow> vals s' = vals s"
  by (rule get_vals)

lemma initialize_eq:
  "initialize L D cv =
     bindE (lift (meta_validate (cv_metadata cv))) (\<lambda>_.
     bindE (lift (slot_validate (cv_initial_slot cv) (vm_vault_id (cv_metadata cv)))) (\<lambda>_.
     bindE (lift (pointer_validate (cv_active_slot cv))) (\<lambda>_.
     if es_slot (cv_initial_slot cv) \<noteq> as_slot (cv_active_slot cv)
        \<or> es_generation (cv_initial_slot cv) \<noteq> as_generation (cv_active_slot cv)
       then lift (Inl (InvalidSlot ''initial slot and active pointer do not match''))
     else
       bindE (map_errE Storage (ds_get D META_KEY)) (\<lambda>existing.
       if existing \<noteq> None then lift (Inl AlreadyInitialized) else initial_writes L cv))))"
  unfolding initialize_def initial_writes_def ..

lemma initialize_cases:
  assumes "initialize L D cv s = (res, s')"
  obtains (refused) e where "res = Inl e" and "vals s' = vals s"
  | (written) s0 where "vals s0 = vals s" and "vals s META_KEY = None"
      and "as_slot (cv_active_slot cv) = es_slot (cv_initial_slot cv)"
      and "as_generation (cv_active_slot cv) = es_generation (cv_initial_slot cv)"
      and "pointer_validate (cv_active_slot cv) = Inr ()"
      and "initial_writes L cv s0 = (res, s')"
proof (cases res)
  case (Inl d)
  with assms refused written show ?thesis
    by (auto simp: initialize_eq bindE_Inl map_errE_Inl split: if_splits dest!: get_Inr get_Inl)
next
  case (Inr u)
  with assms written show ?thesis
    by (auto simp: initialize_eq bindE_Inr split: if_splits dest!: get_Inr)
qed

lemma initial_writes_Inr:
  assumes "initial_writes L cv s = (Inr u, s')"
  obtains e mj p where "slot_to_json L (cv_initial_slot cv) = Some e"
    and "byte_len e \<le> MAX_SLOT_JSON_BYTES"
    and "meta_to_json L (cv_metadata cv) = Some mj" and "byte_len mj \<le> MAX_METADATA_JSON_BYTES"
    and "pointer_to_json L (cv_active_slot cv) = Some p" and "byte_len p \<le> MAX_ACTIVE_POINTER_BYTES"
    and "vals s' = (vals s)(slot_key (es_slot (cv_initial_slot cv)) \<mapsto> e, META_KEY \<mapsto> mj,
      ACTIVE_SLOT_KEY \<mapsto> p)"
  using assms unfolding initial_writes_def bindE_Inr
  by (elim exE conjE write_Inr) simp

text \<open>Whenever the metadata has appeared, the slot it describes is already there.\<close>

lemma initial_writes_order:
  assumes w: "initial_writes L cv s = (res, s')" and none: "vals s META_KEY = None"
    and some: "vals s' META_KEY \<noteq> None"
  obtains e mj p where "slot_to_json L (cv_initial_slot cv) = Some e"
    and "byte_len e \<le> MAX_SLOT_JSON_BYTES"
    and "meta_to_json L (cv_metadata cv) = Some mj" and "byte_len mj \<le> MAX_METADATA_JSON_BYTES"
    and "vals s' = (vals s)(slot_key (es_slot (cv_initial_slot cv)) \<mapsto> e, META_KEY \<mapsto> mj) \<or>
      vals s' = (vals s)(slot_key (es_slot (cv_initial_slot cv)) \<mapsto> e, META_KEY \<mapsto> mj,
        ACTIVE_SLOT_KEY \<mapsto> p)"
proof (cases res)
  case (Inr u)
  with w show ?thesis using that by (auto elim!: initial_writes_Inr)
next
  case (Inl d)
  let ?W1 = "write_json_verified D (slot_to_json L) (slot_key (es_slot (cv_initial_slot cv)))
    (cv_initial_slot cv) MAX_SLOT_JSON_BYTES"
  let ?W2 = "write_json_verified D (meta_to_json L) META_KEY (cv_metadata cv)
    MAX_METADATA_JSON_BYTES"
  have not1: "?W1 s \<noteq> (Inl d, s')"
    using none some by (auto dest!: write_Inl)
  with w Inl obtain s1 where s1: "?W1 s = (Inr (), s1)"
    and rest: "bindE ?W2 (\<lambda>_. bindE (write_json_verified D (pointer_to_json L) ACTIVE_SLOT_KEY
        (cv_active_slot cv) MAX_ACTIVE_POINTER_BYTES) (\<lambda>_. ret ())) s1 = (Inl d, s')"
    by (auto simp: initial_writes_def bindE_Inl)
  obtain e where e: "slot_to_json L (cv_initial_slot cv) = Some e" "byte_len e \<le> MAX_SLOT_JSON_BYTES"
    "vals s1 = (vals s)(slot_key (es_slot (cv_initial_slot cv)) \<mapsto> e)"
    using s1 by (rule write_Inr)
  from rest consider "?W2 s1 = (Inl d, s')"
    | s2 where "?W2 s1 = (Inr (), s2)" "write_json_verified D (pointer_to_json L) ACTIVE_SLOT_KEY
        (cv_active_slot cv) MAX_ACTIVE_POINTER_BYTES s2 = (Inl d, s')"
    by (auto simp: bindE_Inl)
  then show ?thesis
  proof cases
    case 1
    from write_Inl [OF this] show ?thesis using that e none some by auto
  next
    case 2
    from 2(1) obtain mj where "meta_to_json L (cv_metadata cv) = Some mj"
      "byte_len mj \<le> MAX_METADATA_JSON_BYTES" "vals s2 = (vals s1)(META_KEY \<mapsto> mj)"
      by (rule write_Inr)
    with write_Inl [OF 2(2)] show ?thesis using that e by auto
  qed
qed

lemma clear_keys_Inr:
  "clear_keys D ks s = (Inr u, s') \<Longrightarrow> vals s' = (\<lambda>k. if k \<in> set ks then None else vals s k)"
proof (induction ks arbitrary: s)
  case (Cons k ks)
  from Cons.prems obtain s1 s2 where "ds_remove D k s = (Inr (), s1)"
    "ds_get D k s1 = (Inr None, s2)" "clear_keys D ks s2 = (Inr u, s')"
    by (auto simp: bindE_Inr split: if_splits)
  with Cons.IH [of s2] remove_ok [of k s _ s1] get_vals [of k s1 _ s2] show ?case by auto
qed simp

lemma reliable_clear:
  "reliable s \<Longrightarrow> [] \<notin> set ks \<Longrightarrow> \<exists>s'. clear_keys D ks s = (Inr (), s') \<and> reliable s'"
proof (induction ks arbitrary: s)
  case (Cons k ks)
  obtain s1 where s1: "ds_remove D k s = (Inr (), s1)" "reliable s1"
    using reliable_remove [OF Cons.prems(1), of k] Cons.prems(2) by auto
  obtain s2 where s2: "ds_get D k s1 = (Inr (vals s1 k), s2)" "reliable s2"
    using reliable_get [OF s1(2), of k] Cons.prems(2) by auto
  have "vals s1 k = None" using remove_ok [OF s1(1)] by simp
  with s1 s2 Cons.IH [OF s2(2)] Cons.prems(2) show ?case by (simp add: bindE_apply map_errE_apply)
qed simp

end

end
