(* ===== verification/Simulation.thy ===== *)
theory Simulation
  imports Prelude
begin

text \<open>
  The interface between a component and its abstract specification. A component is a step
  function over its own state that answers a command with an outcome; the specification is a
  relation on abstract states. The locale \<open>simulation\<close> asks for an invariant and for one
  simulation law per step, and gives the corresponding facts for whole sequences of commands.
\<close>

section \<open>Sequences of commands\<close>

fun run_all :: "('c \<Rightarrow> 's \<Rightarrow> 'o \<times> 's) \<Rightarrow> 'c list \<Rightarrow> 's \<Rightarrow> 'o list \<times> 's" where
  "run_all step [] s = ([], s)"
| "run_all step (c # cs) s =
     (let (out, s') = step c s; (outs, s'') = run_all step cs s' in (out # outs, s''))"

text \<open>An abstract run: every command with its outcome is one step of the specification.\<close>

inductive spec_run ::
  "('c \<Rightarrow> 'o \<Rightarrow> 'a \<Rightarrow> 'a \<Rightarrow> bool) \<Rightarrow> 'c list \<Rightarrow> 'o list \<Rightarrow> 'a \<Rightarrow> 'a \<Rightarrow> bool"
  for spec :: "'c \<Rightarrow> 'o \<Rightarrow> 'a \<Rightarrow> 'a \<Rightarrow> bool" where
  spec_run_Nil: "spec_run spec [] [] a a"
| spec_run_Cons:
    "spec c out a a' \<Longrightarrow> spec_run spec cs outs a' a'' \<Longrightarrow> spec_run spec (c # cs) (out # outs) a a''"

inductive_simps spec_run_simps [simp]:
  "spec_run spec [] outs a b"
  "spec_run spec (c # cs) outs a b"

section \<open>The simulation interface\<close>

locale simulation =
  fixes step :: "'c \<Rightarrow> 's \<Rightarrow> 'o \<times> 's"
    and inv :: "'s \<Rightarrow> bool"
    and abs_state :: "'s \<Rightarrow> 'a"
    and spec :: "'c \<Rightarrow> 'o \<Rightarrow> 'a \<Rightarrow> 'a \<Rightarrow> bool"
  assumes step_inv: "inv s \<Longrightarrow> step c s = (out, s') \<Longrightarrow> inv s'"
    and step_spec: "inv s \<Longrightarrow> step c s = (out, s') \<Longrightarrow> spec c out (abs_state s) (abs_state s')"
begin

lemma run_inv: "inv s \<Longrightarrow> run_all step cs s = (outs, s') \<Longrightarrow> inv s'"
  by (induction cs arbitrary: s outs) (auto simp: Let_def split: prod.splits dest: step_inv)

lemma run_spec:
  "inv s \<Longrightarrow> run_all step cs s = (outs, s') \<Longrightarrow> spec_run spec cs outs (abs_state s) (abs_state s')"
proof (induction cs arbitrary: s outs)
  case (Cons c cs)
  obtain out t where c: "step c s = (out, t)" by fastforce
  with Cons.prems obtain outs' where "run_all step cs t = (outs', s')" "outs = out # outs'"
    by (auto simp: Let_def split: prod.splits)
  with Cons c show ?case using step_inv [OF _ c] step_spec [OF _ c] by auto
qed simp

text \<open>A relation that every abstract step has, and that composes, holds from end to end.\<close>

lemma run_rel:
  assumes "\<And>c out a b. spec c out a b \<Longrightarrow> R a b" and "\<And>a. R a a"
    and "\<And>a b c. R a b \<Longrightarrow> R b c \<Longrightarrow> R a c"
    and "inv s" and "run_all step cs s = (outs, s')"
  shows "R (abs_state s) (abs_state s')"
  using run_spec [OF assms(4,5)]
proof (induction rule: spec_run.induct)
  case (spec_run_Cons c out a a' cs outs a'')
  then show ?case using assms(1,3) by blast
qed (rule assms(2))

end

end
