(* ===== verification/Vault_Entries.thy ===== *)
theory Vault_Entries
  imports Vault Simulation
begin

text \<open>
  The entry operations of \<open>UnlockedVault\<close> (\<open>crates/vault-core/src/vault.rs\<close>): adding an entry
  under a fresh random identifier, replacing the fields of an entry, deleting one. Their
  abstract specification is a finite map from identifiers to entries with a logical clock; the
  interpretation of \<open>simulation\<close> at the end shows that sequences of operations follow it.
\<close>

section \<open>Operations\<close>

definition MAX_ID_GENERATION_ATTEMPTS :: nat where
  "MAX_ID_GENERATION_ATTEMPTS = 8"

text \<open>The loop \<open>for _ in 0..MAX_ID_GENERATION_ATTEMPTS\<close>; the number counts the attempts left.\<close>

fun generate_entry_id_loop ::
  "('r, 'z) deps_scheme \<Rightarrow> vault_entry list \<Rightarrow> nat \<Rightarrow> ('r, vault_error, entry_id) eff" where
  "generate_entry_id_loop L entries 0 = lift (Inl RandomGenerationFailed)"
| "generate_entry_id_loop L entries (Suc attempts) =
     bindE (random_array L ID_BYTES) (\<lambda>bs.
     let eid = EntryId bs in
     if list_all (\<lambda>entry. ve_id entry \<noteq> eid) entries then ret eid
     else generate_entry_id_loop L entries attempts)"

definition generate_unique_entry_id ::
  "('r, 'z) deps_scheme \<Rightarrow> unlocked_vault \<Rightarrow> ('r, vault_error, entry_id) eff" where
  "generate_unique_entry_id L v =
     generate_entry_id_loop L (vc_entries (uv_container v)) MAX_ID_GENERATION_ATTEMPTS"

definition add_entry ::
  "('r, 'z) deps_scheme \<Rightarrow> new_vault_entry \<Rightarrow> u64
     \<Rightarrow> (unlocked_vault \<times> 'r, vault_error, entry_id) eff" where
  "add_entry L input now = (\<lambda>(v, r).
     case validate_entry_fields (ne_title input) (ne_secret input) (ne_description input) of
       Inl e \<Rightarrow> (Inl e, (v, r))
     | Inr _ \<Rightarrow>
         if length (vc_entries (uv_container v)) \<ge> MAX_ENTRIES then (Inl VaultTooLarge, (v, r))
         else
           (case generate_unique_entry_id L v r of
              (Inl e, r') \<Rightarrow> (Inl e, (v, r'))
            | (Inr eid, r') \<Rightarrow>
                let timestamp = max now (vc_updated_at (uv_container v));
                    entry = \<lparr>ve_id = eid, ve_title = ne_title input, ve_secret = ne_secret input,
                             ve_description = ne_description input, ve_created_at = timestamp,
                             ve_updated_at = timestamp\<rparr>;
                    container = (uv_container v)
                      \<lparr>vc_entries := vc_entries (uv_container v) @ [entry],
                       vc_updated_at := timestamp\<rparr>
                in (Inr eid, (v\<lparr>uv_container := container\<rparr>, r'))))"

text \<open>\<open>iter_mut().find(p)\<close> followed by an assignment through the reference it found.\<close>

fun iter_mut_find :: "('a \<Rightarrow> bool) \<Rightarrow> ('a \<Rightarrow> 'a) \<Rightarrow> 'a list \<Rightarrow> 'a list option" where
  "iter_mut_find p f [] = None"
| "iter_mut_find p f (x # xs) =
     (if p x then Some (f x # xs) else map_option ((#) x) (iter_mut_find p f xs))"

definition update_entry ::
  "update_vault_entry \<Rightarrow> u64 \<Rightarrow> unlocked_vault \<Rightarrow> unit result \<times> unlocked_vault" where
  "update_entry input now v =
     (case validate_entry_fields (ue_title input) (ue_secret input) (ue_description input) of
        Inl e \<Rightarrow> (Inl e, v)
      | Inr _ \<Rightarrow>
          let timestamp = max now (vc_updated_at (uv_container v)) in
          case iter_mut_find (\<lambda>entry. ve_id entry = ue_id input)
                 (\<lambda>entry. entry\<lparr>ve_title := ue_title input, ve_secret := ue_secret input,
                    ve_description := ue_description input,
                    ve_updated_at := max timestamp (ve_created_at entry)\<rparr>)
                 (vc_entries (uv_container v)) of
            None \<Rightarrow> (Inl EntryNotFound, v)
          | Some entries \<Rightarrow>
              (Inr (), v\<lparr>uv_container := (uv_container v)
                 \<lparr>vc_entries := entries, vc_updated_at := timestamp\<rparr>\<rparr>))"

text \<open>\<open>iter().position(p)\<close> and \<open>Vec::remove\<close>, which panics when the index is out of range.\<close>

fun iter_position :: "('a \<Rightarrow> bool) \<Rightarrow> 'a list \<Rightarrow> nat option" where
  "iter_position p [] = None"
| "iter_position p (x # xs) = (if p x then Some 0 else map_option Suc (iter_position p xs))"

definition vec_remove :: "nat \<Rightarrow> 'a list \<Rightarrow> 'a list result" where
  "vec_remove index xs =
     (if index < length xs then Inr (take index xs @ drop (Suc index) xs)
      else Inl (Panic ''removal index is out of bounds''))"

definition delete_entry ::
  "entry_id \<Rightarrow> u64 \<Rightarrow> unlocked_vault \<Rightarrow> unit result \<times> unlocked_vault" where
  "delete_entry eid now v =
     (case iter_position (\<lambda>entry. ve_id entry = eid) (vc_entries (uv_container v)) of
        None \<Rightarrow> (Inl EntryNotFound, v)
      | Some index \<Rightarrow>
          (case vec_remove index (vc_entries (uv_container v)) of
             Inl e \<Rightarrow> (Inl e, v)
           | Inr entries \<Rightarrow>
               (Inr (), v\<lparr>uv_container := (uv_container v)
                  \<lparr>vc_entries := entries,
                   vc_updated_at := max now (vc_updated_at (uv_container v))\<rparr>\<rparr>)))"

section \<open>List lemmas\<close>

lemma iter_mut_find_None: "iter_mut_find p f xs = None \<longleftrightarrow> list_all (\<lambda>x. \<not> p x) xs"
  by (induction xs) auto

lemma iter_mut_find_Some: "iter_mut_find p f xs = Some ys \<Longrightarrow> \<exists>x \<in> set xs. p x"
  by (induction xs arbitrary: ys) (auto split: if_splits)

lemma iter_position_Some: "iter_position p xs = Some i \<Longrightarrow> \<exists>x \<in> set xs. p x"
  by (induction xs arbitrary: i) (auto split: if_splits)

lemma iter_position_None: "iter_position p xs = None \<longleftrightarrow> list_all (\<lambda>x. \<not> p x) xs"
  by (induction xs) auto

lemma iter_position_less: "iter_position p xs = Some i \<Longrightarrow> i < length xs"
  by (induction xs arbitrary: i) (auto split: if_splits)

lemma distinct_key_tail: "distinct (map k (x # xs)) \<Longrightarrow> k x = i \<Longrightarrow> \<forall>y \<in> set xs. k y \<noteq> i"
  by (metis distinct.simps(2) imageI list.map(2) list.set_map)

text \<open>Under a key that occurs at most once, both change every element with that key.\<close>

lemma iter_mut_find_key:
  "distinct (map k xs) \<Longrightarrow> iter_mut_find (\<lambda>x. k x = i) f xs = Some ys \<Longrightarrow>
   ys = map (\<lambda>x. if k x = i then f x else x) xs \<and> i \<in> k ` set xs"
proof (induction xs arbitrary: ys)
  case (Cons x xs)
  show ?case
  proof (cases "k x = i")
    case True
    with Cons.prems have "\<forall>y \<in> set xs. k y \<noteq> i" by (intro distinct_key_tail)
    then have "map (\<lambda>x. if k x = i then f x else x) xs = xs" by (intro map_idI) simp
    with True Cons.prems show ?thesis by simp
  qed (use Cons in auto)
qed simp

lemma remove_position_key:
  "distinct (map k xs) \<Longrightarrow> iter_position (\<lambda>x. k x = i) xs = Some n \<Longrightarrow>
   take n xs @ drop (Suc n) xs = filter (\<lambda>x. k x \<noteq> i) xs \<and> i \<in> k ` set xs"
proof (induction xs arbitrary: n)
  case (Cons x xs)
  show ?case
  proof (cases "k x = i")
    case True
    with Cons.prems have "\<forall>y \<in> set xs. k y \<noteq> i" by (intro distinct_key_tail)
    with True Cons.prems show ?thesis by simp
  qed (use Cons in auto)
qed simp

section \<open>What the operations return\<close>

lemma generate_entry_id_loop_fresh:
  "generate_entry_id_loop L es n r = (Inr eid, r') \<Longrightarrow> eid \<notin> ve_id ` set es"
  by (induction n arbitrary: r) (auto simp: bindE_Inr Let_def list_all_iff split: if_splits)

lemma generate_entry_id_loop_wf:
  "rng_laws L \<Longrightarrow> generate_entry_id_loop L es n r = (Inr eid, r') \<Longrightarrow> wf_entry_id eid"
  by (induction n arbitrary: r)
    (auto simp: bindE_Inr Let_def wf_entry_id_def ID_BYTES_def dest: random_array_length
      split: if_splits)

lemma generate_entry_id_loop_err:
  "generate_entry_id_loop L es n r = (Inl e, r') \<Longrightarrow> e = RandomGenerationFailed"
  by (induction n arbitrary: r) (auto simp: bindE_Inl Let_def dest: random_array_err split: if_splits)

definition added_entry :: "new_vault_entry \<Rightarrow> u64 \<Rightarrow> u64 \<Rightarrow> entry_id \<Rightarrow> vault_entry" where
  "added_entry input now clock eid =
     \<lparr>ve_id = eid, ve_title = ne_title input, ve_secret = ne_secret input,
      ve_description = ne_description input, ve_created_at = max now clock,
      ve_updated_at = max now clock\<rparr>"

definition updated_entry :: "update_vault_entry \<Rightarrow> u64 \<Rightarrow> u64 \<Rightarrow> vault_entry \<Rightarrow> vault_entry" where
  "updated_entry input now clock entry =
     entry\<lparr>ve_title := ue_title input, ve_secret := ue_secret input,
       ve_description := ue_description input,
       ve_updated_at := max (max now clock) (ve_created_at entry)\<rparr>"

lemma added_entry_id [simp]: "ve_id (added_entry n t c i) = i"
  by (simp add: added_entry_def)

lemma updated_entry_id [simp]: "ve_id (updated_entry u t c e) = ve_id e"
  by (simp add: updated_entry_def)

definition clock_of :: "unlocked_vault \<Rightarrow> u64" where
  "clock_of v = vc_updated_at (uv_container v)"

abbreviation with_entries :: "unlocked_vault \<Rightarrow> vault_entry list \<Rightarrow> u64 \<Rightarrow> unlocked_vault" where
  "with_entries v es t \<equiv>
     v\<lparr>uv_container := (uv_container v)\<lparr>vc_entries := es, vc_updated_at := t\<rparr>\<rparr>"

lemma add_entry_Inr:
  "add_entry L input now (v, r) = (Inr eid, (v', r')) \<longleftrightarrow>
     entry_fields_ok (ne_title input) (ne_secret input) (ne_description input) \<and>
     length (entries_of v) < MAX_ENTRIES \<and>
     generate_unique_entry_id L v r = (Inr eid, r') \<and>
     v' = with_entries v (entries_of v @ [added_entry input now (clock_of v) eid])
            (max now (clock_of v))"
  unfolding validate_entry_fields_ok [symmetric]
  by (auto simp: add_entry_def added_entry_def entries_of_def clock_of_def Let_def
      split: sum.splits prod.splits if_splits)

lemma add_entry_Inl:
  "add_entry L input now (v, r) = (Inl e, (v', r')) \<longleftrightarrow> v' = v \<and>
     (case validate_entry_fields (ne_title input) (ne_secret input) (ne_description input) of
        Inl d \<Rightarrow> e = d \<and> r' = r
      | Inr _ \<Rightarrow> if length (entries_of v) \<ge> MAX_ENTRIES then e = VaultTooLarge \<and> r' = r
          else generate_unique_entry_id L v r = (Inl e, r'))"
  by (auto simp: add_entry_def entries_of_def Let_def split: sum.splits prod.splits if_splits)

lemma update_entry_Inr:
  assumes "distinct (map ve_id (entries_of v))"
  shows "update_entry input now v = (Inr (), v') \<longleftrightarrow>
     entry_fields_ok (ue_title input) (ue_secret input) (ue_description input) \<and>
     ue_id input \<in> ve_id ` set (entries_of v) \<and>
     v' = with_entries v (map (\<lambda>e. if ve_id e = ue_id input
            then updated_entry input now (clock_of v) e else e) (entries_of v))
            (max now (clock_of v))"
  using assms iter_mut_find_key [of ve_id "entries_of v" "ue_id input"]
  unfolding validate_entry_fields_ok [symmetric]
  by (fastforce simp: update_entry_def updated_entry_def entries_of_def clock_of_def Let_def
      iter_mut_find_None list_all_iff split: sum.splits option.splits)

lemma update_entry_Inl:
  "update_entry input now v = (Inl e, v') \<longleftrightarrow> v' = v \<and>
     (case validate_entry_fields (ue_title input) (ue_secret input) (ue_description input) of
        Inl d \<Rightarrow> e = d
      | Inr _ \<Rightarrow> e = EntryNotFound \<and> ue_id input \<notin> ve_id ` set (entries_of v))"
  by (auto simp: update_entry_def entries_of_def Let_def iter_mut_find_None list_all_iff
      dest!: iter_mut_find_Some intro: rev_image_eqI split: sum.splits option.splits)

lemma delete_entry_Inr:
  assumes "distinct (map ve_id (entries_of v))"
  shows "delete_entry eid now v = (Inr (), v') \<longleftrightarrow>
     eid \<in> ve_id ` set (entries_of v) \<and>
     v' = with_entries v (filter (\<lambda>e. ve_id e \<noteq> eid) (entries_of v)) (max now (clock_of v))"
  using assms remove_position_key [of ve_id "entries_of v" eid]
  by (fastforce simp: delete_entry_def vec_remove_def entries_of_def clock_of_def
      iter_position_None list_all_iff dest: iter_position_less split: option.splits)

lemma delete_entry_Inl:
  "delete_entry eid now v = (Inl e, v') \<longleftrightarrow>
     v' = v \<and> e = EntryNotFound \<and> eid \<notin> ve_id ` set (entries_of v)"
  by (auto simp: delete_entry_def vec_remove_def entries_of_def iter_position_None list_all_iff
      dest: iter_position_less iter_position_Some split: option.splits)

section \<open>The container stays valid\<close>

lemma wf_vault_facts:
  assumes "wf_vault v"
  shows "distinct (map ve_id (entries_of v))" and "length (entries_of v) \<le> MAX_ENTRIES"
    and "\<forall>e \<in> set (entries_of v). entry_ok e \<and> entry_in_timeline (uv_container v) e"
    and "\<forall>e \<in> set (entries_of v). wf_entry_id (ve_id e)"
    and "vc_created_at (uv_container v) \<le> clock_of v"
  using assms
  by (simp_all add: wf_vault_def container_ok_def wf_container_def entries_of_def clock_of_def)

text \<open>A change of the entries at a later time keeps the vault well formed.\<close>

lemma wf_vault_with_entries:
  assumes "wf_vault v" and "distinct (map ve_id es)" and "length es \<le> MAX_ENTRIES"
    and "clock_of v \<le> t"
    and "\<forall>e \<in> set es. entry_ok e \<and> wf_entry_id (ve_id e)
      \<and> vc_created_at (uv_container v) \<le> ve_created_at e \<and> ve_updated_at e \<le> t"
  shows "wf_vault (with_entries v es t)"
  using assms
  by (auto simp: wf_vault_def container_ok_def wf_container_def entry_in_timeline_def clock_of_def)

lemma added_entry_ok:
  assumes "entry_fields_ok (ne_title input) (ne_secret input) (ne_description input)"
  shows "entry_ok (added_entry input now t eid)"
    and "ve_created_at (added_entry input now t eid) = max now t"
    and "ve_updated_at (added_entry input now t eid) = max now t"
  using assms by (simp_all add: added_entry_def entry_ok_def)

text \<open>Entries lie before the clock, so an update always stamps \<open>max now clock\<close>.\<close>

lemma updated_entry_ok:
  assumes "entry_fields_ok (ue_title input) (ue_secret input) (ue_description input)"
    and "entry_ok e" and "ve_updated_at e \<le> t"
  shows "entry_ok (updated_entry input now t e)"
    and "ve_created_at (updated_entry input now t e) = ve_created_at e"
    and "ve_updated_at (updated_entry input now t e) = max now t"
proof -
  have "ve_created_at e \<le> t" using assms(2,3) by (auto simp: entry_ok_def)
  then show "ve_updated_at (updated_entry input now t e) = max now t"
    by (auto simp: updated_entry_def max_def)
  then show "entry_ok (updated_entry input now t e)"
    using assms(1) \<open>ve_created_at e \<le> t\<close>
    by (auto simp: updated_entry_def entry_ok_def le_max_iff_disj)
qed (simp add: updated_entry_def)

lemma add_entry_wf:
  assumes v: "wf_vault v" and L: "rng_laws L"
    and add: "add_entry L input now (v, r) = (Inr eid, (v', r'))"
  shows "wf_vault v'"
proof -
  let ?e = "added_entry input now (clock_of v) eid"
  have *: "entry_fields_ok (ne_title input) (ne_secret input) (ne_description input)"
    "length (entries_of v) < MAX_ENTRIES"
    "generate_entry_id_loop L (entries_of v) MAX_ID_GENERATION_ATTEMPTS r = (Inr eid, r')"
    "v' = with_entries v (entries_of v @ [?e]) (max now (clock_of v))"
    using add by (simp_all add: add_entry_Inr generate_unique_entry_id_def entries_of_def)
  have "eid \<notin> ve_id ` set (entries_of v)" and "wf_entry_id eid"
    using *(3) L by (auto dest: generate_entry_id_loop_fresh generate_entry_id_loop_wf)
  then show ?thesis unfolding *(4)
    using *(2) added_entry_ok [OF *(1)] wf_vault_facts [OF v]
    by (intro wf_vault_with_entries [OF v])
      (auto simp: entry_in_timeline_def clock_of_def le_max_iff_disj)
qed

lemma update_entry_wf:
  assumes v: "wf_vault v" and upd: "update_entry input now v = (Inr (), v')"
  shows "wf_vault v'"
proof -
  let ?f = "\<lambda>e. if ve_id e = ue_id input then updated_entry input now (clock_of v) e else e"
  have *: "entry_fields_ok (ue_title input) (ue_secret input) (ue_description input)"
    "v' = with_entries v (map ?f (entries_of v)) (max now (clock_of v))"
    using upd by (simp_all add: update_entry_Inr wf_vault_facts [OF v])
  have ids: "map ve_id (map ?f (entries_of v)) = map ve_id (entries_of v)" by simp
  have ok: "entry_ok (?f e) \<and> wf_entry_id (ve_id (?f e))
      \<and> vc_created_at (uv_container v) \<le> ve_created_at (?f e)
      \<and> ve_updated_at (?f e) \<le> max now (clock_of v)" if "e \<in> set (entries_of v)" for e
    using updated_entry_ok [OF *(1), of e "clock_of v" now] wf_vault_facts(3,4) [OF v] that
    by (auto simp: entry_in_timeline_def clock_of_def le_max_iff_disj)
  show ?thesis unfolding *(2)
  proof (rule wf_vault_with_entries [OF v])
    show "distinct (map ve_id (map ?f (entries_of v)))"
      using wf_vault_facts(1) [OF v] by (simp only: ids)
    show "length (map ?f (entries_of v)) \<le> MAX_ENTRIES" using wf_vault_facts(2) [OF v] by simp
  qed (simp, use ok in \<open>simp only: set_map ball_simps, blast\<close>)
qed

lemma delete_entry_wf:
  assumes v: "wf_vault v" and del: "delete_entry eid now v = (Inr (), v')"
  shows "wf_vault v'"
proof -
  have *: "v' = with_entries v (filter (\<lambda>e. ve_id e \<noteq> eid) (entries_of v)) (max now (clock_of v))"
    using del by (simp add: delete_entry_Inr wf_vault_facts [OF v])
  have "length (filter (\<lambda>e. ve_id e \<noteq> eid) (entries_of v)) \<le> MAX_ENTRIES"
    using wf_vault_facts(2) [OF v] length_filter_le order_trans by blast
  with wf_vault_facts [OF v] show ?thesis unfolding *
    by (intro wf_vault_with_entries [OF v])
      (auto simp: entry_in_timeline_def clock_of_def le_max_iff_disj distinct_map_filter)
qed

section \<open>The abstract specification: a map with a clock\<close>

type_synonym entry_view = "(entry_id \<Rightarrow> vault_entry option) \<times> u64"

definition view :: "unlocked_vault \<Rightarrow> entry_view" where
  "view v = (map_of (map (\<lambda>e. (ve_id e, e)) (entries_of v)), clock_of v)"

datatype entry_command =
    Add new_vault_entry u64
  | Update update_vault_entry u64
  | Delete entry_id u64

datatype entry_outcome = Added entry_id | Done | Failed vault_error

text \<open>
  What a command may do to the map. Only three outcomes change anything; every error leaves the
  map and the clock alone and is justified by the state: bad fields, a full vault, an unknown
  identifier, or (for an addition only) the random source.
\<close>

inductive entry_spec ::
  "entry_command \<Rightarrow> entry_outcome \<Rightarrow> entry_view \<Rightarrow> entry_view \<Rightarrow> bool" where
  spec_add:
    "entry_fields_ok (ne_title n) (ne_secret n) (ne_description n) \<Longrightarrow> card (dom m) < MAX_ENTRIES \<Longrightarrow>
     m i = None \<Longrightarrow>
     entry_spec (Add n now) (Added i) (m, t) (m(i \<mapsto> added_entry n now t i), max now t)"
| spec_update:
    "entry_fields_ok (ue_title u) (ue_secret u) (ue_description u) \<Longrightarrow> m (ue_id u) = Some e \<Longrightarrow>
     entry_spec (Update u now) Done (m, t) (m(ue_id u \<mapsto> updated_entry u now t e), max now t)"
| spec_delete:
    "m i \<noteq> None \<Longrightarrow> entry_spec (Delete i now) Done (m, t) (m(i := None), max now t)"
| spec_bad_fields_add:
    "\<not> entry_fields_ok (ne_title n) (ne_secret n) (ne_description n) \<Longrightarrow>
     entry_spec (Add n now) (Failed (InvalidContainer msg)) a a"
| spec_full:
    "card (dom m) = MAX_ENTRIES \<Longrightarrow> entry_spec (Add n now) (Failed VaultTooLarge) (m, t) (m, t)"
| spec_no_random:
    "card (dom m) < MAX_ENTRIES \<Longrightarrow>
     entry_spec (Add n now) (Failed RandomGenerationFailed) (m, t) (m, t)"
| spec_bad_fields_update:
    "\<not> entry_fields_ok (ue_title u) (ue_secret u) (ue_description u) \<Longrightarrow>
     entry_spec (Update u now) (Failed (InvalidContainer msg)) a a"
| spec_unknown_update:
    "m (ue_id u) = None \<Longrightarrow> entry_spec (Update u now) (Failed EntryNotFound) (m, t) (m, t)"
| spec_unknown_delete:
    "m i = None \<Longrightarrow> entry_spec (Delete i now) (Failed EntryNotFound) (m, t) (m, t)"

inductive_cases entry_spec_AddedE: "entry_spec c (Added i) a b"
inductive_cases entry_spec_DoneE: "entry_spec c Done a b"
inductive_cases entry_spec_FailedE: "entry_spec c (Failed e) a b"

text \<open>The concrete step: one call of the operation the command names.\<close>

fun entry_step ::
  "('r, 'z) deps_scheme \<Rightarrow> entry_command \<Rightarrow> unlocked_vault \<times> 'r
     \<Rightarrow> entry_outcome \<times> (unlocked_vault \<times> 'r)" where
  "entry_step L (Add n now) (v, r) =
     (case add_entry L n now (v, r) of
        (Inl e, s) \<Rightarrow> (Failed e, s) | (Inr i, s) \<Rightarrow> (Added i, s))"
| "entry_step L (Update u now) (v, r) =
     (case update_entry u now v of
        (Inl e, v') \<Rightarrow> (Failed e, (v', r)) | (Inr _, v') \<Rightarrow> (Done, (v', r)))"
| "entry_step L (Delete i now) (v, r) =
     (case delete_entry i now v of
        (Inl e, v') \<Rightarrow> (Failed e, (v', r)) | (Inr _, v') \<Rightarrow> (Done, (v', r)))"

definition entry_inv :: "('r, 'z) deps_scheme \<Rightarrow> unlocked_vault \<times> 'r \<Rightarrow> bool" where
  "entry_inv L s \<longleftrightarrow> rng_laws L \<and> wf_vault (fst s)"

section \<open>The view of the entry list\<close>

lemma dom_view: "dom (fst (view v)) = ve_id ` set (entries_of v)"
  by (simp add: view_def dom_map_of_conv_image_fst image_image)

lemma card_view: "wf_vault v \<Longrightarrow> card (dom (fst (view v))) = length (entries_of v)"
  using distinct_card [of "map ve_id (entries_of v)"] by (simp add: dom_view wf_vault_facts)

lemma view_None: "fst (view v) i = None \<longleftrightarrow> i \<notin> ve_id ` set (entries_of v)"
  using domIff [of i "fst (view v)"] by (simp add: dom_view)

lemma view_with_entries:
  "view (with_entries v es t) = (map_of (map (\<lambda>e. (ve_id e, e)) es), t)"
  by (simp add: view_def entries_of_def clock_of_def)

lemma map_of_append_fresh:
  "i \<notin> ve_id ` set es \<Longrightarrow> ve_id e = i \<Longrightarrow>
   map_of (map (\<lambda>e. (ve_id e, e)) (es @ [e])) = (map_of (map (\<lambda>e. (ve_id e, e)) es))(i \<mapsto> e)"
  by (induction es) (auto simp: fun_upd_twist)

lemma map_of_update:
  assumes "\<And>e. ve_id (f e) = ve_id e" and "map_of (map (\<lambda>e. (ve_id e, e)) es) i = Some e"
    and "distinct (map ve_id es)"
  shows "map_of (map (\<lambda>e. (ve_id e, e)) (map (\<lambda>e. if ve_id e = i then f e else e) es))
    = (map_of (map (\<lambda>e. (ve_id e, e)) es))(i \<mapsto> f e)"
  using assms(2,3)
proof (induction es)
  case (Cons x xs)
  show ?case
  proof (cases "ve_id x = i")
    case True
    with Cons.prems(2) have "\<forall>y \<in> set xs. ve_id y \<noteq> i" by (intro distinct_key_tail)
    then have "map (\<lambda>e. if ve_id e = i then f e else e) xs = xs" by (intro map_idI) simp
    then have "map_of (map (\<lambda>e. (ve_id e, e)) (map (\<lambda>e. if ve_id e = i then f e else e) xs))
        = map_of (map (\<lambda>e. (ve_id e, e)) xs)" by (simp only:)
    with True Cons.prems(1) assms(1) show ?thesis by (simp add: fun_eq_iff)
  next
    case False
    with Cons show ?thesis by (simp add: fun_eq_iff)
  qed
qed simp

lemma map_of_filter_id:
  "map_of (map (\<lambda>e. (ve_id e, e)) (filter (\<lambda>e. ve_id e \<noteq> i) es))
    = (map_of (map (\<lambda>e. (ve_id e, e)) es))(i := None)"
  by (induction es) (auto simp: fun_upd_twist)

section \<open>The simulation\<close>

lemma generate_unique_entry_id_Inr:
  assumes "generate_unique_entry_id L v r = (Inr i, r')"
  shows "i \<notin> ve_id ` set (entries_of v)"
  using assms by (auto simp: generate_unique_entry_id_def entries_of_def
      dest!: generate_entry_id_loop_fresh)

lemma add_step_spec:
  assumes v: "wf_vault v" and step: "entry_step L (Add n now) (v, r) = (out, (v', r'))"
  shows "entry_spec (Add n now) out (view v) (view v')"
proof -
  obtain res s where Pair: "add_entry L n now (v, r) = (res, s)" by (cases "add_entry L n now (v, r)")
  obtain m t where mt: "view v = (m, t)" by fastforce
  have t: "t = clock_of v" and m: "m = fst (view v)" using mt by (simp_all add: view_def)
  show ?thesis
  proof (cases res)
    case (Inl e)
    with Pair step have add: "add_entry L n now (v, r) = (Inl e, (v', r'))" and out: "out = Failed e"
      by auto
    from add have "v' = v" by (simp add: add_entry_Inl)
    moreover have "entry_spec (Add n now) (Failed e) (m, t) (m, t)"
    proof (cases "validate_entry_fields (ne_title n) (ne_secret n) (ne_description n)")
      case (Inl d)
      then have "\<not> entry_fields_ok (ne_title n) (ne_secret n) (ne_description n)"
        by (simp flip: validate_entry_fields_ok)
      with Inl add show ?thesis
        by (auto simp: add_entry_Inl intro: spec_bad_fields_add dest!: validate_entry_fields_err)
    next
      case (Inr u)
      have "card (dom m) = length (entries_of v)" using card_view [OF v] m by simp
      with Inr add wf_vault_facts(2) [OF v] show ?thesis
        by (auto simp: add_entry_Inl generate_unique_entry_id_def split: if_splits
            intro!: spec_full spec_no_random dest!: generate_entry_id_loop_err)
    qed
    ultimately show ?thesis by (simp add: out mt)
  next
    case (Inr i)
    with Pair step have add: "add_entry L n now (v, r) = (Inr i, (v', r'))" and out: "out = Added i"
      by auto
    let ?e = "added_entry n now t i"
    have v': "v' = with_entries v (entries_of v @ [?e]) (max now t)"
      and ok: "entry_fields_ok (ne_title n) (ne_secret n) (ne_description n)"
      and len: "length (entries_of v) < MAX_ENTRIES"
      and fresh: "i \<notin> ve_id ` set (entries_of v)"
      using add generate_unique_entry_id_Inr [of L v r i r'] by (simp_all add: add_entry_Inr t)
    have "view v' = (m(i \<mapsto> ?e), max now t)"
      unfolding v' view_with_entries using map_of_append_fresh [OF fresh, of ?e] mt
      by (simp add: view_def)
    moreover have "card (dom m) < MAX_ENTRIES" and "m i = None"
      using card_view [OF v] len fresh view_None by (simp_all add: m)
    ultimately show ?thesis using ok by (simp add: out mt spec_add)
  qed
qed

lemma update_step_spec:
  assumes v: "wf_vault v" and step: "entry_step L (Update u now) (v, r) = (out, (v', r'))"
  shows "entry_spec (Update u now) out (view v) (view v')"
proof (cases "update_entry u now v")
  case (Pair res w)
  obtain m t where mt: "view v = (m, t)" by fastforce
  have t: "t = clock_of v" and m: "m = fst (view v)" using mt by (simp_all add: view_def)
  show ?thesis
  proof (cases res)
    case (Inl e)
    with Pair step have upd: "update_entry u now v = (Inl e, v')" and out: "out = Failed e"
      by auto
    have "entry_spec (Update u now) (Failed e) (m, t) (m, t)"
    proof (cases "validate_entry_fields (ue_title u) (ue_secret u) (ue_description u)")
      case (Inl d)
      then have "\<not> entry_fields_ok (ue_title u) (ue_secret u) (ue_description u)"
        by (simp flip: validate_entry_fields_ok)
      with Inl upd show ?thesis
        by (auto simp: update_entry_Inl intro: spec_bad_fields_update
            dest!: validate_entry_fields_err)
    next
      case (Inr x)
      with upd show ?thesis by (auto simp: update_entry_Inl m view_None intro!: spec_unknown_update)
    qed
    then show ?thesis using upd by (simp add: update_entry_Inl out mt)
  next
    case (Inr x)
    with Pair step have "update_entry u now v = (Inr (), v')" and out: "out = Done"
      by auto
    then have v': "v' = with_entries v (map (\<lambda>e. if ve_id e = ue_id u
          then updated_entry u now t e else e) (entries_of v)) (max now t)"
      and ok: "entry_fields_ok (ue_title u) (ue_secret u) (ue_description u)"
      and known: "ue_id u \<in> ve_id ` set (entries_of v)"
      by (auto simp: update_entry_Inr wf_vault_facts [OF v] t)
    then obtain e where e: "m (ue_id u) = Some e" using view_None [of v] m by auto
    have "view v' = (m(ue_id u \<mapsto> updated_entry u now t e), max now t)"
      unfolding v' view_with_entries
      using map_of_update [of "updated_entry u now t" "entries_of v" "ue_id u" e] e mt
        wf_vault_facts(1) [OF v] by (simp add: view_def)
    then show ?thesis using ok e by (simp add: out mt spec_update)
  qed
qed

lemma delete_step_spec:
  assumes v: "wf_vault v" and step: "entry_step L (Delete i now) (v, r) = (out, (v', r'))"
  shows "entry_spec (Delete i now) out (view v) (view v')"
proof (cases "delete_entry i now v")
  case (Pair res w)
  obtain m t where mt: "view v = (m, t)" by fastforce
  have t: "t = clock_of v" and m: "m = fst (view v)" using mt by (simp_all add: view_def)
  show ?thesis
  proof (cases res)
    case (Inl e)
    with Pair step have "delete_entry i now v = (Inl e, v')" and out: "out = Failed e" by auto
    then have "v' = v" and e: "e = EntryNotFound" and "i \<notin> ve_id ` set (entries_of v)"
      by (simp_all add: delete_entry_Inl)
    moreover from this have "m i = None" by (simp add: m view_None)
    ultimately show ?thesis by (simp add: out mt spec_unknown_delete)
  next
    case (Inr x)
    with Pair step have "delete_entry i now v = (Inr (), v')" and out: "out = Done" by auto
    then have v': "v' = with_entries v (filter (\<lambda>e. ve_id e \<noteq> i) (entries_of v)) (max now t)"
      and known: "i \<in> ve_id ` set (entries_of v)"
      by (auto simp: delete_entry_Inr wf_vault_facts [OF v] t)
    have "view v' = (m(i := None), max now t)"
      unfolding v' view_with_entries using map_of_filter_id [of i "entries_of v"] mt
      by (simp add: view_def)
    moreover have "m i \<noteq> None" using known view_None by (simp add: m)
    ultimately show ?thesis by (simp add: out mt spec_delete)
  qed
qed

lemma entry_step_wf:
  assumes "entry_inv L s" and "entry_step L c s = (out, s')"
  shows "entry_inv L s'"
proof (cases c)
  case (Add n now)
  with assms show ?thesis
    by (cases s; cases s') (auto simp: entry_inv_def add_entry_Inl intro: add_entry_wf
        split: prod.splits sum.splits)
next
  case (Update u now)
  with assms show ?thesis
    by (cases s; cases s') (auto simp: entry_inv_def update_entry_Inl intro: update_entry_wf
        split: prod.splits sum.splits)
next
  case (Delete i now)
  with assms show ?thesis
    by (cases s; cases s') (auto simp: entry_inv_def delete_entry_Inl intro: delete_entry_wf
        split: prod.splits sum.splits)
qed

lemma entry_step_spec:
  assumes inv: "entry_inv L s" and step: "entry_step L c s = (out, s')"
  shows "entry_spec c out (view (fst s)) (view (fst s'))"
proof -
  obtain v r v' r' where s: "s = (v, r)" and s': "s' = (v', r')" by fastforce
  have v: "wf_vault v" using inv by (simp add: entry_inv_def s)
  note step = step [unfolded s s']
  show ?thesis unfolding s s' fst_conv
  proof (cases c)
    case (Add n now)
    then show "entry_spec c out (view v) (view v')" using add_step_spec [OF v] step by simp
  next
    case (Update u now)
    then show "entry_spec c out (view v) (view v')" using update_step_spec [OF v] step by simp
  next
    case (Delete i now)
    then show "entry_spec c out (view v) (view v')" using delete_step_spec [OF v] step by simp
  qed
qed

interpretation entry_ops:
  simulation "entry_step L" "entry_inv L" "\<lambda>s. view (fst s)" entry_spec
  for L :: "('r, 'z) deps_scheme"
  by unfold_locales (rule entry_step_wf, assumption+, rule entry_step_spec)

lemma sample_entries_inv: "entry_inv sample (cv_unlocked sample_created, r)"
  by (simp add: entry_inv_def sample_rng_laws sample_created_facts)

definition sample_entry :: new_vault_entry where
  "sample_entry = \<lparr>ne_title = str ''Mail'', ne_secret = str ''hunter2'', ne_description = None\<rparr>"

section \<open>Properties\<close>

text \<open>C4: Any sequence of additions, updates and deletions on an unlocked vault behaves as the map
  with a clock prescribes: every outcome, errors included, is one the specification allows in the
  state it happens in, the contents evolve as the map does, and the vault stays well formed, so
  that its container passes the format's own validation throughout.\<close>

theorem entry_sequence_refines_map:
  assumes "rng_laws L" and "wf_vault v"
    and "run_all (entry_step L) cs (v, r) = (outs, (v', r'))"
  shows "spec_run entry_spec cs outs (view v) (view v') \<and> wf_vault v' \<and>
    container_validate (uv_container v') (vault_id_of v') (generation_of v') = Inr ()"
proof -
  have inv: "entry_inv L (v, r)" using assms(1,2) by (simp add: entry_inv_def)
  have "wf_vault v'" using entry_ops.run_inv [OF inv assms(3)] by (simp add: entry_inv_def)
  then show ?thesis using entry_ops.run_spec [OF inv assms(3)]
    by (simp add: wf_vault_def container_validate_ok vault_id_of_def generation_of_def)
qed

lemma entry_sequence_refines_map_witness:
  "\<exists>outs v' r'. run_all (entry_step sample) [Add sample_entry 200, Delete (EntryId []) 300]
       (cv_unlocked sample_created, 5) = (outs, (v', r')) \<and> wf_vault v'
     \<and> spec_run entry_spec [Add sample_entry 200, Delete (EntryId []) 300] outs
         (view (cv_unlocked sample_created)) (view v')"
proof -
  obtain outs v' r' where "run_all (entry_step sample) [Add sample_entry 200, Delete (EntryId []) 300]
      (cv_unlocked sample_created, 5) = (outs, (v', r'))"
    by (metis surj_pair)
  then show ?thesis
    using entry_sequence_refines_map [OF sample_rng_laws sample_created_facts(1)] by blast
qed

text \<open>C33: What the three operations do to the entry list. An addition appends one entry stamped with
  the later of the caller's time and the vault's clock; an update replaces the fields of the one
  entry with that identifier in place, keeping its creation time; a deletion removes exactly that
  entry; the order of all other entries stays.\<close>

theorem entry_operations_on_the_list:
  assumes "wf_vault v"
  shows "(\<forall>n now r i v' r'. add_entry L n now (v, r) = (Inr i, (v', r')) \<longrightarrow>
      entries_of v' = entries_of v @ [added_entry n now (clock_of v) i]) \<and>
    (\<forall>u now v'. update_entry u now v = (Inr (), v') \<longrightarrow>
      entries_of v' = map (\<lambda>e. if ve_id e = ue_id u
        then e\<lparr>ve_title := ue_title u, ve_secret := ue_secret u, ve_description := ue_description u,
          ve_updated_at := max now (clock_of v)\<rparr> else e) (entries_of v)) \<and>
    (\<forall>i now v'. delete_entry i now v = (Inr (), v') \<longrightarrow>
      entries_of v' = filter (\<lambda>e. ve_id e \<noteq> i) (entries_of v))"
proof -
  have upd: "updated_entry u now (clock_of v) e
      = e\<lparr>ve_title := ue_title u, ve_secret := ue_secret u, ve_description := ue_description u,
          ve_updated_at := max now (clock_of v)\<rparr>" if "e \<in> set (entries_of v)" for u now e
  proof -
    have "ve_created_at e \<le> clock_of v"
      using wf_vault_facts(3) [OF assms] that
      by (auto simp: entry_ok_def entry_in_timeline_def clock_of_def)
    then have "max (max now (clock_of v)) (ve_created_at e) = max now (clock_of v)"
      by (simp add: max.absorb1 le_max_iff_disj)
    then show ?thesis by (simp add: updated_entry_def)
  qed
  have entries: "entries_of (with_entries v es t) = es" for es t by (simp add: entries_of_def)
  show ?thesis using upd
    by (auto simp: add_entry_Inr update_entry_Inr delete_entry_Inr wf_vault_facts [OF assms] entries)
qed

lemma sample_add:
  obtains i v' where "add_entry sample sample_entry 200 (cv_unlocked sample_created, 5)
    = (Inr i, (v', 6))"
proof -
  have "is_ok (fst (add_entry sample sample_entry 200 (cv_unlocked sample_created, 5)))"
    and "snd (snd (add_entry sample sample_entry 200 (cv_unlocked sample_created, 5))) = 6"
    by code_simp+
  then show ?thesis using that
    by (cases "add_entry sample sample_entry 200 (cv_unlocked sample_created, 5)")
      (auto simp: is_ok_iff)
qed

lemma entry_operations_on_the_list_witness:
  "\<exists>i v'. add_entry sample sample_entry 200 (cv_unlocked sample_created, 5) = (Inr i, (v', 6)) \<and>
     entries_of v' = [added_entry sample_entry 200 (clock_of (cv_unlocked sample_created)) i]"
proof -
  obtain i v' where add: "add_entry sample sample_entry 200 (cv_unlocked sample_created, 5)
      = (Inr i, (v', 6))"
    by (rule sample_add)
  moreover have "entries_of (cv_unlocked sample_created) = []"
    by (simp add: entries_of_def create_vault_match [OF sample_created])
  ultimately show ?thesis
    using entry_operations_on_the_list [OF sample_created_facts(1)] by force
qed

text \<open>An entry operation that reports an error has not changed the session.\<close>

theorem failed_entry_operation_changes_nothing:
  assumes "entry_step L c (v, r) = (Failed e, (v', r'))"
  shows "v' = v"
proof (cases c)
  case (Add n now)
  with assms show ?thesis by (auto simp: add_entry_Inl split: prod.splits sum.splits)
next
  case (Update u now)
  with assms show ?thesis by (auto simp: update_entry_Inl split: prod.splits sum.splits)
next
  case (Delete i now)
  with assms show ?thesis by (auto simp: delete_entry_Inl split: prod.splits sum.splits)
qed

lemma failed_entry_operation_changes_nothing_witness:
  "\<exists>v' e. entry_step sample (Delete (EntryId []) 300) (cv_unlocked sample_created, 5)
      = (Failed e, (v', 5)) \<and> v' = cv_unlocked sample_created"
proof -
  have "entries_of (cv_unlocked sample_created) = []"
    by (simp add: entries_of_def create_vault_match [OF sample_created])
  then have "delete_entry (EntryId []) 300 (cv_unlocked sample_created)
      = (Inl EntryNotFound, cv_unlocked sample_created)"
    by (simp add: delete_entry_Inl)
  then have "entry_step sample (Delete (EntryId []) 300) (cv_unlocked sample_created, 5)
      = (Failed EntryNotFound, (cv_unlocked sample_created, 5))" by simp
  then show ?thesis using failed_entry_operation_changes_nothing by blast
qed

text \<open>The state of the random source after \<open>n\<close> draws of an identifier, and the \<open>n\<close>-th draw.\<close>

fun rng_after :: "('r, 'z) deps_scheme \<Rightarrow> nat \<Rightarrow> 'r \<Rightarrow> 'r" where
  "rng_after L 0 r = r"
| "rng_after L (Suc n) r = rng_after L n (snd (random_array L ID_BYTES r))"

definition nth_draw :: "('r, 'z) deps_scheme \<Rightarrow> nat \<Rightarrow> 'r \<Rightarrow> entry_id option" where
  "nth_draw L n r = map_option EntryId (result_ok (fst (random_array L ID_BYTES (rng_after L n r))))"

lemma nth_draw_Suc: "nth_draw L (Suc n) r = nth_draw L n (snd (random_array L ID_BYTES r))"
  by (simp add: nth_draw_def)

lemma generate_entry_id_loop_first:
  "generate_entry_id_loop L es attempts r = (Inr i, r') \<longleftrightarrow>
     (\<exists>n < attempts. nth_draw L n r = Some i \<and> i \<notin> ve_id ` set es \<and> r' = rng_after L (Suc n) r \<and>
        (\<forall>k < n. \<exists>j \<in> ve_id ` set es. nth_draw L k r = Some j))"
proof (induction attempts arbitrary: r)
  case (Suc attempts)
  obtain res s where res: "random_array L ID_BYTES r = (res, s)" by fastforce
  show ?case
  proof (cases res)
    case (Inl e)
    then have "nth_draw L 0 r = None" using res by (simp add: nth_draw_def)
    moreover have "nth_draw L n r \<noteq> Some i" if "\<forall>k < n. \<exists>j \<in> ve_id ` set es. nth_draw L k r = Some j" for n
      using that calculation by (cases n) auto
    ultimately show ?thesis using res Inl by (auto simp: bindE_apply)
  next
    case (Inr bs)
    have 0: "nth_draw L 0 r = Some (EntryId bs)" using res Inr by (simp add: nth_draw_def)
    have shift: "nth_draw L (Suc n) r = nth_draw L n s" "rng_after L (Suc n) r = rng_after L n s" for n
      using res by (simp_all add: nth_draw_Suc)
    show ?thesis
    proof (cases "EntryId bs \<in> ve_id ` set es")
      case True
      then have "generate_entry_id_loop L es (Suc attempts) r = generate_entry_id_loop L es attempts s"
        using res Inr by (auto simp: bindE_apply Let_def list_all_iff)
      with True 0 show ?thesis
        by (auto simp: Suc.IH Ex_less_Suc2 All_less_Suc2 shift simp del: rng_after.simps)
    next
      case False
      then have "generate_entry_id_loop L es (Suc attempts) r = (Inr (EntryId bs), s)"
        using res Inr by (auto simp: bindE_apply Let_def list_all_iff image_iff)
      with False 0 show ?thesis
        by (auto simp: Ex_less_Suc2 All_less_Suc2 shift simp del: rng_after.simps(2))
    qed
  qed
qed simp

text \<open>A new identifier is the first unused one among at most eight draws of the random source;
  the source is consulted no further, and earlier draws were all taken.\<close>

theorem fresh_identifier_is_first_unused_draw:
  "generate_unique_entry_id L v r = (Inr i, r') \<longleftrightarrow>
     (\<exists>n. n < 8 \<and> nth_draw L n r = Some i \<and> i \<notin> ve_id ` set (entries_of v) \<and>
        r' = rng_after L (Suc n) r \<and>
        list_all (\<lambda>k. \<exists>j. j \<in> ve_id ` set (entries_of v) \<and> nth_draw L k r = Some j) [0..<n])"
  unfolding generate_unique_entry_id_def generate_entry_id_loop_first MAX_ID_GENERATION_ATTEMPTS_def
  by (simp add: entries_of_def list_all_iff Bex_def Ball_def)

text \<open>The clock of a vault never runs backwards, whatever times the caller passes.\<close>

theorem clock_never_runs_backwards:
  assumes "rng_laws L" and "wf_vault v"
    and "run_all (entry_step L) cs (v, r) = (outs, (v', r'))"
  shows "clock_of v \<le> clock_of v'"
proof -
  have "entry_inv L (v, r)" using assms(1,2) by (simp add: entry_inv_def)
  then have "snd (view (fst (v, r))) \<le> snd (view (fst (v', r')))"
    by (rule entry_ops.run_rel [rotated 3])
      (use assms(3) in \<open>auto elim!: entry_spec.cases\<close>)
  then show ?thesis by (simp add: view_def)
qed

lemma clock_never_runs_backwards_witness:
  "clock_of (cv_unlocked sample_created)
     \<le> clock_of (fst (snd (run_all (entry_step sample) [Add sample_entry 50, Add sample_entry 200]
          (cv_unlocked sample_created, 5))))"
  using clock_never_runs_backwards [OF sample_rng_laws sample_created_facts(1)] by (metis prod.collapse)

end
