(* ===== verification/Recovery.thy ===== *)
theory Recovery
  imports Repository Vault_Entries
begin

text \<open>
  What survives on the device. \<open>recoverable\<close> relates the stored values to an unlocked session:
  the side the session was loaded from or last committed to holds an authenticated container of
  the session's generation, and the other side holds nothing newer except what a save of this
  session may have put there. A crash at any point of an operation is covered by its error
  outcomes, since no operation touches the device again after a failed call.
\<close>

section \<open>Recoverable sessions\<close>

definition next_container :: "unlocked_vault \<Rightarrow> vault_container" where
  "next_container v = (uv_container v)\<lparr>vc_generation := generation_of v + 1\<rparr>"

definition recoverable ::
  "'z crypto_lib_scheme \<Rightarrow> vault_meta \<Rightarrow> (key \<Rightarrow> rstring option) \<Rightarrow> unlocked_vault
     \<Rightarrow> vault_container set \<Rightarrow> bool" where
  "recoverable L m vs v S \<longleftrightarrow>
     stored_meta L vs = Inr (Some m) \<and> meta_validate m = Inr () \<and>
     vault_id_of v = vm_vault_id m \<and> vc_created_at (uv_container v) = vm_created_at m \<and>
     (\<exists>slot c. (slot, c) \<in> set (candidates_of L (uv_dek v) m vs (uv_persisted_slot v)) \<and>
        vc_generation c = generation_of v \<and> c \<in> S) \<and>
     (\<forall>slot c. (slot, c) \<in> set (candidates_of L (uv_dek v) m vs (slot_other (uv_persisted_slot v))) \<longrightarrow>
        vc_generation c < generation_of v \<or>
        checked_add (generation_of v) 1 = Some (vc_generation c) \<and> c \<in> S)"

text \<open>The password fits: it derives a key that unwraps the session's data key.\<close>

definition opens_with :: "'z crypto_lib_scheme \<Rightarrow> bytes \<Rightarrow> vault_meta \<Rightarrow> bytes \<Rightarrow> bool" where
  "opens_with L pw m dek \<longleftrightarrow>
     and_then (derive_kek L pw (vm_vault_id m) (vm_kdf m)) (\<lambda>kek.
       unwrap_dek L kek (vm_wrapped_dek m) (vm_vault_id m)) = Inr dek"

lemma slot_other_cases: "side = t \<or> side = slot_other t"
  by (cases side; cases t) simp_all

lemma all_candidates_set:
  "set (all_candidates L dek m vs)
     = set (candidates_of L dek m vs side) \<union> set (candidates_of L dek m vs (slot_other side))"
  by (cases side) auto

text \<open>The entry operations do not touch what \<open>recoverable\<close> looks at.\<close>

lemma recoverable_cong:
  assumes "recoverable L m vs v S" and "vault_id_of v' = vault_id_of v"
    and "vc_created_at (uv_container v') = vc_created_at (uv_container v)"
    and "uv_dek v' = uv_dek v" and "uv_persisted_slot v' = uv_persisted_slot v"
    and "generation_of v' = generation_of v"
  shows "recoverable L m vs v' S"
  using assms by (simp add: recoverable_def)

lemma entry_step_frame:
  assumes "wf_vault v" and "entry_step L c (v, r) = (out, (v', r'))"
  shows "vault_id_of v' = vault_id_of v"
    and "vc_created_at (uv_container v') = vc_created_at (uv_container v)"
    and "uv_dek v' = uv_dek v" and "uv_persisted_slot v' = uv_persisted_slot v"
    and "generation_of v' = generation_of v"
  using assms
  by (cases c; auto simp: add_entry_Inr add_entry_Inl update_entry_Inr update_entry_Inl
      delete_entry_Inr delete_entry_Inl wf_vault_facts vault_id_of_def generation_of_def
      split: prod.splits sum.splits)+

lemma recoverable_entry_step:
  assumes "recoverable L m vs v S" and "wf_vault v"
    and "entry_step L' c (v, r) = (out, (v', r'))"
  shows "recoverable L m vs v' S"
  using assms(1) entry_step_frame [OF assms(2,3)] by (rule recoverable_cong)

section \<open>The selected slot\<close>

text \<open>Of the candidates in a recoverable state, selection takes one from the set.\<close>

lemma recoverable_select:
  assumes rec: "recoverable L m vs v S"
  obtains slot c where
    "select_candidate p (all_candidates L (uv_dek v) m vs) = Inr (slot, c)" and "c \<in> S"
    and "generation_of v \<le> vc_generation c"
    and "(slot, c) \<in> set (candidates_of L (uv_dek v) m vs (es_slot slot))"
    and "\<And>t d. (t, d) \<in> set (candidates_of L (uv_dek v) m vs (slot_other (es_slot slot))) \<Longrightarrow>
      vc_generation d < vc_generation c"
proof -
  let ?cs = "all_candidates L (uv_dek v) m vs" and ?side = "uv_persisted_slot v"
  obtain slot0 c0 where own: "(slot0, c0) \<in> set (candidates_of L (uv_dek v) m vs ?side)"
    "vc_generation c0 = generation_of v" "c0 \<in> S"
    using rec by (auto simp: recoverable_def)
  have other: "vc_generation d < generation_of v \<or>
      checked_add (generation_of v) 1 = Some (vc_generation d) \<and> d \<in> S"
    if "(t, d) \<in> set (candidates_of L (uv_dek v) m vs (slot_other ?side))" for t d
    using rec that by (auto simp: recoverable_def)
  have "?cs \<noteq> []" using own(1) by (cases ?side) auto
  then obtain x where x: "select_candidate p ?cs = Inr x" by (rule select_candidate_defined)
  obtain slot c where xc: "x = (slot, c)" by fastforce
  have in_cs: "(slot, c) \<in> set ?cs" using select_candidate_Inr(1) [OF x] xc by simp
  have ge: "vc_generation d \<le> vc_generation c" if "(t, d) \<in> set ?cs" for t d
  proof -
    have "es_generation t = vc_generation d" "es_generation slot = vc_generation c"
      using that in_cs by (auto dest: candidates_of_mem(2))
    then show ?thesis using select_candidate_Inr(2) [OF x that] xc by simp
  qed
  have g: "generation_of v \<le> vc_generation c"
    using ge [of slot0 c0] own unfolding all_candidates_set [of L _ m vs ?side] by simp
  from in_cs have "(slot, c) \<in> set (candidates_of L (uv_dek v) m vs ?side) \<or>
      (slot, c) \<in> set (candidates_of L (uv_dek v) m vs (slot_other ?side))"
    unfolding all_candidates_set [of L _ m vs ?side] by blast
  then show ?thesis
  proof
    assume mem: "(slot, c) \<in> set (candidates_of L (uv_dek v) m vs ?side)"
    then have c: "c = c0" "es_slot slot = ?side"
      using candidates_of_mem(1,3) [OF mem] own(1) by auto
    have "vc_generation d < vc_generation c"
      if td: "(t, d) \<in> set (candidates_of L (uv_dek v) m vs (slot_other ?side))" for t d
    proof -
      have "vc_generation d \<le> generation_of v"
        using ge [of t d] td own(2) c unfolding all_candidates_set [of L _ m vs ?side] by simp
      then have "checked_add (generation_of v) 1 \<noteq> Some (vc_generation d)"
        by (auto dest!: checked_add_less)
      then show ?thesis using own(2) c other [OF td] by simp
    qed
    then show ?thesis using that [of slot c] x xc own c g mem by simp
  next
    assume mem: "(slot, c) \<in> set (candidates_of L (uv_dek v) m vs (slot_other ?side))"
    then have side: "es_slot slot = slot_other ?side" by (rule candidates_of_mem(1))
    have "checked_add (generation_of v) 1 = Some (vc_generation c)" and "c \<in> S"
      using g other [OF mem] by auto
    then have "generation_of v < vc_generation c" by (auto dest: checked_add_less)
    moreover have "vc_generation d = generation_of v"
      if "(t, d) \<in> set (candidates_of L (uv_dek v) m vs ?side)" for t d
      using candidates_of_mem(3) [OF that] own by simp
    ultimately show ?thesis using that [of slot c] x xc g mem side \<open>c \<in> S\<close> by simp
  qed
qed

section \<open>Opening and saving keep sessions recoverable\<close>

lemma encrypted_next:
  assumes L: "deps_laws L" and v: "wf_vault v"
    and g: "checked_add (generation_of v) 1 = Some g"
    and enc: "encrypt_for_slot_at_generation L v side g r = (Inr slot, r')"
    and m: "vault_id_of v = vm_vault_id m" "vc_created_at (uv_container v) = vm_created_at m"
    and e: "slot_to_json L slot = Some e" "byte_len e \<le> MAX_SLOT_JSON_BYTES"
  shows "slot_from_json L e = Some slot"
    and "candidates_of L (uv_dek v) m (vs(slot_key side \<mapsto> e)) side = [(slot, next_container v)]"
proof -
  have gg: "g = generation_of v + 1" using g by (simp add: checked_add_Some)
  note rt = encrypt_for_slot_at_generation_roundtrip [OF L v enc]
  note fields = encrypt_for_slot_at_generation_fields [OF enc]
  have "wf_slot slot" using fields(3) v by (simp add: wf_slot_def wf_vault_def wf_container_def)
  then show 1: "slot_from_json L e = Some slot"
    using L e(1) by (auto intro: slot_json_roundtrip)
  then have "(slot, next_container v) \<in> set (candidates_of L (uv_dek v) m (vs(slot_key side \<mapsto> e)) side)"
    using rt fields e(2) m
    by (simp add: candidates_of_mem_iff stored_slot_mem stored_json_Some next_container_def gg
        vault_id_of_def)
  then show "candidates_of L (uv_dek v) m (vs(slot_key side \<mapsto> e)) side = [(slot, next_container v)]"
    by (rule candidates_of_mem(3))
qed

text \<open>With the next container on the other side, the session is recoverable before and after commit.\<close>

lemma recoverable_written:
  assumes rec: "recoverable L m vs v S" and g: "checked_add (generation_of v) 1 = Some g"
    and new: "candidates_of L (uv_dek v) m (vs(slot_key (slot_other (uv_persisted_slot v)) \<mapsto> e))
      (slot_other (uv_persisted_slot v)) = [(slot, next_container v)]"
  shows "recoverable L m (vs(slot_key (slot_other (uv_persisted_slot v)) \<mapsto> e)) v
      (insert (next_container v) S)"
    and "recoverable L m (vs(slot_key (slot_other (uv_persisted_slot v)) \<mapsto> e))
      (v\<lparr>uv_container := next_container v, uv_persisted_slot := slot_other (uv_persisted_slot v)\<rparr>)
      {next_container v}"
proof -
  have gen: "vc_generation (next_container v) = g" "generation_of v < g"
    using g checked_add_less [OF g] by (simp_all add: next_container_def checked_add_Some)
  show "recoverable L m (vs(slot_key (slot_other (uv_persisted_slot v)) \<mapsto> e)) v
      (insert (next_container v) S)"
    using rec new g gen by (auto simp: recoverable_def)
  have "vc_generation d = generation_of v"
    if "(t, d) \<in> set (candidates_of L (uv_dek v) m vs (uv_persisted_slot v))" for t d
    using rec candidates_of_mem(3) [OF that] by (auto simp: recoverable_def)
  then show "recoverable L m (vs(slot_key (slot_other (uv_persisted_slot v)) \<mapsto> e))
      (v\<lparr>uv_container := next_container v, uv_persisted_slot := slot_other (uv_persisted_slot v)\<rparr>)
      {next_container v}"
    using rec new gen
    by (auto simp: recoverable_def vault_id_of_def generation_of_def next_container_def)
qed

lemma pointer_write_frame [simp]:
  "recoverable L m (vs(ACTIVE_SLOT_KEY := x)) v S \<longleftrightarrow> recoverable L m vs v S"
  by (simp add: recoverable_def)

context lawful_storage
begin

lemma recoverable_open:
  assumes s: "reliable s" and fits: "pointer_fits L" and rec: "recoverable L m (vals s) v S"
    and pw: "opens_with L pw m (uv_dek v)"
  obtains opened s' where "open_vault L D pw s = (Inr opened, s')" and "reliable s'"
    and "uv_container (ov_vault opened) \<in> S" and "uv_dek (ov_vault opened) = uv_dek v"
    and "generation_of v \<le> generation_of (ov_vault opened)"
    and "recoverable L m (vals s') (ov_vault opened) {uv_container (ov_vault opened)}"
    and "\<forall>side slot c. candidates_of L (uv_dek v) m (vals s) side = [(slot, c)] \<longrightarrow>
      vc_generation c = generation_of (ov_vault opened) \<longrightarrow>
      ov_vault opened = \<lparr>uv_container = c, uv_dek = uv_dek v, uv_persisted_slot = side\<rparr>"
    and "ov_active_pointer_repaired opened \<longleftrightarrow> stored_pointer L (vals s)
      \<noteq> Some (pointer_for (uv_persisted_slot (ov_vault opened)) (generation_of (ov_vault opened)))"
    and "\<not> ov_active_pointer_repaired opened \<longrightarrow> vals s' = vals s"
proof -
  have m: "stored_meta L (vals s) = Inr (Some m)" "meta_validate m = Inr ()"
    using rec by (simp_all add: recoverable_def)
  obtain kek where kek: "derive_kek L pw (vm_vault_id m) (vm_kdf m) = Inr kek"
    and dek: "unwrap_dek L kek (vm_wrapped_dek m) (vm_vault_id m) = Inr (uv_dek v)"
    using pw by (auto simp: opens_with_def and_then_Inr)
  obtain slot c where sel: "select_candidate (stored_pointer L (vals s))
        (all_candidates L (uv_dek v) m (vals s)) = Inr (slot, c)"
    and c: "c \<in> S" "generation_of v \<le> vc_generation c"
    and mem: "(slot, c) \<in> set (candidates_of L (uv_dek v) m (vals s) (es_slot slot))"
    and less: "\<And>t d. (t, d) \<in> set (candidates_of L (uv_dek v) m (vals s) (slot_other (es_slot slot)))
      \<Longrightarrow> vc_generation d < vc_generation c"
    by (rule recoverable_select [OF rec, where p = "stored_pointer L (vals s)"]) (rule that; blast)
  have g: "es_generation slot = vc_generation c" and cc: "vc_created_at c = vm_created_at m"
    and vid: "vc_vault_id c = vm_vault_id m"
    using mem by (auto simp: candidates_of_mem_iff decrypt_container_Inr stored_slot_mem
        slot_validate_ok)
  let ?v = "\<lparr>uv_container = c, uv_dek = uv_dek v, uv_persisted_slot = es_slot slot\<rparr>"
  let ?r = "stored_pointer L (vals s) \<noteq> Some (pointer_for (es_slot slot) (es_generation slot))"
  have rec': "recoverable L m (vals s) ?v {c}"
    using m mem less cc vid
    by (auto simp: recoverable_def vault_id_of_def generation_of_def)
  have only: "?v = \<lparr>uv_container = d, uv_dek = uv_dek v, uv_persisted_slot = side\<rparr>"
    if "candidates_of L (uv_dek v) m (vals s) side = [(t, d)]" "vc_generation d = vc_generation c"
    for side t d
    using slot_other_cases [of side "es_slot slot"] that less [of t d] candidates_of_mem(3) [OF mem]
    by auto
  obtain s' where "open_vault L D pw s
      = (Inr \<lparr>ov_vault = ?v, ov_active_pointer_repaired = ?r\<rparr>, s')" "reliable s'"
    and vs: "if stored_pointer L (vals s) = Some (pointer_for (es_slot slot) (es_generation slot))
      then vals s' = vals s
      else \<exists>p. pointer_to_json L (pointer_for (es_slot slot) (es_generation slot)) = Some p \<and>
        byte_len p \<le> MAX_ACTIVE_POINTER_BYTES \<and> vals s' = (vals s)(ACTIVE_SLOT_KEY \<mapsto> p)"
    by (rule open_reliable [OF s fits m kek dek sel])
  moreover have "recoverable L m (vals s') ?v {c}"
    using vs rec' by (auto split: if_splits)
  moreover have "\<not> ?r \<Longrightarrow> vals s' = vals s" using vs by simp
  ultimately show ?thesis
    using that [of "\<lparr>ov_vault = ?v, ov_active_pointer_repaired = ?r\<rparr>" s'] c g only
    by (simp add: generation_of_def)
qed

text \<open>The result of a save, whatever the device did.\<close>

lemma recoverable_save:
  assumes L: "deps_laws L" and v: "wf_vault v" and rec: "recoverable L m (vals s) v S"
    and save: "save L D (s, v, r) = (res, (s', v', r'))"
  shows "wf_vault v' \<and> (case res of
      Inl e \<Rightarrow> v' = v \<and> recoverable L m (vals s') v (insert (next_container v) S)
    | Inr _ \<Rightarrow> v' = v\<lparr>uv_container := next_container v,
          uv_persisted_slot := slot_other (uv_persisted_slot v)\<rparr> \<and>
        recoverable L m (vals s') v' {uv_container v'} \<and>
        stored_pointer L (vals s') = Some (pointer_for (uv_persisted_slot v') (generation_of v')))"
proof -
  have mono: "recoverable L m vs v (insert (next_container v) S)"
    if "recoverable L m vs v S" for vs
    using that unfolding recoverable_def by blast
  show ?thesis
  proof (cases "checked_add (generation_of v) 1")
    case None
    with save rec mono v show ?thesis by (auto simp: save_def Let_def)
  next
    case (Some g)
    let ?side = "slot_other (uv_persisted_slot v)"
    obtain enc r1 where enc: "encrypt_for_slot_at_generation L v ?side g r = (enc, r1)" by fastforce
    show ?thesis
    proof (cases enc)
      case (Inl e)
      with save rec mono v enc Some show ?thesis by (auto simp: save_def Let_def)
    next
      case (Inr slot)
      note enc = enc [unfolded Inr]
      obtain st s1 where st: "store_slot L D v ?side g slot s = (st, s1)" by fastforce
      have m: "vault_id_of v = vm_vault_id m" "vc_created_at (uv_container v) = vm_created_at m"
        using rec by (simp_all add: recoverable_def)
      note next_ok = encrypted_next [OF L v Some enc m]
      show ?thesis
      proof (cases st)
        case (Inl d)
        have "recoverable L m (vals s1) v (insert (next_container v) S)"
          using store_slot_Inl [OF st [unfolded Inl]] mono [OF rec] recoverable_written(1) [OF rec Some]
            next_ok(2) by auto
        with save enc Some st Inl v show ?thesis by (auto simp: save_def Let_def)
      next
        case (Inr stored)
        obtain e p where e: "slot_to_json L slot = Some e" "byte_len e \<le> MAX_SLOT_JSON_BYTES"
          and stored: "slot_from_json L e = Some stored"
          and ok: "verify_next_slot L v stored = Inr ()"
          and p: "pointer_to_json L (pointer_for ?side g) = Some p"
            "byte_len p \<le> MAX_ACTIVE_POINTER_BYTES"
          and vs: "vals s1 = (vals s)(slot_key ?side \<mapsto> e, ACTIVE_SLOT_KEY \<mapsto> p)"
          using st [unfolded Inr] by (rule store_slot_Inr)
        have "stored = slot" using next_ok(1) [OF e] stored by simp
        moreover have "g = generation_of v + 1" using Some by (simp add: checked_add_Some)
        ultimately have v': "res = Inr () \<and> s' = s1 \<and>
            v' = v\<lparr>uv_container := next_container v, uv_persisted_slot := ?side\<rparr>"
          using save enc Some st Inr ok encrypt_for_slot_at_generation_fields [OF enc]
          by (simp add: save_def Let_def commit_verified_slot_def next_container_def)
        have "wf_vault v'" using v v' by (simp add: wf_vault_def next_container_def)
        moreover have "recoverable L m (vals s1) v' {uv_container v'}"
          using recoverable_written(2) [OF rec Some next_ok(2) [OF e]] v' vs by simp
        moreover have "stored_pointer L (vals s1) = Some (pointer_for ?side g)"
          unfolding vs using L p by (intro pointer_to_stored) auto
        ultimately show ?thesis using v' \<open>g = _\<close>
          by (simp add: generation_of_def next_container_def)
      qed
    qed
  qed
qed

lemma open_no_candidate:
  assumes s: "reliable s"
    and m: "stored_meta L (vals s) = Inr (Some m)" "meta_validate m = Inr ()"
    and pw: "opens_with L pw m dek"
    and none: "all_candidates L dek m (vals s) = []"
  obtains s' where "open_vault L D pw s = (Inl WrongPasswordOrCorruptedVault, s')"
    and "vals s' = vals s"
proof -
  obtain kek where kek: "derive_kek L pw (vm_vault_id m) (vm_kdf m) = Inr kek"
    and dek: "unwrap_dek L kek (vm_wrapped_dek m) (vm_vault_id m) = Inr dek"
    using pw by (auto simp: opens_with_def and_then_Inr)
  obtain s1 where s1: "read_required_json D (meta_from_json L) META_KEY MAX_METADATA_JSON_BYTES s
      = (Inr m, s1)" "reliable s1" "vals s1 = vals s"
    by (rule reliable_read_required [OF s keys_not_empty(1) m(1)])
  obtain ptr s2 where s2: "read_pointer L D s1 = (Inr ptr, s2)" "reliable s2"
    "vals s2 = vals s"
    using reliable_pointer [OF s1(2)] s1(3) by metis
  define slots where
    "slots = stored_slot L (vm_vault_id m) (vals s) A @ stored_slot L (vm_vault_id m) (vals s) B"
  obtain s3 where s3: "read_candidates L D (vm_vault_id m) [(A, SLOT_A_KEY), (B, SLOT_B_KEY)] s2
      = (Inr slots, s3)" "vals s3 = vals s"
    using reliable_candidates [OF s2(2), of L "vm_vault_id m" "[A, B]"] s2(3)
    by (auto simp: slots_def)
  have "list_all wf_slot slots" by (auto simp: slots_def list_all_iff dest: stored_slot_wf)
  then have "decrypt_candidates L dek m slots = Inr []"
    using none by (simp add: decrypt_candidates_eq candidates_of_def slots_def)
  moreover have "select_candidate ptr [] = Inl WrongPasswordOrCorruptedVault"
    by (simp add: select_candidate_def sort_by_def)
  ultimately have "open_vault L D pw s = (Inl WrongPasswordOrCorruptedVault, s3)"
    using s1(1) s2(1) s3(1) m kek dek by (simp add: open_vault_def bindE_apply)
  then show ?thesis using that s3(2) by blast
qed

lemma open_uninitialized:
  assumes "reliable s" and "vals s META_KEY = None"
  shows "\<exists>s'. open_vault L D pw s = (Inl Uninitialized, s') \<and> vals s' = vals s"
proof -
  obtain s' where "read_optional_json D (meta_from_json L) META_KEY MAX_METADATA_JSON_BYTES s
      = (stored_meta L (vals s), s')" "vals s' = vals s"
    by (rule reliable_read [OF assms(1) keys_not_empty(1)])
  with assms(2) show ?thesis
    by (simp add: open_vault_def read_required_json_def bindE_apply stored_json_def)
qed

end

section \<open>The first vault on a device\<close>

lemma initial_recoverable:
  assumes L: "deps_laws L" and cv: "create_vault L pw config now r = (Inr cv, r')"
    and e: "slot_to_json L (cv_initial_slot cv) = Some e" "byte_len e \<le> MAX_SLOT_JSON_BYTES"
    and mj: "meta_to_json L (cv_metadata cv) = Some mj" "byte_len mj \<le> MAX_METADATA_JSON_BYTES"
    and b: "vs SLOT_B_KEY = None"
  shows "recoverable L (cv_metadata cv) (vs(slot_key A \<mapsto> e, META_KEY \<mapsto> mj)) (cv_unlocked cv)
    {uv_container (cv_unlocked cv)}"
proof -
  let ?vs = "vs(slot_key A \<mapsto> e, META_KEY \<mapsto> mj)" and ?v = "cv_unlocked cv" and ?m = "cv_metadata cv"
  note wf = create_vault_wf [OF L cv] and slot = create_vault_slot [OF L cv]
    and match = create_vault_match [OF cv]
  have "es_vault_id (cv_initial_slot cv) = vm_vault_id ?m" using slot(2) by (simp add: slot_validate_ok)
  then have "wf_slot (cv_initial_slot cv)" using wf(2) by (simp add: wf_slot_def wf_meta_def)
  then have "slot_from_json L e = Some (cv_initial_slot cv)"
    using L e(1) by (auto intro: slot_json_roundtrip)
  then have "(cv_initial_slot cv, uv_container ?v) \<in> set (candidates_of L (uv_dek ?v) ?m ?vs A)"
    using e(2) slot match by (simp add: candidates_of_mem_iff stored_slot_mem stored_json_Some)
  moreover have "candidates_of L (uv_dek ?v) ?m ?vs B = []"
    using b by (simp add: candidates_of_def stored_slot_def stored_json_def key_defs)
  moreover have "stored_meta L ?vs = Inr (Some ?m)"
    using L mj wf(2) by (auto simp: stored_json_Some intro: meta_json_roundtrip)
  ultimately show ?thesis using wf(3) match by (auto simp: recoverable_def vault_id_of_def generation_of_def)
qed

lemma created_opens:
  assumes "deps_laws L" and "create_vault L pw config now r = (Inr cv, r')"
  shows "opens_with L pw (cv_metadata cv) (uv_dek (cv_unlocked cv))"
proof -
  obtain kek where "derive_kek L pw (vm_vault_id (cv_metadata cv)) (vm_kdf (cv_metadata cv)) = Inr kek"
    and "unwrap_dek L kek (vm_wrapped_dek (cv_metadata cv)) (vm_vault_id (cv_metadata cv))
      = Inr (uv_dek (cv_unlocked cv))"
    by (rule create_vault_keys [OF assms])
  then show ?thesis by (simp add: opens_with_def)
qed

section \<open>End to end over a lawful device\<close>

context lawful_storage
begin

lemma created_then_open:
  assumes L: "deps_laws L" "pointer_fits L" and cv: "create_vault L pw config now r = (Inr cv, r')"
    and e: "slot_to_json L (cv_initial_slot cv) = Some e" "byte_len e \<le> MAX_SLOT_JSON_BYTES"
    and mj: "meta_to_json L (cv_metadata cv) = Some mj" "byte_len mj \<le> MAX_METADATA_JSON_BYTES"
    and b: "vs SLOT_B_KEY = None" and s: "reliable s"
    and vs: "vals s = vs(slot_key A \<mapsto> e, META_KEY \<mapsto> mj) \<or>
      vals s = vs(slot_key A \<mapsto> e, META_KEY \<mapsto> mj, ACTIVE_SLOT_KEY \<mapsto> p)"
  obtains opened s' where "open_vault L D pw s = (Inr opened, s')"
    and "ov_vault opened = cv_unlocked cv"
    and "ov_active_pointer_repaired opened \<longleftrightarrow> stored_pointer L (vals s) \<noteq> Some (pointer_for A 0)"
    and "\<not> ov_active_pointer_repaired opened \<longrightarrow> vals s' = vals s"
proof -
  let ?v = "cv_unlocked cv" and ?m = "cv_metadata cv"
  note match = create_vault_match [OF cv]
  have "recoverable L ?m (vs(slot_key A \<mapsto> e, META_KEY \<mapsto> mj)) ?v {uv_container ?v}"
    by (rule initial_recoverable [where vs = vs, OF L(1) cv e mj b])
  then have rec: "recoverable L ?m (vals s) ?v {uv_container ?v}" using vs by auto
  obtain opened s' where o: "open_vault L D pw s = (Inr opened, s')"
    and c: "uv_container (ov_vault opened) \<in> {uv_container ?v}"
    and dek: "uv_dek (ov_vault opened) = uv_dek ?v"
    and eq: "\<forall>side slot c. candidates_of L (uv_dek ?v) ?m (vals s) side = [(slot, c)] \<longrightarrow>
      vc_generation c = generation_of (ov_vault opened) \<longrightarrow>
      ov_vault opened = \<lparr>uv_container = c, uv_dek = uv_dek ?v, uv_persisted_slot = side\<rparr>"
    and ptr: "ov_active_pointer_repaired opened \<longleftrightarrow> stored_pointer L (vals s)
      \<noteq> Some (pointer_for (uv_persisted_slot (ov_vault opened)) (generation_of (ov_vault opened)))"
    and same: "\<not> ov_active_pointer_repaired opened \<longrightarrow> vals s' = vals s"
    by (rule recoverable_open [OF s L(2) rec created_opens [OF L(1) cv]])
  obtain slot d where mem: "(slot, d) \<in> set (candidates_of L (uv_dek ?v) ?m (vals s) A)"
    and "d = uv_container ?v"
    using rec match by (auto simp: recoverable_def)
  then have "ov_vault opened = \<lparr>uv_container = uv_container ?v, uv_dek = uv_dek ?v, uv_persisted_slot = A\<rparr>"
    using eq candidates_of_mem(3) [OF mem] c by (simp add: generation_of_def)
  then have v: "ov_vault opened = ?v" using match by simp
  show ?thesis
    by (rule that [OF o v]) (use ptr same match v in \<open>simp_all add: generation_of_def\<close>)
qed

lemma initialize_then_open:
  assumes L: "deps_laws L" "pointer_fits L"
    and cv: "create_vault L pw config now r = (Inr cv, r')"
    and init: "initialize L D cv s = (Inr (), s')" and fresh: "vals s SLOT_B_KEY = None"
    and s': "reliable s'"
  shows "\<exists>s''. open_vault L D pw s' = (Inr \<lparr>ov_vault = cv_unlocked cv,
      ov_active_pointer_repaired = False\<rparr>, s'') \<and> vals s'' = vals s'"
  using init
proof (cases rule: initialize_cases)
  case (written s0)
  have slot: "es_slot (cv_initial_slot cv) = A" by (rule create_vault_slot [OF L(1) cv])
  obtain e mj p where w: "slot_to_json L (cv_initial_slot cv) = Some e"
      "byte_len e \<le> MAX_SLOT_JSON_BYTES"
      "meta_to_json L (cv_metadata cv) = Some mj" "byte_len mj \<le> MAX_METADATA_JSON_BYTES"
    and p: "pointer_to_json L (cv_active_slot cv) = Some p" "byte_len p \<le> MAX_ACTIVE_POINTER_BYTES"
    and vs: "vals s' = (vals s)(slot_key A \<mapsto> e, META_KEY \<mapsto> mj, ACTIVE_SLOT_KEY \<mapsto> p)"
    using written(6) unfolding slot [symmetric] written(1) [symmetric] by (rule initial_writes_Inr)
  obtain opened s'' where o: "open_vault L D pw s' = (Inr opened, s'')"
    "ov_vault opened = cv_unlocked cv"
    "ov_active_pointer_repaired opened \<longleftrightarrow> stored_pointer L (vals s') \<noteq> Some (pointer_for A 0)"
    "\<not> ov_active_pointer_repaired opened \<longrightarrow> vals s'' = vals s'"
    by (rule created_then_open [where vs = "vals s", OF L cv w fresh s' disjI2 [OF vs]])
  have "stored_pointer L (vals s') = Some (pointer_for A 0)"
    unfolding vs using L(1) p create_vault_match(7) [OF cv] by (intro pointer_to_stored) auto
  with o show ?thesis by (intro exI [of _ s'']) (simp add: opened_vault.equality)
qed simp

lemma interrupted_initialization:
  assumes L: "deps_laws L" "pointer_fits L"
    and cv: "create_vault L pw config now r = (Inr cv, r')"
    and init: "initialize L D cv s = (res, s1)" and fresh: "vals s SLOT_B_KEY = None"
    and none: "vals s META_KEY = None" and s2: "reliable s2" "vals s2 = vals s1"
  shows "if vals s1 META_KEY = None then fst (open_vault L D pw s2) = Inl Uninitialized
    else \<exists>opened s3. open_vault L D pw s2 = (Inr opened, s3) \<and> ov_vault opened = cv_unlocked cv"
proof (cases "vals s1 META_KEY = None")
  case True
  with s2 open_uninitialized [OF s2(1), of L pw] show ?thesis by auto
next
  case False
  have slot: "es_slot (cv_initial_slot cv) = A" by (rule create_vault_slot [OF L(1) cv])
  from init show ?thesis
  proof (cases rule: initialize_cases)
    case (written s0)
    have none0: "vals s0 META_KEY = None" using none written(1) by simp
    obtain e mj p where w: "slot_to_json L (cv_initial_slot cv) = Some e"
        "byte_len e \<le> MAX_SLOT_JSON_BYTES"
        "meta_to_json L (cv_metadata cv) = Some mj" "byte_len mj \<le> MAX_METADATA_JSON_BYTES"
      and vs: "vals s2 = (vals s)(slot_key A \<mapsto> e, META_KEY \<mapsto> mj) \<or>
        vals s2 = (vals s)(slot_key A \<mapsto> e, META_KEY \<mapsto> mj, ACTIVE_SLOT_KEY \<mapsto> p)"
      unfolding s2(2) slot [symmetric] written(1) [symmetric]
      by (rule initial_writes_order [OF written(6) none0 False])
    obtain opened s3 where "open_vault L D pw s2 = (Inr opened, s3)"
      "ov_vault opened = cv_unlocked cv"
      by (rule created_then_open [where vs = "vals s", OF L cv w fresh s2(1) vs])
    with False show ?thesis by auto
  qed (use False none in simp)
qed

lemma save_then_open:
  assumes L: "deps_laws L" "pointer_fits L" and v: "wf_vault v"
    and rec: "recoverable L m (vals s) v S" and pw: "opens_with L pw m (uv_dek v)"
    and save: "save L D (s, v, r) = (res, (s1, v1, r1))" and s2: "reliable s2" "vals s2 = vals s1"
  obtains opened s3 where "open_vault L D pw s2 = (Inr opened, s3)"
    and "case res of Inl e \<Rightarrow> v1 = v \<and> uv_container (ov_vault opened) \<in> insert (next_container v) S
      | Inr _ \<Rightarrow> ov_vault opened = v1 \<and> entries_of v1 = entries_of v \<and>
          generation_of v1 = generation_of v + 1 \<and> \<not> ov_active_pointer_repaired opened"
    and "recoverable L m (vals s3) (ov_vault opened) {uv_container (ov_vault opened)}"
proof -
  note result = recoverable_save [OF L(1) v rec save]
  show ?thesis
  proof (cases res)
    case (Inl e)
    then have v1: "v1 = v" and rec1: "recoverable L m (vals s2) v (insert (next_container v) S)"
      using result s2(2) by simp_all
    obtain opened s3 where "open_vault L D pw s2 = (Inr opened, s3)"
      "uv_container (ov_vault opened) \<in> insert (next_container v) S"
      "recoverable L m (vals s3) (ov_vault opened) {uv_container (ov_vault opened)}"
      by (rule recoverable_open [OF s2(1) L(2) rec1 pw])
    then show ?thesis using v1 Inl by (intro that [of opened s3]) simp_all
  next
    case (Inr u)
    then have v1: "v1 = v\<lparr>uv_container := next_container v,
          uv_persisted_slot := slot_other (uv_persisted_slot v)\<rparr>"
      and rec1: "recoverable L m (vals s2) v1 {uv_container v1}"
      and ptr: "stored_pointer L (vals s2)
        = Some (pointer_for (uv_persisted_slot v1) (generation_of v1))"
      using result s2(2) by auto
    have pw1: "opens_with L pw m (uv_dek v1)" using pw v1 by simp
    obtain opened s3 where o: "open_vault L D pw s2 = (Inr opened, s3)"
      and c: "uv_container (ov_vault opened) \<in> {uv_container v1}"
      and eq: "\<forall>side slot c. candidates_of L (uv_dek v1) m (vals s2) side = [(slot, c)] \<longrightarrow>
        vc_generation c = generation_of (ov_vault opened) \<longrightarrow>
        ov_vault opened = \<lparr>uv_container = c, uv_dek = uv_dek v1, uv_persisted_slot = side\<rparr>"
      and rep: "ov_active_pointer_repaired opened \<longleftrightarrow> stored_pointer L (vals s2)
        \<noteq> Some (pointer_for (uv_persisted_slot (ov_vault opened)) (generation_of (ov_vault opened)))"
      and rec3: "recoverable L m (vals s3) (ov_vault opened) {uv_container (ov_vault opened)}"
      by (rule recoverable_open [OF s2(1) L(2) rec1 pw1])
    obtain slot d where mem: "(slot, d) \<in> set (candidates_of L (uv_dek v1) m (vals s2) (uv_persisted_slot v1))"
      and "d = uv_container v1"
      using rec1 by (auto simp: recoverable_def)
    then have "ov_vault opened = v1"
      using eq candidates_of_mem(3) [OF mem] c by (simp add: generation_of_def)
    with o rep ptr Inr rec3 v1 show ?thesis
      by (intro that [of opened s3]) (simp_all add: entries_of_def generation_of_def next_container_def)
  qed
qed

end

context lawful_storage
begin

text \<open>On a device that works, a save of a slot that fits succeeds.\<close>

lemma reliable_save:
  assumes L: "deps_laws L" "pointer_fits L" and v: "wf_vault v" and s: "reliable s"
    and enc: "encrypt_for_slot L v (slot_other (uv_persisted_slot v)) r = (Inr slot, r')"
    and e: "slot_to_json L slot = Some e" "byte_len e \<le> MAX_SLOT_JSON_BYTES"
  shows "\<exists>s' v'. save L D (s, v, r) = (Inr (), (s', v', r')) \<and> reliable s' \<and>
    v' = v\<lparr>uv_container := next_container v,
      uv_persisted_slot := slot_other (uv_persisted_slot v)\<rparr>"
proof -
  let ?side = "slot_other (uv_persisted_slot v)"
  obtain g where g: "checked_add (generation_of v) 1 = Some g"
    and enc': "encrypt_for_slot_at_generation L v ?side g r = (Inr slot, r')"
    using enc by (auto simp: encrypt_for_slot_Inr generation_of_def)
  note rt = encrypt_for_slot_at_generation_roundtrip [OF L(1) v enc']
    and fields = encrypt_for_slot_at_generation_fields [OF enc']
  have "wf_slot slot" using fields(3) v by (simp add: wf_slot_def wf_vault_def wf_container_def)
  then have de: "slot_from_json L e = Some slot" using L(1) e(1) by (auto intro: slot_json_roundtrip)
  obtain s1 where s1: "write_json_verified D (slot_to_json L) (slot_key ?side) slot
      MAX_SLOT_JSON_BYTES s = (Inr (), s1)" "reliable s1" "vals s1 = (vals s)(slot_key ?side \<mapsto> e)"
    by (rule reliable_write [OF s keys_not_empty(5), where f = "slot_to_json L", OF e])
  have "stored_json (slot_from_json L) MAX_SLOT_JSON_BYTES (vals s1) (slot_key ?side) = Inr (Some slot)"
    using de e(2) s1(3) by (simp add: stored_json_Some)
  then obtain s2 where s2: "read_required_json D (slot_from_json L) (slot_key ?side)
      MAX_SLOT_JSON_BYTES s1 = (Inr slot, s2)" "reliable s2"
    by (rule reliable_read_required [OF s1(2) keys_not_empty(5)])
  obtain p where p: "pointer_to_json L (pointer_for ?side g) = Some p"
      "byte_len p \<le> MAX_ACTIVE_POINTER_BYTES"
    using L(2) unfolding pointer_fits_def by blast
  obtain s3 where s3: "write_json_verified D (pointer_to_json L) ACTIVE_SLOT_KEY
      (pointer_for ?side g) MAX_ACTIVE_POINTER_BYTES s2 = (Inr (), s3)" "reliable s3"
    by (rule reliable_write [OF s2(2) keys_not_empty(4), where f = "pointer_to_json L", OF p])
  have ver: "verify_next_slot L v slot = Inr ()"
    using g by (intro verify_own_slot [OF L(1) v _ enc']) (simp add: generation_of_def)
  have "store_slot L D v ?side g slot s = (Inr slot, s3)"
    using s1(1) s2(1) s3(1) rt(2) ver
    by (simp add: store_slot_def bindE_apply vault_id_of_def)
  moreover have "g = generation_of v + 1" using g by (simp add: checked_add_Some)
  ultimately show ?thesis
    using g enc' ver fields s3(2)
    by (simp add: save_def Let_def commit_verified_slot_def next_container_def)
qed

lemma open_reliable_spec:
  assumes s: "reliable s" and L: "codec_laws L" "pointer_fits L"
    and m: "stored_meta L (vals s) = Inr (Some m)" "meta_validate m = Inr ()"
    and pw: "opens_with L pw m dek"
  shows "case open_vault L D pw s of
      (Inl e, s') \<Rightarrow> e = WrongPasswordOrCorruptedVault \<and> all_candidates L dek m (vals s) = []
        \<and> vals s' = vals s
    | (Inr opened, s') \<Rightarrow> (\<exists>slot c. (slot, c) \<in> set (all_candidates L dek m (vals s)) \<and>
        ov_vault opened = \<lparr>uv_container = c, uv_dek = dek, uv_persisted_slot = es_slot slot\<rparr> \<and>
        (\<forall>(t, d) \<in> set (all_candidates L dek m (vals s)). vc_generation d < vc_generation c \<or>
           vc_generation d = vc_generation c \<and>
           (pointer_matches (stored_pointer L (vals s)) t \<longrightarrow>
            pointer_matches (stored_pointer L (vals s)) slot)) \<and>
        stored_pointer L (vals s') = Some (pointer_for (es_slot slot) (vc_generation c)) \<and>
        (\<forall>k. k \<noteq> ACTIVE_SLOT_KEY \<longrightarrow> vals s' k = vals s k) \<and> reliable s')"
proof (cases "all_candidates L dek m (vals s) = []")
  case True
  obtain s' where "open_vault L D pw s = (Inl WrongPasswordOrCorruptedVault, s')" "vals s' = vals s"
    by (rule open_no_candidate [OF s m pw True])
  with True show ?thesis by simp
next
  case False
  let ?cs = "all_candidates L dek m (vals s)" and ?ptr = "stored_pointer L (vals s)"
  obtain kek where kek: "derive_kek L pw (vm_vault_id m) (vm_kdf m) = Inr kek"
    and dek: "unwrap_dek L kek (vm_wrapped_dek m) (vm_vault_id m) = Inr dek"
    using pw by (auto simp: opens_with_def and_then_Inr)
  obtain x where x: "select_candidate ?ptr ?cs = Inr x" by (rule select_candidate_defined [OF False])
  obtain slot c where sc: "x = (slot, c)" by fastforce
  note sel = x [unfolded sc]
  have mem: "(slot, c) \<in> set ?cs" by (rule select_candidate_Inr(1) [OF sel])
  then have g: "es_generation slot = vc_generation c" by (auto dest: candidates_of_mem(2))
  have best: "vc_generation d < vc_generation c \<or> vc_generation d = vc_generation c \<and>
      (pointer_matches ?ptr t \<longrightarrow> pointer_matches ?ptr slot)" if td: "(t, d) \<in> set ?cs" for t d
  proof -
    have "es_generation t = vc_generation d" using td by (auto dest: candidates_of_mem(2))
    then show ?thesis using select_candidate_Inr(2,3) [OF sel td] g by auto
  qed
  obtain s' where o: "open_vault L D pw s = (Inr \<lparr>ov_vault = \<lparr>uv_container = c, uv_dek = dek,
         uv_persisted_slot = es_slot slot\<rparr>, ov_active_pointer_repaired =
         (?ptr \<noteq> Some (pointer_for (es_slot slot) (es_generation slot)))\<rparr>, s')" "reliable s'"
    and vs: "if ?ptr = Some (pointer_for (es_slot slot) (es_generation slot))
      then vals s' = vals s
      else \<exists>p. pointer_to_json L (pointer_for (es_slot slot) (es_generation slot)) = Some p \<and>
        byte_len p \<le> MAX_ACTIVE_POINTER_BYTES \<and> vals s' = (vals s)(ACTIVE_SLOT_KEY \<mapsto> p)"
    by (rule open_reliable [OF s L(2) m kek dek sel])
  have "stored_pointer L (vals s') = Some (pointer_for (es_slot slot) (vc_generation c))"
    using vs pointer_to_stored [OF L(1)] by (auto simp: g split: if_splits)
  moreover have "\<forall>k. k \<noteq> ACTIVE_SLOT_KEY \<longrightarrow> vals s' k = vals s k"
    using vs by (auto split: if_splits)
  ultimately show ?thesis using o mem best by (auto intro!: exI [of _ slot])
qed

lemma open_again:
  assumes s: "reliable s" and L: "codec_laws L" "pointer_fits L"
    and m: "stored_meta L (vals s) = Inr (Some m)" "meta_validate m = Inr ()"
    and pw: "opens_with L pw m dek"
    and first: "open_vault L D pw s = (Inr opened, s')"
  shows "\<exists>s''. open_vault L D pw s' = (Inr (opened\<lparr>ov_active_pointer_repaired := False\<rparr>), s'')
    \<and> vals s'' = vals s'"
proof -
  let ?cs = "all_candidates L dek m (vals s)"
  obtain slot c where mem: "(slot, c) \<in> set ?cs"
    and o: "ov_vault opened = \<lparr>uv_container = c, uv_dek = dek, uv_persisted_slot = es_slot slot\<rparr>"
    and best: "\<forall>(t, d) \<in> set ?cs. vc_generation d < vc_generation c \<or>
      vc_generation d = vc_generation c \<and> (pointer_matches (stored_pointer L (vals s)) t \<longrightarrow>
        pointer_matches (stored_pointer L (vals s)) slot)"
    and ptr: "stored_pointer L (vals s') = Some (pointer_for (es_slot slot) (vc_generation c))"
    and same: "\<forall>k. k \<noteq> ACTIVE_SLOT_KEY \<longrightarrow> vals s' k = vals s k" and s': "reliable s'"
    using open_reliable_spec [OF s L m pw] unfolding first prod.case sum.case
    by (elim exE conjE) (rule that)
  have vs: "vals s' = (vals s)(ACTIVE_SLOT_KEY := vals s' ACTIVE_SLOT_KEY)"
    using same by (simp add: fun_eq_iff)
  have m': "stored_meta L (vals s') = Inr (Some m)" using m(1) by (subst vs) simp
  have cs: "candidates_of L dek m (vals s') side = candidates_of L dek m (vals s) side" for side
    by (subst vs) simp
  obtain kek where kek: "derive_kek L pw (vm_vault_id m) (vm_kdf m) = Inr kek"
    and dek: "unwrap_dek L kek (vm_wrapped_dek m) (vm_vault_id m) = Inr dek"
    using pw by (auto simp: opens_with_def and_then_Inr)
  have "?cs \<noteq> []" using mem by auto
  then obtain x where x: "select_candidate (stored_pointer L (vals s')) ?cs = Inr x"
    by (rule select_candidate_defined)
  obtain t d where td: "x = (t, d)" by fastforce
  note sel = x [unfolded td]
  have in_cs: "(t, d) \<in> set ?cs" by (rule select_candidate_Inr(1) [OF sel])
  have gens: "es_generation slot = vc_generation c" "es_generation t = vc_generation d"
    using mem in_cs by (auto dest: candidates_of_mem(2))
  have "vc_generation d = vc_generation c"
    using select_candidate_Inr(2) [OF sel mem] best in_cs gens by fastforce
  then have "es_slot t = es_slot slot"
    using select_candidate_Inr(3) [OF sel mem] gens by (simp add: ptr pointer_matches_def)
  then have eq: "(t, d) = (slot, c)"
    using mem in_cs candidates_of_mem(1,3) [of t d L dek m "vals s"]
      candidates_of_mem(1,3) [of slot c L dek m "vals s"]
    by (auto dest: candidates_of_mem(1) candidates_of_mem(3))
  obtain s'' where "open_vault L D pw s' = (Inr \<lparr>ov_vault = \<lparr>uv_container = d, uv_dek = dek,
         uv_persisted_slot = es_slot t\<rparr>, ov_active_pointer_repaired =
         (stored_pointer L (vals s') \<noteq> Some (pointer_for (es_slot t) (es_generation t)))\<rparr>, s'')"
    and "if stored_pointer L (vals s') = Some (pointer_for (es_slot t) (es_generation t))
      then vals s'' = vals s'
      else \<exists>p. pointer_to_json L (pointer_for (es_slot t) (es_generation t)) = Some p \<and>
        byte_len p \<le> MAX_ACTIVE_POINTER_BYTES \<and> vals s'' = (vals s')(ACTIVE_SLOT_KEY \<mapsto> p)"
    by (rule open_reliable [OF s' L(2) m' m(2) kek dek]) (use sel cs in simp)
  then show ?thesis using eq gens ptr o by simp
qed

end

end
