(* ===== verification/Recovery_Properties.thy ===== *)
theory Recovery_Properties
  imports Recovery
begin

text \<open>
  The properties of the two-slot repository: what a stored vault opens to, what a save leaves
  behind on success and on every failure, what \<open>open\<close> selects, and what initialisation and
  clearing do. The first section runs the sample vault on a \<open>MemoryStorage\<close> for the witnesses.
\<close>

section \<open>The sample device\<close>

lemma length_enc_nat: "n < 128 ^ Suc k \<Longrightarrow> length (enc_nat n) \<le> Suc k"
proof (induction k arbitrary: n)
  case (Suc k)
  show ?case
  proof (cases "n < 128")
    case False
    then have "n div 128 < 128 ^ Suc k" using Suc.prems by (simp add: div_less_iff_less_mult)
    from Suc.IH [OF this] False show ?thesis by (simp add: enc_nat.simps [of n])
  qed (simp add: enc_nat.simps [of n])
qed (subst enc_nat.simps, simp)

lemma byte_len_sample_b64: "byte_len (sample_b64_encode bs) \<le> 2 * length bs"
proof (induction bs)
  case (Cons b bs)
  have "unat b < 256" using unsigned_less [of b, where 'a = nat] by simp
  then have "length (utf8_char (256 + unat b)) = 2" by (simp add: utf8_char_def)
  with Cons show ?case by (simp add: sample_b64_encode_def byte_len_def as_bytes_def)
qed (simp add: sample_b64_encode_def byte_len_def as_bytes_def)

lemma sample_pointer_fits: "pointer_fits sample"
proof -
  have "byte_len (sample_b64_encode (enc_pointer p)) \<le> MAX_ACTIVE_POINTER_BYTES" for p
  proof -
    have "unat (as_version p) < 128 ^ Suc 4" "unat (as_generation p) < 128 ^ Suc 9"
      using unsigned_less [of "as_version p", where 'a = nat]
        unsigned_less [of "as_generation p", where 'a = nat] by simp_all
    moreover have "slot_to_nat (as_slot p) < 128 ^ Suc 0"
      by (cases "as_slot p") (simp_all add: slot_to_nat_def)
    ultimately have "length (enc_word (as_version p)) \<le> 5" "length (enc_word (as_generation p)) \<le> 10"
      "length (enc_nat (slot_to_nat (as_slot p))) \<le> 1"
      using length_enc_nat [of "unat (as_version p)" 4] length_enc_nat [of "unat (as_generation p)" 9]
        length_enc_nat [of "slot_to_nat (as_slot p)" 0] by simp_all
    then have "length (enc_pointer p) \<le> 16" by (simp add: enc_pointer_def enc_pair_def)
    then show ?thesis
      using byte_len_sample_b64 [of "enc_pointer p"] by (simp add: MAX_ACTIVE_POINTER_BYTES_def)
  qed
  then show ?thesis
    by (simp add: pointer_fits_def pointer_to_json_def sample_def sample_print_def)
qed

lemma memory_default_reliable [simp]: "memory_reliable memory_default"
  by (simp add: memory_reliable_def memory_default_def)

lemma memory_default_values [simp]: "ms_values memory_default k = None"
  by (simp add: memory_default_def)

definition sample_device :: memory where
  "sample_device = snd (initialize sample memory_storage sample_created memory_default)"

lemma sample_initialize:
  "initialize sample memory_storage sample_created memory_default = (Inr (), sample_device)"
proof -
  have "is_ok (fst (initialize sample memory_storage sample_created memory_default))"
    by code_simp
  then show ?thesis by (auto simp: is_ok_fst sample_device_def)
qed

lemma sample_device_reliable: "memory_reliable sample_device"
proof -
  have "memory_reliable (snd (initialize sample memory_storage sample_created memory_default))"
    by code_simp
  then show ?thesis by (simp only: sample_device_def)
qed

lemma sample_recoverable:
  "recoverable sample (cv_metadata sample_created) (ms_values sample_device) (cv_unlocked sample_created)
     {uv_container (cv_unlocked sample_created)}"
proof -
  from sample_initialize show ?thesis
  proof (cases rule: mem.initialize_cases)
    case (written s0)
    obtain e mj p where e: "slot_to_json sample (cv_initial_slot sample_created) = Some e"
        "byte_len e \<le> MAX_SLOT_JSON_BYTES"
      and mj: "meta_to_json sample (cv_metadata sample_created) = Some mj"
        "byte_len mj \<le> MAX_METADATA_JSON_BYTES"
      and vs: "ms_values sample_device = (ms_values s0)(slot_key (es_slot (cv_initial_slot sample_created))
          \<mapsto> e, META_KEY \<mapsto> mj, ACTIVE_SLOT_KEY \<mapsto> p)"
      using written(6) by (rule mem.initial_writes_Inr)
    have "es_slot (cv_initial_slot sample_created) = A" by (rule sample_created_facts)
    moreover have "ms_values s0 SLOT_B_KEY = None" using written(1) by simp
    ultimately show ?thesis
      using initial_recoverable [OF sample_deps_laws sample_created e mj] by (simp add: vs)
  qed simp
qed

lemma sample_opens:
  "opens_with sample sample_password (cv_metadata sample_created) (uv_dek (cv_unlocked sample_created))"
  by (rule created_opens [OF sample_deps_laws sample_created])

section \<open>Properties\<close>

text \<open>C12: A vault that was created and stored opens again. After a successful \<open>initialize\<close> on a
  device without a second slot, the creation password opens exactly the session that creation
  returned, the pointer needs no repair and nothing is written.\<close>

theorem stored_vault_opens:
  assumes "lawful_storage D vals reliable" and "deps_laws L" and "pointer_fits L"
    and "create_vault L pw config now r = (Inr cv, r')"
    and "initialize L D cv s = (Inr (), s')" and "vals s SLOT_B_KEY = None" and "reliable s'"
  shows "\<exists>s''. open_vault L D pw s' = (Inr \<lparr>ov_vault = cv_unlocked cv,
      ov_active_pointer_repaired = False\<rparr>, s'') \<and> vals s'' = vals s'"
  by (rule lawful_storage.initialize_then_open [OF assms])

lemma stored_vault_opens_witness:
  "\<exists>s''. open_vault sample memory_storage sample_password sample_device
     = (Inr \<lparr>ov_vault = cv_unlocked sample_created, ov_active_pointer_repaired = False\<rparr>, s'')"
  using stored_vault_opens [OF mem.lawful_storage_axioms sample_deps_laws sample_pointer_fits
      sample_created sample_initialize] sample_device_reliable by auto

text \<open>C1: Crash consistency of a save. From a recoverable session, whatever the device does during
  \<open>save\<close> (any call may fail, a failed write may or may not have happened, and a crash is a failing
  call after which nothing more happens), a later open on the values it left succeeds with the same password: after a success it returns
  the saved session with no repair, after an error the contents last committed or those being
  saved, never anything else; and the reopened session is again recoverable.\<close>

theorem save_is_crash_consistent:
  assumes "lawful_storage D vals reliable" and "deps_laws L" and "pointer_fits L"
    and "wf_vault v" and "recoverable L m (vals s) v S" and "opens_with L pw m (uv_dek v)"
    and "save L D (s, v, r) = (res, (s1, v1, r1))" and "reliable s2" and "vals s2 = vals s1"
  shows "\<exists>opened s3. open_vault L D pw s2 = (Inr opened, s3) \<and>
    (case res of
       Inl e \<Rightarrow> v1 = v \<and> uv_container (ov_vault opened) \<in> insert (next_container v) S
     | Inr _ \<Rightarrow> ov_vault opened = v1 \<and> entries_of v1 = entries_of v \<and>
         generation_of v1 = generation_of v + 1 \<and> \<not> ov_active_pointer_repaired opened) \<and>
    recoverable L m (vals s3) (ov_vault opened) {uv_container (ov_vault opened)}"
  by (rule lawful_storage.save_then_open [OF assms]) blast

definition failing_device :: memory where
  "failing_device = memory_fail_next_set ACTIVE_SLOT_KEY sample_device"

lemma save_is_crash_consistent_witness:
  "\<exists>res s1 v1 r1 opened s3. save sample memory_storage (failing_device, cv_unlocked sample_created, 5)
       = (res, (s1, v1, r1)) \<and>
     open_vault sample memory_storage sample_password (memory_default\<lparr>ms_values := ms_values s1\<rparr>)
       = (Inr opened, s3) \<and>
     (case res of
        Inl e \<Rightarrow> uv_container (ov_vault opened)
          \<in> {next_container (cv_unlocked sample_created), uv_container (cv_unlocked sample_created)}
      | Inr _ \<Rightarrow> ov_vault opened = v1)"
proof -
  let ?v = "cv_unlocked sample_created"
  obtain res s1 v1 r1 where save: "save sample memory_storage (failing_device, ?v, 5)
      = (res, (s1, v1, r1))"
    by (metis surj_pair)
  have rec: "recoverable sample (cv_metadata sample_created) (ms_values failing_device) ?v
      {uv_container ?v}"
    using sample_recoverable by (simp add: failing_device_def memory_fail_next_set_def)
  have rel: "memory_reliable (memory_default\<lparr>ms_values := ms_values s1\<rparr>)"
    by (simp add: memory_reliable_def memory_default_def)
  have dev: "ms_values (memory_default\<lparr>ms_values := ms_values s1\<rparr>) = ms_values s1" by simp
  have "\<exists>opened s3. open_vault sample memory_storage sample_password
        (memory_default\<lparr>ms_values := ms_values s1\<rparr>) = (Inr opened, s3) \<and>
      (case res of
         Inl e \<Rightarrow> v1 = ?v \<and> uv_container (ov_vault opened) \<in> {next_container ?v, uv_container ?v}
       | Inr _ \<Rightarrow> ov_vault opened = v1 \<and> entries_of v1 = entries_of ?v \<and>
           generation_of v1 = generation_of ?v + 1 \<and> \<not> ov_active_pointer_repaired opened)"
    using save_is_crash_consistent [OF mem.lawful_storage_axioms sample_deps_laws
        sample_pointer_fits sample_created_facts(1) rec sample_opens save rel dev] by blast
  with save show ?thesis by (auto split: sum.splits)
qed

lemma sample_next_slot_fits:
  obtains e where "slot_to_json sample sample_next_slot = Some e" and "byte_len e \<le> MAX_SLOT_JSON_BYTES"
proof -
  have "byte_len (the (slot_to_json sample sample_next_slot)) \<le> MAX_SLOT_JSON_BYTES"
    and "slot_to_json sample sample_next_slot \<noteq> None"
    by code_simp+
  then show ?thesis using that by auto
qed

lemma sample_next_slot_other:
  "encrypt_for_slot sample (cv_unlocked sample_created)
     (slot_other (uv_persisted_slot (cv_unlocked sample_created))) 5 = (Inr sample_next_slot, 6)"
  using sample_next_slot create_vault_match(4) [OF sample_created] by simp

text \<open>C27: A save on a working device succeeds. If the device does not fail, the generation can
  advance and the encrypted slot fits the size limit, \<open>save\<close> returns the session at the next
  generation on the other side.\<close>

theorem save_succeeds:
  assumes "lawful_storage D vals reliable" and "deps_laws L" and "pointer_fits L"
    and "wf_vault v" and "reliable s"
    and "encrypt_for_slot L v (slot_other (uv_persisted_slot v)) r = (Inr slot, r')"
    and "slot_to_json L slot = Some e" and "byte_len e \<le> MAX_SLOT_JSON_BYTES"
  shows "\<exists>s' v'. save L D (s, v, r) = (Inr (), (s', v', r')) \<and> reliable s' \<and>
    v' = v\<lparr>uv_container := next_container v,
      uv_persisted_slot := slot_other (uv_persisted_slot v)\<rparr>"
  by (rule lawful_storage.reliable_save [OF assms])

lemma save_succeeds_witness:
  "\<exists>s' v'. save sample memory_storage (sample_device, cv_unlocked sample_created, 5)
     = (Inr (), (s', v', 6)) \<and> uv_persisted_slot v' = B"
proof -
  obtain e where e: "slot_to_json sample sample_next_slot = Some e"
    "byte_len e \<le> MAX_SLOT_JSON_BYTES" by (rule sample_next_slot_fits)
  show ?thesis
    using save_succeeds [OF mem.lawful_storage_axioms sample_deps_laws sample_pointer_fits
        sample_created_facts(1) sample_device_reliable sample_next_slot_other e]
      create_vault_match(4) [OF sample_created] by auto
qed

text \<open>C6: What \<open>open\<close> selects. On a working device holding valid metadata that the password fits,
  \<open>open\<close> returns an authenticated slot of the highest generation, the one the pointer names if
  two are equal; it leaves the pointer naming that slot and every other value alone. It fails
  exactly when no slot authenticates, with \<open>WrongPasswordOrCorruptedVault\<close> and no write.\<close>

theorem open_selects_newest:
  assumes "lawful_storage D vals reliable" and "reliable s" and "codec_laws L" and "pointer_fits L"
    and "stored_meta L (vals s) = Inr (Some m)" and "meta_validate m = Inr ()"
    and "opens_with L pw m dek"
  shows "case open_vault L D pw s of
      (Inl e, s') \<Rightarrow> e = WrongPasswordOrCorruptedVault \<and> all_candidates L dek m (vals s) = []
        \<and> vals s' = vals s
    | (Inr opened, s') \<Rightarrow> (\<exists>slot c. (slot, c) \<in> set (all_candidates L dek m (vals s)) \<and>
        ov_vault opened = \<lparr>uv_container = c, uv_dek = dek, uv_persisted_slot = es_slot slot\<rparr> \<and>
        (\<forall>(t, d) \<in> set (all_candidates L dek m (vals s)). vc_generation d < vc_generation c \<or>
           vc_generation d = vc_generation c \<and>
           (pointer_matches (stored_pointer L (vals s)) t \<longrightarrow>
            pointer_matches (stored_pointer L (vals s)) slot)) \<and>
        stored_pointer L (vals s') = Some (pointer_for (es_slot slot) (vc_generation c)) \<and>
        (\<forall>k. k \<noteq> ACTIVE_SLOT_KEY \<longrightarrow> vals s' k = vals s k) \<and> reliable s')"
  by (rule lawful_storage.open_reliable_spec [OF assms])

lemma sample_stored_meta:
  "stored_meta sample (ms_values sample_device) = Inr (Some (cv_metadata sample_created))"
  "meta_validate (cv_metadata sample_created) = Inr ()"
  using sample_recoverable by (simp_all add: recoverable_def)

lemma open_selects_newest_witness:
  "case open_vault sample memory_storage sample_password sample_device of
      (Inl e, s') \<Rightarrow> e = WrongPasswordOrCorruptedVault
    | (Inr opened, s') \<Rightarrow> uv_dek (ov_vault opened) = uv_dek (cv_unlocked sample_created)"
proof -
  have "codec_laws sample" using sample_deps_laws by blast
  from open_selects_newest [OF mem.lawful_storage_axioms sample_device_reliable this
      sample_pointer_fits sample_stored_meta sample_opens]
  show ?thesis by (auto split: prod.splits sum.splits)
qed

text \<open>C32: Opening is stable. A second open after a successful one returns the same session without a
  repair and without a write.\<close>

theorem open_is_stable:
  assumes "lawful_storage D vals reliable" and "reliable s" and "codec_laws L" and "pointer_fits L"
    and "stored_meta L (vals s) = Inr (Some m)" and "meta_validate m = Inr ()"
    and "opens_with L pw m dek" and "open_vault L D pw s = (Inr opened, s')"
  shows "\<exists>s''. open_vault L D pw s' = (Inr (opened\<lparr>ov_active_pointer_repaired := False\<rparr>), s'')
    \<and> vals s'' = vals s'"
  by (rule lawful_storage.open_again [OF assms])

lemma open_is_stable_witness:
  "\<exists>opened s1 s2. open_vault sample memory_storage sample_password sample_device = (Inr opened, s1) \<and>
     open_vault sample memory_storage sample_password s1
       = (Inr (opened\<lparr>ov_active_pointer_repaired := False\<rparr>), s2)"
proof -
  have "codec_laws sample" using sample_deps_laws by blast
  moreover obtain opened s1 where "open_vault sample memory_storage sample_password sample_device
      = (Inr opened, s1)"
    using mem.initialize_then_open [OF sample_deps_laws sample_pointer_fits sample_created
        sample_initialize _ sample_device_reliable] by auto
  ultimately show ?thesis
    using open_is_stable [OF mem.lawful_storage_axioms sample_device_reliable _ sample_pointer_fits
        sample_stored_meta sample_opens] by blast
qed

text \<open>C14: An interrupted initialisation leaves nothing broken. However \<open>initialize\<close> ended on an
  uninitialised device, either the metadata is absent and a later open reports \<open>Uninitialized\<close>,
  or the vault is complete and the password opens it: the metadata never precedes its slot.\<close>

theorem initialization_is_atomic:
  assumes "lawful_storage D vals reliable" and "deps_laws L" and "pointer_fits L"
    and "create_vault L pw config now r = (Inr cv, r')"
    and "initialize L D cv s = (res, s1)" and "vals s SLOT_B_KEY = None"
    and "vals s META_KEY = None" and "reliable s2" and "vals s2 = vals s1"
  shows "if vals s1 META_KEY = None then fst (open_vault L D pw s2) = Inl Uninitialized
    else \<exists>opened s3. open_vault L D pw s2 = (Inr opened, s3) \<and> ov_vault opened = cv_unlocked cv"
  by (rule lawful_storage.interrupted_initialization [OF assms])

lemma initialization_is_atomic_witness:
  "let s1 = snd (initialize sample memory_storage sample_created
       (memory_fail_next_set ACTIVE_SLOT_KEY memory_default)) in
   if ms_values s1 META_KEY = None
   then fst (open_vault sample memory_storage sample_password
          (memory_default\<lparr>ms_values := ms_values s1\<rparr>)) = Inl Uninitialized
   else \<exists>opened s3. open_vault sample memory_storage sample_password
          (memory_default\<lparr>ms_values := ms_values s1\<rparr>) = (Inr opened, s3)
        \<and> ov_vault opened = cv_unlocked sample_created"
proof -
  let ?s = "memory_fail_next_set ACTIVE_SLOT_KEY memory_default"
  obtain res s1 where init: "initialize sample memory_storage sample_created ?s = (res, s1)"
    by fastforce
  have none: "ms_values ?s k = None" for k by (simp add: memory_fail_next_set_def)
  have "memory_reliable (memory_default\<lparr>ms_values := ms_values s1\<rparr>)"
    by (simp add: memory_reliable_def memory_default_def)
  from initialization_is_atomic [OF mem.lawful_storage_axioms sample_deps_laws sample_pointer_fits
      sample_created init none none this]
  show ?thesis by (simp add: init Let_def)
qed

text \<open>An existing vault is never overwritten by a new one. Where metadata is stored, \<open>initialize\<close>
  fails and leaves every value as it was.\<close>

theorem initialize_never_overwrites:
  assumes "lawful_storage D vals reliable" and "vals s META_KEY \<noteq> None"
    and "initialize L D cv s = (res, s')"
  shows "(\<exists>e. res = Inl e) \<and> vals s' = vals s"
  using assms(2)
  by (cases rule: lawful_storage.initialize_cases [OF assms(1,3)]) simp_all

lemma initialize_never_overwrites_witness:
  "ms_values (snd (initialize sample memory_storage sample_created sample_device))
     = ms_values sample_device"
proof -
  have "ms_values sample_device META_KEY \<noteq> None"
    using sample_stored_meta(1) by (auto simp: stored_json_Some)
  then show ?thesis
    using initialize_never_overwrites [OF mem.lawful_storage_axioms _ surjective_pairing] by blast
qed

text \<open>Clearing removes the vault's four values and nothing else; it reports success only then,
  and on a working device it succeeds.\<close>

theorem clear_removes_the_vault:
  assumes "lawful_storage D vals reliable"
  shows "(\<forall>s'. clear_device_storage D s = (Inr (), s') \<longrightarrow> vals s' = (\<lambda>k.
      if k \<in> {META_KEY, SLOT_A_KEY, SLOT_B_KEY, ACTIVE_SLOT_KEY} then None else vals s k)) \<and>
    (reliable s \<longrightarrow> (\<exists>s'. clear_device_storage D s = (Inr (), s')))"
proof -
  let ?ks = "[META_KEY, SLOT_A_KEY, SLOT_B_KEY, ACTIVE_SLOT_KEY]"
  have "[] \<notin> set ?ks" by (simp add: key_defs str_def)
  then have "reliable s \<longrightarrow> (\<exists>s'. clear_device_storage D s = (Inr (), s'))"
    unfolding clear_device_storage_def using lawful_storage.reliable_clear [OF assms] by blast
  moreover have "vals s' = (\<lambda>k. if k \<in> set ?ks then None else vals s k)"
    if "clear_device_storage D s = (Inr (), s')" for s'
    using lawful_storage.clear_keys_Inr [OF assms that [unfolded clear_device_storage_def]] .
  ultimately show ?thesis by simp
qed

lemma clear_removes_the_vault_witness:
  "\<exists>s'. clear_device_storage memory_storage sample_device = (Inr (), s')
     \<and> ms_values s' META_KEY = None"
  using clear_removes_the_vault [OF mem.lawful_storage_axioms, of sample_device] sample_device_reliable
  by auto

text \<open>C26: No device, lawful or not, makes the session advance without showing the data. If \<open>save\<close>
  succeeds, the device accepted the encoded slot, returned exactly that encoding, then returned
  a slot that decrypts to the session's new state, and accepted and returned the encoded pointer.\<close>

theorem save_trusts_only_what_it_read:
  assumes "save L D (s, v, r) = (Inr (), (s', v', r'))"
  shows "\<exists>slot e s1 s2 e2 stored s3 p s4.
    encrypt_for_slot L v (slot_other (uv_persisted_slot v)) r = (Inr slot, r') \<and>
    slot_to_json L slot = Some e \<and> byte_len e \<le> MAX_SLOT_JSON_BYTES \<and>
    ds_set D (slot_key (uv_persisted_slot v')) e s = (Inr (), s1) \<and>
    ds_get D (slot_key (uv_persisted_slot v')) s1 = (Inr (Some e), s2) \<and>
    ds_get D (slot_key (uv_persisted_slot v')) s2 = (Inr (Some e2), s3) \<and>
    slot_from_json L e2 = Some stored \<and> decrypt_container L (uv_dek v) stored = Inr (uv_container v') \<and>
    pointer_to_json L (pointer_for (uv_persisted_slot v') (generation_of v')) = Some p \<and>
    ds_set D ACTIVE_SLOT_KEY p s3 = (Inr (), s4) \<and> ds_get D ACTIVE_SLOT_KEY s4 = (Inr (Some p), s')"
proof -
  let ?side = "slot_other (uv_persisted_slot v)"
  obtain g slot stored where g: "checked_add (generation_of v) 1 = Some g"
    and enc: "encrypt_for_slot_at_generation L v ?side g r = (Inr slot, r')"
    and st: "store_slot L D v ?side g slot s = (Inr stored, s')"
    and com: "commit_verified_slot L v stored = (Inr (), v')"
    using assms by (auto simp: save_def Let_def split: option.splits prod.splits sum.splits)
  have v': "uv_persisted_slot v' = ?side" "generation_of v' = g"
    and dec: "decrypt_container L (uv_dek v) stored = Inr (uv_container v')"
    using com g by (auto simp: commit_verified_slot_Inr verify_next_slot_Inr generation_of_def)
  have "encrypt_for_slot L v ?side r = (Inr slot, r')"
    using g enc by (simp add: encrypt_for_slot_Inr generation_of_def)
  moreover obtain e s1 s2 where "slot_to_json L slot = Some e" "byte_len e \<le> MAX_SLOT_JSON_BYTES"
    "ds_set D (slot_key ?side) e s = (Inr (), s1)" "ds_get D (slot_key ?side) s1 = (Inr (Some e), s2)"
    and rest: "\<exists>s3. read_required_json D (slot_from_json L) (slot_key ?side) MAX_SLOT_JSON_BYTES s2
        = (Inr stored, s3) \<and> write_json_verified D (pointer_to_json L) ACTIVE_SLOT_KEY
          (pointer_for ?side g) MAX_ACTIVE_POINTER_BYTES s3 = (Inr (), s')"
    using st by (auto simp: store_slot_def write_json_verified_def [of _ "slot_to_json L"] bindE_Inr
        not_less split: if_splits)
  moreover from rest obtain s3 p s4 e2 where "ds_get D (slot_key ?side) s2 = (Inr (Some e2), s3)"
    "slot_from_json L e2 = Some stored" "pointer_to_json L (pointer_for ?side g) = Some p"
    "ds_set D ACTIVE_SLOT_KEY p s3 = (Inr (), s4)" "ds_get D ACTIVE_SLOT_KEY s4 = (Inr (Some p), s')"
    by (auto simp: read_required_json_def read_optional_json_def write_json_verified_def bindE_Inr
        split: if_splits option.splits)
  ultimately show ?thesis using v' dec by metis
qed

lemma save_trusts_only_what_it_read_witness:
  "\<exists>s' v' stored. save sample memory_storage (sample_device, cv_unlocked sample_created, 5)
      = (Inr (), (s', v', 6)) \<and>
     decrypt_container sample (uv_dek (cv_unlocked sample_created)) stored = Inr (uv_container v')"
proof -
  obtain e where e: "slot_to_json sample sample_next_slot = Some e"
    "byte_len e \<le> MAX_SLOT_JSON_BYTES" by (rule sample_next_slot_fits)
  obtain s' v' where save: "save sample memory_storage (sample_device, cv_unlocked sample_created, 5)
      = (Inr (), (s', v', 6))"
    using mem.reliable_save [OF sample_deps_laws sample_pointer_fits sample_created_facts(1)
        sample_device_reliable sample_next_slot_other e] by blast
  show ?thesis using save_trusts_only_what_it_read [OF save] save by blast
qed

end
