(* ===== verification/Bridge.thy ===== *)
theory Bridge
  imports Recovery
begin

text \<open>
  \<open>VaultBridge\<close> of \<open>crates/vault-wasm/src/bridge.rs\<close>: the session that the browser drives. It
  wraps an unlocked vault with its metadata, at most one prepared save and at most one prepared
  password change. JavaScript owns the device: it writes what a prepared operation hands out,
  reads it back and passes the read-back value to the verifying and committing calls. Methods
  on \<open>&self\<close> are functions of the session, methods on \<open>&mut self\<close> return it updated, and a
  random source is threaded beside it.
\<close>

section \<open>Errors\<close>

datatype bridge_error =
    Vault vault_error
  | Locked
  | SavePending
  | NoSavePending
  | PendingSlotNotVerified
  | ReadbackMismatch
  | Serialization
  | MissingMetadata
  | NoPasswordChangePending

text \<open>The match of \<open>BridgeError::code\<close>, arm by arm; the last arm takes every other vault error.\<close>

fun error_code :: "bridge_error \<Rightarrow> rstring" where
  "error_code (Vault (InvalidMasterPassword _)) = str ''invalid_master_password''"
| "error_code (Vault WrongPasswordOrCorruptedVault) = str ''cannot_open_vault''"
| "error_code (Vault EntryNotFound) = str ''entry_not_found''"
| "error_code (Vault VaultTooLarge) = str ''vault_too_large''"
| "error_code (Vault UnsupportedFormatVersion) = str ''unsupported_format''"
| "error_code (Vault (InvalidKdfParameters _)) = str ''invalid_kdf_parameters''"
| "error_code (Vault RandomGenerationFailed) = str ''random_unavailable''"
| "error_code (Vault AlreadyInitialized) = str ''already_initialized''"
| "error_code (Vault Uninitialized) = str ''uninitialized''"
| "error_code MissingMetadata = str ''uninitialized''"
| "error_code Locked = str ''locked''"
| "error_code SavePending = str ''save_pending''"
| "error_code NoSavePending = str ''no_save_pending''"
| "error_code PendingSlotNotVerified = str ''pending_slot_not_verified''"
| "error_code ReadbackMismatch = str ''storage_readback_mismatch''"
| "error_code Serialization = str ''serialization_failed''"
| "error_code NoPasswordChangePending = str ''no_password_change_pending''"
| "error_code (Vault _) = str ''vault_operation_failed''"

section \<open>State and bundles\<close>

record storage_snapshot =
  ss_metadata_json :: "rstring option"
  ss_slot_a_json :: "rstring option"
  ss_slot_b_json :: "rstring option"
  ss_active_pointer_json :: "rstring option"

record pending_save =
  ps_slot :: encrypted_slot
  ps_slot_json :: rstring
  ps_active_pointer :: active_slot
  ps_active_pointer_json :: rstring
  ps_slot_verified :: bool

record pending_password_change =
  pc_metadata :: vault_meta
  pc_metadata_json :: rstring

record vault_bridge =
  vb_vault :: "unlocked_vault option"
  vb_metadata :: "vault_meta option"
  vb_pending :: "pending_save option"
  vb_pending_password_change :: "pending_password_change option"

record create_bundle =
  cb_session :: vault_bridge
  cb_metadata_json :: rstring
  cb_slot_key :: key
  cb_slot_json :: rstring
  cb_active_pointer_json :: rstring

record opened_bundle =
  ob_session :: vault_bridge
  ob_repaired_pointer_json :: "rstring option"

record save_bundle =
  sb_slot_key :: key
  sb_slot_json :: rstring
  sb_active_pointer_json :: rstring

text \<open>
  The two views of an entry that the list and the detail screen get, and \<open>serde_json\<close>'s
  printers for them and for a whole entry: three more functions of the third-party code.
\<close>

record entry_summary =
  sm_id :: rstring
  sm_title :: rstring
  sm_created_at :: u64
  sm_updated_at :: u64

record entry_details =
  dt_id :: rstring
  dt_title :: rstring
  dt_description :: "rstring option"
  dt_created_at :: u64
  dt_updated_at :: u64

record 'r bridge_deps = "'r deps" +
  json_summaries_ser :: "entry_summary list \<Rightarrow> rstring option"
  json_details_ser :: "entry_details \<Rightarrow> rstring option"
  json_entry_ser :: "vault_entry_wire \<Rightarrow> rstring option"

section \<open>Creating and opening\<close>

text \<open>The bridge has a \<open>slot_key\<close> of its own, the same function as that of the repository.\<close>

fun bridge_slot_key :: "slot_id \<Rightarrow> key" where
  "bridge_slot_key A = SLOT_A_KEY"
| "bridge_slot_key B = SLOT_B_KEY"

lemma bridge_slot_key_eq [simp]: "bridge_slot_key slot = slot_key slot"
  by (cases slot) simp_all

declare bridge_slot_key.simps [simp del]

definition bridge_create ::
  "('r, 'z) deps_scheme \<Rightarrow> bytes \<Rightarrow> u64 \<Rightarrow> ('r, bridge_error, create_bundle) eff" where
  "bridge_create L master_password now =
     bindE (map_errE Vault (create_vault L master_password kdf_config_default now)) (\<lambda>created.
     bindE (lift (ok_or Serialization (meta_to_json L (cv_metadata created)))) (\<lambda>metadata_json.
     bindE (lift (ok_or Serialization (slot_to_json L (cv_initial_slot created)))) (\<lambda>slot_json.
     bindE (lift (ok_or Serialization (pointer_to_json L (cv_active_slot created))))
       (\<lambda>active_pointer_json.
     ret \<lparr>cb_session = \<lparr>vb_vault = Some (cv_unlocked created),
            vb_metadata = Some (cv_metadata created), vb_pending = None,
            vb_pending_password_change = None\<rparr>,
          cb_metadata_json = metadata_json,
          cb_slot_key = bridge_slot_key (es_slot (cv_initial_slot created)),
          cb_slot_json = slot_json, cb_active_pointer_json = active_pointer_json\<rparr>))))"

definition insert_optional :: "key \<Rightarrow> rstring option \<Rightarrow> memory \<Rightarrow> memory" where
  "insert_optional key value storage =
     (case value of None \<Rightarrow> storage | Some value \<Rightarrow> memory_insert_raw key value storage)"

text \<open>The repository over a fresh \<open>MemoryStorage\<close> that \<open>open\<close> fills from the snapshot.\<close>

definition snapshot_repository :: "storage_snapshot \<Rightarrow> memory two_slot_repository" where
  "snapshot_repository snapshot =
     repository_storage_mut (insert_optional ACTIVE_SLOT_KEY (ss_active_pointer_json snapshot))
       (repository_storage_mut (insert_optional SLOT_B_KEY (ss_slot_b_json snapshot))
         (repository_storage_mut (insert_optional SLOT_A_KEY (ss_slot_a_json snapshot))
           (repository_storage_mut (insert_optional META_KEY (ss_metadata_json snapshot))
             (repository_new memory_default))))"

definition bridge_open ::
  "'z crypto_lib_scheme \<Rightarrow> bytes \<Rightarrow> storage_snapshot \<Rightarrow> bridge_error + opened_bundle" where
  "bridge_open L master_password snapshot =
     and_then (ok_or MissingMetadata (ss_metadata_json snapshot)) (\<lambda>metadata_json.
     and_then (ok_or (Vault (InvalidMetadata ''metadata JSON is invalid''))
                (meta_from_json L metadata_json)) (\<lambda>metadata.
     case on_repository (open_vault L memory_storage master_password) (snapshot_repository snapshot) of
       (Inl e, _) \<Rightarrow> Inl (Vault e)
     | (Inr opened, repository) \<Rightarrow>
         Inr \<lparr>ob_session = \<lparr>vb_vault = Some (ov_vault opened), vb_metadata = Some metadata,
                vb_pending = None, vb_pending_password_change = None\<rparr>,
              ob_repaired_pointer_json =
                (if ov_active_pointer_repaired opened
                 then memory_raw (repository_storage repository) ACTIVE_SLOT_KEY
                 else None)\<rparr>))"

text \<open>The same on the storage itself.\<close>

definition snapshot_storage :: "storage_snapshot \<Rightarrow> memory" where
  "snapshot_storage snapshot =
     insert_optional ACTIVE_SLOT_KEY (ss_active_pointer_json snapshot)
       (insert_optional SLOT_B_KEY (ss_slot_b_json snapshot)
         (insert_optional SLOT_A_KEY (ss_slot_a_json snapshot)
           (insert_optional META_KEY (ss_metadata_json snapshot) memory_default)))"

lemma snapshot_repository_eq: "snapshot_repository snapshot = repository_new (snapshot_storage snapshot)"
  by (simp add: snapshot_repository_def snapshot_storage_def)

lemma bridge_open_eq:
  "bridge_open L master_password snapshot =
     and_then (ok_or MissingMetadata (ss_metadata_json snapshot)) (\<lambda>metadata_json.
     and_then (ok_or (Vault (InvalidMetadata ''metadata JSON is invalid''))
                (meta_from_json L metadata_json)) (\<lambda>metadata.
     case open_vault L memory_storage master_password (snapshot_storage snapshot) of
       (Inl e, _) \<Rightarrow> Inl (Vault e)
     | (Inr opened, storage) \<Rightarrow>
         Inr \<lparr>ob_session = \<lparr>vb_vault = Some (ov_vault opened), vb_metadata = Some metadata,
                vb_pending = None, vb_pending_password_change = None\<rparr>,
              ob_repaired_pointer_json =
                (if ov_active_pointer_repaired opened then memory_raw storage ACTIVE_SLOT_KEY
                 else None)\<rparr>))"
proof -
  obtain res s where "open_vault L memory_storage master_password (snapshot_storage snapshot) = (res, s)"
    by fastforce
  then show ?thesis by (cases res) (simp_all add: bridge_open_def snapshot_repository_eq)
qed

section \<open>Queries\<close>

definition is_locked :: "vault_bridge \<Rightarrow> bool" where
  "is_locked b \<longleftrightarrow> vb_vault b = None"

definition bridge_generation :: "vault_bridge \<Rightarrow> u64 option" where
  "bridge_generation b = map_option generation_of (vb_vault b)"

definition bridge_persisted_slot :: "vault_bridge \<Rightarrow> slot_id option" where
  "bridge_persisted_slot b = map_option persisted_slot_of (vb_vault b)"

definition vault_ref :: "vault_bridge \<Rightarrow> bridge_error + unlocked_vault" where
  "vault_ref b = ok_or Locked (vb_vault b)"

definition ensure_mutable :: "vault_bridge \<Rightarrow> bridge_error + unit" where
  "ensure_mutable b =
     (if vb_pending b \<noteq> None \<or> vb_pending_password_change b \<noteq> None then Inl SavePending
      else if vb_vault b = None then Inl Locked
      else Inr ())"

definition parse_entry_id :: "'z base64_lib_scheme \<Rightarrow> rstring \<Rightarrow> bridge_error + entry_id" where
  "parse_entry_id L value =
     map_err Vault (map_err (\<lambda>_. InvalidContainer ''entry ID is invalid'')
       (entry_id_from_base64url L value))"

definition bridge_entry ::
  "'z base64_lib_scheme \<Rightarrow> rstring \<Rightarrow> vault_bridge \<Rightarrow> bridge_error + vault_entry" where
  "bridge_entry L id_text b =
     and_then (parse_entry_id L id_text) (\<lambda>eid.
     and_then (vault_ref b) (\<lambda>vault.
     ok_or (Vault EntryNotFound) (find (\<lambda>entry. ve_id entry = eid) (entries_of vault))))"

definition summary_of :: "'z base64_lib_scheme \<Rightarrow> vault_entry \<Rightarrow> entry_summary" where
  "summary_of L entry =
     \<lparr>sm_id = entry_id_to_base64url L (ve_id entry), sm_title = ve_title entry,
      sm_created_at = ve_created_at entry, sm_updated_at = ve_updated_at entry\<rparr>"

definition list_entries_json ::
  "('r, 'z) bridge_deps_scheme \<Rightarrow> vault_bridge \<Rightarrow> bridge_error + rstring" where
  "list_entries_json L b =
     and_then (vault_ref b) (\<lambda>vault.
     ok_or Serialization (json_summaries_ser L (map (summary_of L) (entries_of vault))))"

definition get_entry_json ::
  "('r, 'z) bridge_deps_scheme \<Rightarrow> rstring \<Rightarrow> vault_bridge \<Rightarrow> bridge_error + rstring" where
  "get_entry_json L id_text b =
     and_then (bridge_entry L id_text b) (\<lambda>entry.
     ok_or Serialization (json_entry_ser L (entry_to_wire L entry)))"

definition details_of :: "'z base64_lib_scheme \<Rightarrow> vault_entry \<Rightarrow> entry_details" where
  "details_of L entry =
     \<lparr>dt_id = entry_id_to_base64url L (ve_id entry), dt_title = ve_title entry,
      dt_description = ve_description entry, dt_created_at = ve_created_at entry,
      dt_updated_at = ve_updated_at entry\<rparr>"

definition get_entry_details_json ::
  "('r, 'z) bridge_deps_scheme \<Rightarrow> rstring \<Rightarrow> vault_bridge \<Rightarrow> bridge_error + rstring" where
  "get_entry_details_json L id_text b =
     and_then (bridge_entry L id_text b) (\<lambda>entry.
     ok_or Serialization (json_details_ser L (details_of L entry)))"

definition get_entry_secret ::
  "'z base64_lib_scheme \<Rightarrow> rstring \<Rightarrow> vault_bridge \<Rightarrow> bridge_error + rstring" where
  "get_entry_secret L id_text b =
     and_then (bridge_entry L id_text b) (\<lambda>entry. Inr (ve_secret entry))"

section \<open>Editing\<close>

text \<open>\<open>self.vault_mut()?\<close> followed by a call on the vault, whose error is a \<open>VaultError\<close>.\<close>

definition on_vault ::
  "(unlocked_vault \<Rightarrow> 'a result \<times> unlocked_vault) \<Rightarrow> vault_bridge
     \<Rightarrow> (bridge_error + 'a) \<times> vault_bridge" where
  "on_vault f b =
     (case vb_vault b of
        None \<Rightarrow> (Inl Locked, b)
      | Some vault \<Rightarrow>
          (case f vault of (res, vault') \<Rightarrow> (map_err Vault res, b\<lparr>vb_vault := Some vault'\<rparr>)))"

definition bridge_add_entry ::
  "('r, 'z) deps_scheme \<Rightarrow> rstring \<Rightarrow> rstring \<Rightarrow> rstring option \<Rightarrow> u64
     \<Rightarrow> (vault_bridge \<times> 'r, bridge_error, rstring) eff" where
  "bridge_add_entry L title secret description now = (\<lambda>(b, r).
     case ensure_mutable b of
       Inl e \<Rightarrow> (Inl e, (b, r))
     | Inr _ \<Rightarrow>
         (case vb_vault b of
            None \<Rightarrow> (Inl Locked, (b, r))
          | Some vault \<Rightarrow>
              (case add_entry L \<lparr>ne_title = title, ne_secret = secret, ne_description = description\<rparr>
                      now (vault, r) of
                 (Inl e, (vault', r')) \<Rightarrow> (Inl (Vault e), (b\<lparr>vb_vault := Some vault'\<rparr>, r'))
               | (Inr eid, (vault', r')) \<Rightarrow>
                   (Inr (entry_id_to_base64url L eid), (b\<lparr>vb_vault := Some vault'\<rparr>, r')))))"

definition bridge_update_entry ::
  "'z base64_lib_scheme \<Rightarrow> rstring \<Rightarrow> rstring \<Rightarrow> rstring \<Rightarrow> rstring option \<Rightarrow> u64 \<Rightarrow> vault_bridge
     \<Rightarrow> (bridge_error + unit) \<times> vault_bridge" where
  "bridge_update_entry L id_text title secret description now b =
     (case ensure_mutable b of
        Inl e \<Rightarrow> (Inl e, b)
      | Inr _ \<Rightarrow>
          (case parse_entry_id L id_text of
             Inl e \<Rightarrow> (Inl e, b)
           | Inr eid \<Rightarrow>
               on_vault (update_entry \<lparr>ue_id = eid, ue_title = title, ue_secret = secret,
                 ue_description = description\<rparr> now) b))"

definition bridge_delete_entry ::
  "'z base64_lib_scheme \<Rightarrow> rstring \<Rightarrow> u64 \<Rightarrow> vault_bridge \<Rightarrow> (bridge_error + unit) \<times> vault_bridge" where
  "bridge_delete_entry L id_text now b =
     (case ensure_mutable b of
        Inl e \<Rightarrow> (Inl e, b)
      | Inr _ \<Rightarrow>
          (case parse_entry_id L id_text of
             Inl e \<Rightarrow> (Inl e, b)
           | Inr eid \<Rightarrow> on_vault (delete_entry eid now) b))"

section \<open>The two-phase save\<close>

definition prepare_save ::
  "('r, 'z) deps_scheme \<Rightarrow> (vault_bridge \<times> 'r, bridge_error, save_bundle) eff" where
  "prepare_save L = (\<lambda>(b, r).
     case and_then (ensure_mutable b) (\<lambda>_. vault_ref b) of
       Inl e \<Rightarrow> (Inl e, (b, r))
     | Inr vault \<Rightarrow>
         let target = slot_other (uv_persisted_slot vault) in
         case encrypt_for_slot L vault target r of
           (Inl e, r') \<Rightarrow> (Inl (Vault e), (b, r'))
         | (Inr slot, r') \<Rightarrow>
             let active_pointer =
                   \<lparr>as_version = 1, as_slot = target, as_generation = es_generation slot\<rparr>
             in
             case and_then (ok_or Serialization (slot_to_json L slot)) (\<lambda>slot_json.
                  and_then (ok_or Serialization (pointer_to_json L active_pointer))
                    (\<lambda>active_pointer_json. Inr (slot_json, active_pointer_json))) of
               Inl e \<Rightarrow> (Inl e, (b, r'))
             | Inr (slot_json, active_pointer_json) \<Rightarrow>
                 (Inr \<lparr>sb_slot_key = bridge_slot_key target, sb_slot_json = slot_json,
                       sb_active_pointer_json = active_pointer_json\<rparr>,
                  (b\<lparr>vb_pending := Some \<lparr>ps_slot = slot, ps_slot_json = slot_json,
                      ps_active_pointer = active_pointer,
                      ps_active_pointer_json = active_pointer_json, ps_slot_verified = False\<rparr>\<rparr>, r')))"

definition verify_pending_slot ::
  "'z crypto_lib_scheme \<Rightarrow> rstring \<Rightarrow> vault_bridge \<Rightarrow> (bridge_error + unit) \<times> vault_bridge" where
  "verify_pending_slot L readback_json b =
     (case vb_vault b of
        None \<Rightarrow> (Inl Locked, b)
      | Some vault \<Rightarrow>
     case vb_pending b of
        None \<Rightarrow> (Inl NoSavePending, b)
      | Some pending \<Rightarrow>
          if readback_json \<noteq> ps_slot_json pending then (Inl ReadbackMismatch, b)
          else
            (case slot_from_json L readback_json of
               None \<Rightarrow> (Inl Serialization, b)
             | Some readback \<Rightarrow>
                 if readback \<noteq> ps_slot pending then (Inl ReadbackMismatch, b)
                 else
                   (case verify_next_slot L vault readback of
                      Inl e \<Rightarrow> (Inl (Vault e), b)
                    | Inr _ \<Rightarrow>
                        (Inr (), b\<lparr>vb_pending := Some (pending\<lparr>ps_slot_verified := True\<rparr>)\<rparr>))))"

definition commit_pending_save ::
  "'z crypto_lib_scheme \<Rightarrow> rstring \<Rightarrow> vault_bridge \<Rightarrow> (bridge_error + unit) \<times> vault_bridge" where
  "commit_pending_save L readback_json b =
     (case vb_pending b of
        None \<Rightarrow> (Inl NoSavePending, b)
      | Some pending \<Rightarrow>
          if \<not> ps_slot_verified pending then (Inl PendingSlotNotVerified, b)
          else if readback_json \<noteq> ps_active_pointer_json pending then (Inl ReadbackMismatch, b)
          else
            (case pointer_from_json L readback_json of
               None \<Rightarrow> (Inl Serialization, b)
             | Some readback \<Rightarrow>
                 if readback \<noteq> ps_active_pointer pending then (Inl ReadbackMismatch, b)
                 else
                   (case on_vault (\<lambda>vault. commit_verified_slot L vault (ps_slot pending)) b of
                      (Inl e, b') \<Rightarrow> (Inl e, b')
                    | (Inr _, b') \<Rightarrow> (Inr (), b'\<lparr>vb_pending := None\<rparr>))))"

definition cancel_pending_save :: "vault_bridge \<Rightarrow> vault_bridge" where
  "cancel_pending_save b = b\<lparr>vb_pending := None\<rparr>"

section \<open>The two-phase password change\<close>

definition prepare_password_change ::
  "('r, 'z) deps_scheme \<Rightarrow> bytes \<Rightarrow> bytes \<Rightarrow> (vault_bridge \<times> 'r, bridge_error, rstring) eff" where
  "prepare_password_change L current_master_password new_master_password = (\<lambda>(b, r).
     case and_then (ensure_mutable b) (\<lambda>_.
          and_then (ok_or MissingMetadata (vb_metadata b)) (\<lambda>metadata.
          and_then (vault_ref b) (\<lambda>vault. Inr (metadata, vault)))) of
       Inl e \<Rightarrow> (Inl e, (b, r))
     | Inr (metadata, vault) \<Rightarrow>
         (case rewrap_vault_key L current_master_password new_master_password metadata vault
                 kdf_config_default r of
            (Inl e, r') \<Rightarrow> (Inl (Vault e), (b, r'))
          | (Inr candidate, r') \<Rightarrow>
              (case meta_to_json L candidate of
                 None \<Rightarrow> (Inl Serialization, (b, r'))
               | Some metadata_json \<Rightarrow>
                   (Inr metadata_json,
                    (b\<lparr>vb_pending_password_change := Some \<lparr>pc_metadata = candidate,
                        pc_metadata_json = metadata_json\<rparr>\<rparr>, r')))))"

definition commit_password_change ::
  "'z codec_lib_scheme \<Rightarrow> rstring \<Rightarrow> vault_bridge \<Rightarrow> (bridge_error + unit) \<times> vault_bridge" where
  "commit_password_change L readback_json b =
     (case vb_pending_password_change b of
        None \<Rightarrow> (Inl NoPasswordChangePending, b)
      | Some pending \<Rightarrow>
          if readback_json \<noteq> pc_metadata_json pending then (Inl ReadbackMismatch, b)
          else
            (case meta_from_json L readback_json of
               None \<Rightarrow> (Inl Serialization, b)
             | Some readback \<Rightarrow>
                 if readback \<noteq> pc_metadata pending then (Inl ReadbackMismatch, b)
                 else (Inr (), b\<lparr>vb_metadata := Some (pc_metadata pending),
                        vb_pending_password_change := None\<rparr>)))"

definition cancel_password_change :: "vault_bridge \<Rightarrow> vault_bridge" where
  "cancel_password_change b = b\<lparr>vb_pending_password_change := None\<rparr>"

definition lock :: "vault_bridge \<Rightarrow> vault_bridge" where
  "lock b = b\<lparr>vb_pending := None, vb_pending_password_change := None, vb_metadata := None,
     vb_vault := None\<rparr>"

end
