(* ===== verification/Session.thy ===== *)
theory Session
  imports Bridge Simulation
begin

text \<open>
  The browser session as a state machine. A call of a mutating method of \<open>VaultBridge\<close> is one
  step; \<open>protocol\<close> is the abstract machine over the phases a session can be in (closed, idle,
  saving, changing the password), and the interpretation of \<open>simulation\<close> shows that every
  session follows it. \<open>reachable_session\<close> are the sessions a client can hold, and
  \<open>session_ok\<close> is what is always true of them.
\<close>

section \<open>Calls and steps\<close>

datatype bridge_call =
    AddEntry rstring rstring "rstring option" u64
  | UpdateEntry rstring rstring rstring "rstring option" u64
  | DeleteEntry rstring u64
  | PrepareSave
  | VerifyPendingSlot rstring
  | CommitPendingSave rstring
  | CancelPendingSave
  | PreparePasswordChange bytes bytes
  | CommitPasswordChange rstring
  | CancelPasswordChange
  | Lock

datatype reply = Unit | Text rstring | Bundle save_bundle

definition reply_with :: "('a \<Rightarrow> reply) \<Rightarrow> (bridge_error + 'a) \<times> 's \<Rightarrow> (bridge_error + reply) \<times> 's" where
  "reply_with f p = (case p of (Inl e, s) \<Rightarrow> (Inl e, s) | (Inr x, s) \<Rightarrow> (Inr (f x), s))"

fun bridge_step ::
  "('r, 'z) deps_scheme \<Rightarrow> bridge_call \<Rightarrow> vault_bridge \<times> 'r
     \<Rightarrow> (bridge_error + reply) \<times> (vault_bridge \<times> 'r)" where
  "bridge_step L (AddEntry title secret description now) (b, r) =
     reply_with Text (bridge_add_entry L title secret description now (b, r))"
| "bridge_step L (UpdateEntry eid title secret description now) (b, r) =
     (case bridge_update_entry L eid title secret description now b of
        (res, b') \<Rightarrow> reply_with (\<lambda>_. Unit) (res, (b', r)))"
| "bridge_step L (DeleteEntry eid now) (b, r) =
     (case bridge_delete_entry L eid now b of (res, b') \<Rightarrow> reply_with (\<lambda>_. Unit) (res, (b', r)))"
| "bridge_step L PrepareSave (b, r) = reply_with Bundle (prepare_save L (b, r))"
| "bridge_step L (VerifyPendingSlot readback) (b, r) =
     (case verify_pending_slot L readback b of (res, b') \<Rightarrow> reply_with (\<lambda>_. Unit) (res, (b', r)))"
| "bridge_step L (CommitPendingSave readback) (b, r) =
     (case commit_pending_save L readback b of (res, b') \<Rightarrow> reply_with (\<lambda>_. Unit) (res, (b', r)))"
| "bridge_step L CancelPendingSave (b, r) = (Inr Unit, (cancel_pending_save b, r))"
| "bridge_step L (PreparePasswordChange current new) (b, r) =
     reply_with Text (prepare_password_change L current new (b, r))"
| "bridge_step L (CommitPasswordChange readback) (b, r) =
     (case commit_password_change L readback b of (res, b') \<Rightarrow> reply_with (\<lambda>_. Unit) (res, (b', r)))"
| "bridge_step L CancelPasswordChange (b, r) = (Inr Unit, (cancel_password_change b, r))"
| "bridge_step L Lock (b, r) = (Inr Unit, (lock b, r))"

text \<open>The sessions a client can hold: a created or opened one, after any calls.\<close>

inductive reachable_session :: "('r, 'z) deps_scheme \<Rightarrow> vault_bridge \<Rightarrow> bool"
  for L :: "('r, 'z) deps_scheme" where
  reach_created: "bridge_create L pw now r = (Inr cb, r') \<Longrightarrow> reachable_session L (cb_session cb)"
| reach_opened: "bridge_open L pw snapshot = Inr ob \<Longrightarrow> reachable_session L (ob_session ob)"
| reach_step:
    "reachable_session L b \<Longrightarrow> bridge_step L c (b, r) = (res, (b', r')) \<Longrightarrow> reachable_session L b'"

section \<open>The invariant\<close>

definition session_meta :: "unlocked_vault \<Rightarrow> vault_meta \<Rightarrow> bool" where
  "session_meta v m \<longleftrightarrow> wf_meta m \<and> meta_validate m = Inr () \<and> vm_vault_id m = vault_id_of v \<and>
     vm_created_at m = vc_created_at (uv_container v)"

definition pending_ok :: "'z crypto_lib_scheme \<Rightarrow> unlocked_vault \<Rightarrow> pending_save \<Rightarrow> bool" where
  "pending_ok L v p \<longleftrightarrow>
     slot_to_json L (ps_slot p) = Some (ps_slot_json p) \<and> wf_slot (ps_slot p) \<and>
     ps_active_pointer p = pointer_for (es_slot (ps_slot p)) (es_generation (ps_slot p)) \<and>
     pointer_to_json L (ps_active_pointer p) = Some (ps_active_pointer_json p) \<and>
     verify_next_slot L v (ps_slot p) = Inr ()"

definition change_ok ::
  "'z codec_lib_scheme \<Rightarrow> unlocked_vault \<Rightarrow> pending_password_change \<Rightarrow> bool" where
  "change_ok L v c \<longleftrightarrow> session_meta v (pc_metadata c) \<and>
     meta_to_json L (pc_metadata c) = Some (pc_metadata_json c)"

definition session_ok :: "'z crypto_lib_scheme \<Rightarrow> vault_bridge \<Rightarrow> bool" where
  "session_ok L b \<longleftrightarrow>
     (case vb_vault b of
        None \<Rightarrow> vb_metadata b = None \<and> vb_pending b = None \<and> vb_pending_password_change b = None
      | Some v \<Rightarrow>
          wf_vault v \<and> (\<exists>m. vb_metadata b = Some m \<and> session_meta v m) \<and>
          (vb_pending b = None \<or> vb_pending_password_change b = None) \<and>
          (\<forall>p. vb_pending b = Some p \<longrightarrow> pending_ok L v p) \<and>
          (\<forall>c. vb_pending_password_change b = Some c \<longrightarrow> change_ok L v c))"

definition bridge_inv :: "('r, 'z) deps_scheme \<Rightarrow> vault_bridge \<times> 'r \<Rightarrow> bool" where
  "bridge_inv L s \<longleftrightarrow> deps_laws L \<and> session_ok L (fst s)"

section \<open>Phases and the protocol\<close>

datatype phase =
    Closed
  | Idle u64 slot_id
  | Saving bool u64 slot_id
  | Rekeying u64 slot_id

definition phase_of :: "vault_bridge \<Rightarrow> phase" where
  "phase_of b = (case vb_vault b of
     None \<Rightarrow> Closed
   | Some v \<Rightarrow>
       (case vb_pending b of
          Some p \<Rightarrow> Saving (ps_slot_verified p) (generation_of v) (uv_persisted_slot v)
        | None \<Rightarrow>
            if vb_pending_password_change b = None then Idle (generation_of v) (uv_persisted_slot v)
            else Rekeying (generation_of v) (uv_persisted_slot v)))"

fun exclusive :: "bridge_call \<Rightarrow> bool" where
  "exclusive (AddEntry _ _ _ _) = True"
| "exclusive (UpdateEntry _ _ _ _ _) = True"
| "exclusive (DeleteEntry _ _) = True"
| "exclusive PrepareSave = True"
| "exclusive (PreparePasswordChange _ _) = True"
| "exclusive _ = False"

fun edits :: "bridge_call \<Rightarrow> bool" where
  "edits (AddEntry _ _ _ _) = True"
| "edits (UpdateEntry _ _ _ _ _) = True"
| "edits (DeleteEntry _ _) = True"
| "edits _ = False"

fun busy :: "phase \<Rightarrow> bool" where
  "busy (Saving _ _ _) = True"
| "busy (Rekeying _ _) = True"
| "busy _ = False"

fun saving :: "phase \<Rightarrow> bool" where
  "saving (Saving _ _ _) = True"
| "saving _ = False"

fun rekeying :: "phase \<Rightarrow> bool" where
  "rekeying (Rekeying _ _) = True"
| "rekeying _ = False"

text \<open>
  The abstract machine. A save is prepared, verified, committed, in that order; only the commit
  moves the generation, by one and to the other side. While an operation is pending every call
  that would start another is refused, and a closed session stays closed.
\<close>

inductive protocol :: "bridge_call \<Rightarrow> bridge_error + reply \<Rightarrow> phase \<Rightarrow> phase \<Rightarrow> bool" where
  pr_closed: "exclusive c \<Longrightarrow> protocol c (Inl Locked) Closed Closed"
| pr_busy: "exclusive c \<Longrightarrow> busy p \<Longrightarrow> protocol c (Inl SavePending) p p"
| pr_edit: "edits c \<Longrightarrow> protocol c res (Idle g s) (Idle g s)"
| pr_prepare:
    "sb_slot_key bundle = slot_key (slot_other s) \<Longrightarrow>
     protocol PrepareSave (Inr (Bundle bundle)) (Idle g s) (Saving False g s)"
| pr_prepare_err: "protocol PrepareSave (Inl e) (Idle g s) (Idle g s)"
| pr_verify: "protocol (VerifyPendingSlot t) (Inr Unit) (Saving k g s) (Saving True g s)"
| pr_verify_err:
    "protocol (VerifyPendingSlot t) (Inl ReadbackMismatch) (Saving k g s) (Saving k g s)"
| pr_verify_closed: "protocol (VerifyPendingSlot t) (Inl Locked) Closed Closed"
| pr_verify_none:
    "p \<noteq> Closed \<Longrightarrow> \<not> saving p \<Longrightarrow> protocol (VerifyPendingSlot t) (Inl NoSavePending) p p"
| pr_commit:
    "checked_add g 1 = Some g' \<Longrightarrow>
     protocol (CommitPendingSave t) (Inr Unit) (Saving True g s) (Idle g' (slot_other s))"
| pr_commit_err:
    "protocol (CommitPendingSave t) (Inl ReadbackMismatch) (Saving True g s) (Saving True g s)"
| pr_commit_early:
    "protocol (CommitPendingSave t) (Inl PendingSlotNotVerified) (Saving False g s) (Saving False g s)"
| pr_commit_none: "\<not> saving p \<Longrightarrow> protocol (CommitPendingSave t) (Inl NoSavePending) p p"
| pr_cancel: "protocol CancelPendingSave (Inr Unit) (Saving k g s) (Idle g s)"
| pr_cancel_none: "\<not> saving p \<Longrightarrow> protocol CancelPendingSave (Inr Unit) p p"
| pr_password: "protocol (PreparePasswordChange c n) (Inr (Text t)) (Idle g s) (Rekeying g s)"
| pr_password_err: "protocol (PreparePasswordChange c n) (Inl e) (Idle g s) (Idle g s)"
| pr_password_commit: "protocol (CommitPasswordChange t) (Inr Unit) (Rekeying g s) (Idle g s)"
| pr_password_mismatch:
    "protocol (CommitPasswordChange t) (Inl ReadbackMismatch) (Rekeying g s) (Rekeying g s)"
| pr_password_none:
    "\<not> rekeying p \<Longrightarrow> protocol (CommitPasswordChange t) (Inl NoPasswordChangePending) p p"
| pr_password_cancel: "protocol CancelPasswordChange (Inr Unit) (Rekeying g s) (Idle g s)"
| pr_password_cancel_none: "\<not> rekeying p \<Longrightarrow> protocol CancelPasswordChange (Inr Unit) p p"
| pr_lock: "protocol Lock (Inr Unit) p Closed"

inductive_simps protocol_commit_simps: "protocol (CommitPendingSave t) (Inr x) p p'"
inductive_simps protocol_lock_simps: "protocol Lock res p p'"

section \<open>Case analysis of a session\<close>

lemma session_cases:
  assumes "session_ok L b"
  obtains (closed) "b = \<lparr>vb_vault = None, vb_metadata = None, vb_pending = None,
      vb_pending_password_change = None\<rparr>"
  | (idle) v m where "b = \<lparr>vb_vault = Some v, vb_metadata = Some m, vb_pending = None,
      vb_pending_password_change = None\<rparr>" and "wf_vault v" and "session_meta v m"
  | (saving) v m p where "b = \<lparr>vb_vault = Some v, vb_metadata = Some m, vb_pending = Some p,
      vb_pending_password_change = None\<rparr>" and "wf_vault v" and "session_meta v m" and "pending_ok L v p"
  | (rekeying) v m c where "b = \<lparr>vb_vault = Some v, vb_metadata = Some m, vb_pending = None,
      vb_pending_password_change = Some c\<rparr>" and "wf_vault v" and "session_meta v m" and "change_ok L v c"
proof (cases b)
  case (fields v m p c)
  then show ?thesis using assms that unfolding session_ok_def
    by (cases v; cases p; cases c) auto
qed

lemma session_okI:
  "wf_vault v \<Longrightarrow> session_meta v m \<Longrightarrow>
   session_ok L \<lparr>vb_vault = Some v, vb_metadata = Some m, vb_pending = None,
     vb_pending_password_change = None\<rparr>"
  by (simp add: session_ok_def)

lemma session_ok_closed:
  "session_ok L \<lparr>vb_vault = None, vb_metadata = None, vb_pending = None,
     vb_pending_password_change = None\<rparr>"
  by (simp add: session_ok_def)

section \<open>Edits\<close>

text \<open>What an edit of the entries leaves as it was.\<close>

definition edited :: "unlocked_vault \<Rightarrow> unlocked_vault \<Rightarrow> bool" where
  "edited v v' \<longleftrightarrow> wf_vault v' \<and> vault_id_of v' = vault_id_of v \<and>
     vc_created_at (uv_container v') = vc_created_at (uv_container v) \<and> uv_dek v' = uv_dek v \<and>
     uv_persisted_slot v' = uv_persisted_slot v \<and> generation_of v' = generation_of v"

lemma entry_step_edited:
  assumes "rng_laws L" and "wf_vault v" and step: "entry_step L c (v, r) = (out, (v', r'))"
  shows "edited v v'"
proof -
  have "entry_inv L (v, r)" using assms(1,2) by (simp add: entry_inv_def)
  then have "wf_vault v'" using entry_step_wf [OF _ step] by (simp add: entry_inv_def)
  then show ?thesis using entry_step_frame [OF assms(2) step] by (simp add: edited_def)
qed

lemma add_entry_edited:
  assumes "rng_laws L" and "wf_vault v" and "add_entry L n now (v, r) = (res, (v', r'))"
  shows "edited v v'"
proof -
  obtain out where "entry_step L (Add n now) (v, r) = (out, (v', r'))"
    using assms(3) by (cases res) auto
  then show ?thesis by (rule entry_step_edited [OF assms(1,2)])
qed

lemma update_entry_edited:
  assumes "rng_laws L" and "wf_vault v" and "update_entry u now v = (res, v')"
  shows "edited v v'"
proof -
  obtain out where "entry_step L (Update u now) (v, undefined) = (out, (v', undefined))"
    using assms(3) by (cases res) auto
  then show ?thesis by (rule entry_step_edited [OF assms(1,2)])
qed

lemma delete_entry_edited:
  assumes "rng_laws L" and "wf_vault v" and "delete_entry i now v = (res, v')"
  shows "edited v v'"
proof -
  obtain out where "entry_step L (Delete i now) (v, undefined) = (out, (v', undefined))"
    using assms(3) by (cases res) auto
  then show ?thesis by (rule entry_step_edited [OF assms(1,2)])
qed

lemma edited_meta: "edited v v' \<Longrightarrow> session_meta v m \<Longrightarrow> session_meta v' m"
  by (simp add: edited_def session_meta_def)

text \<open>An edit of an idle session: only the vault changes.\<close>

lemma edit_idle:
  assumes L: "rng_laws L" and v: "wf_vault v" and c: "edits c"
    and step: "bridge_step L c (\<lparr>vb_vault = Some v, vb_metadata = Some m, vb_pending = None,
      vb_pending_password_change = None\<rparr>, r) = (res, (b', r'))"
  obtains v' where "b' = \<lparr>vb_vault = Some v', vb_metadata = Some m, vb_pending = None,
      vb_pending_password_change = None\<rparr>" and "edited v v'"
proof (cases c)
  case (AddEntry title secret description now)
  then show ?thesis using step that add_entry_edited [OF L v]
    by (auto simp: bridge_add_entry_def ensure_mutable_def reply_with_def
        split: prod.splits sum.splits)
next
  case (UpdateEntry eid title secret description now)
  have "edited v v" using v by (simp add: edited_def)
  with UpdateEntry show ?thesis using step that update_entry_edited [OF L v]
    by (auto simp: bridge_update_entry_def on_vault_def ensure_mutable_def reply_with_def
        split: prod.splits sum.splits)
next
  case (DeleteEntry eid now)
  have "edited v v" using v by (simp add: edited_def)
  with DeleteEntry show ?thesis using step that delete_entry_edited [OF L v]
    by (auto simp: bridge_delete_entry_def on_vault_def ensure_mutable_def reply_with_def
        split: prod.splits sum.splits)
qed (use c in simp_all)

lemma exclusive_refused:
  assumes "exclusive c" and "session_ok L b"
  shows "vb_vault b = None \<Longrightarrow> bridge_step L c (b, r) = (Inl Locked, (b, r))"
    and "vb_pending b \<noteq> None \<or> vb_pending_password_change b \<noteq> None \<Longrightarrow>
      bridge_step L c (b, r) = (Inl SavePending, (b, r))"
  using assms
  by (cases c; auto simp: bridge_add_entry_def bridge_update_entry_def bridge_delete_entry_def
      prepare_save_def prepare_password_change_def ensure_mutable_def reply_with_def
      session_ok_def)+


section \<open>The two-phase save\<close>

abbreviation idle_session :: "unlocked_vault \<Rightarrow> vault_meta \<Rightarrow> vault_bridge" where
  "idle_session v m \<equiv> \<lparr>vb_vault = Some v, vb_metadata = Some m, vb_pending = None,
     vb_pending_password_change = None\<rparr>"

abbreviation saving_session :: "unlocked_vault \<Rightarrow> vault_meta \<Rightarrow> pending_save \<Rightarrow> vault_bridge" where
  "saving_session v m p \<equiv> \<lparr>vb_vault = Some v, vb_metadata = Some m, vb_pending = Some p,
     vb_pending_password_change = None\<rparr>"

abbreviation rekeying_session ::
  "unlocked_vault \<Rightarrow> vault_meta \<Rightarrow> pending_password_change \<Rightarrow> vault_bridge" where
  "rekeying_session v m c \<equiv> \<lparr>vb_vault = Some v, vb_metadata = Some m, vb_pending = None,
     vb_pending_password_change = Some c\<rparr>"

lemma next_generation: "checked_add (generation_of v) 1 = Some g \<Longrightarrow> next_container v = (uv_container v)\<lparr>vc_generation := g\<rparr>"
  by (simp add: next_container_def checked_add_Some)

lemma prepare_save_idle:
  assumes L: "deps_laws L" and v: "wf_vault v"
    and step: "prepare_save L (idle_session v m, r) = (res, (b', r'))"
  obtains (failed) e where "res = Inl e" and "b' = idle_session v m"
  | (prepared) p where "b' = saving_session v m p" and "pending_ok L v p"
      and "\<not> ps_slot_verified p" and "res = Inr \<lparr>sb_slot_key = slot_key (slot_other (uv_persisted_slot v)),
        sb_slot_json = ps_slot_json p, sb_active_pointer_json = ps_active_pointer_json p\<rparr>"
      and "encrypt_for_slot L v (slot_other (uv_persisted_slot v)) r = (Inr (ps_slot p), r')"
proof -
  let ?side = "slot_other (uv_persisted_slot v)"
  obtain enc r1 where enc: "encrypt_for_slot L v ?side r = (enc, r1)" by fastforce
  show ?thesis
  proof (cases enc)
    case (Inl e)
    with step enc show ?thesis
      by (intro failed) (auto simp: prepare_save_def ensure_mutable_def vault_ref_def)
  next
    case (Inr slot)
    note enc = enc [unfolded Inr]
    let ?ptr = "\<lparr>as_version = 1, as_slot = ?side, as_generation = es_generation slot\<rparr>"
    show ?thesis
    proof (cases "slot_to_json L slot")
      case None
      with step enc show ?thesis
        by (intro failed) (auto simp: prepare_save_def ensure_mutable_def vault_ref_def Let_def)
    next
      case (Some sj)
      show ?thesis
      proof (cases "pointer_to_json L ?ptr")
        case None
        with Some step enc show ?thesis
          by (intro failed) (auto simp: prepare_save_def ensure_mutable_def vault_ref_def Let_def)
      next
        case (Some pj)
        let ?p = "\<lparr>ps_slot = slot, ps_slot_json = sj, ps_active_pointer = ?ptr,
          ps_active_pointer_json = pj, ps_slot_verified = False\<rparr>"
        obtain g where g: "checked_add (vc_generation (uv_container v)) 1 = Some g"
          and enc': "encrypt_for_slot_at_generation L v ?side g r = (Inr slot, r1)"
          using enc by (auto simp: encrypt_for_slot_Inr)
        note fields = encrypt_for_slot_at_generation_fields [OF enc']
        have "wf_slot slot" using fields(3) v by (simp add: wf_slot_def wf_vault_def wf_container_def)
        moreover have "verify_next_slot L v slot = Inr ()" by (rule verify_own_slot [OF L v g enc'])
        ultimately have "pending_ok L v ?p"
          using Some \<open>slot_to_json L slot = Some sj\<close> fields
          by (simp add: pending_ok_def FORMAT_VERSION_def)
        with Some step enc \<open>slot_to_json L slot = Some sj\<close> show ?thesis
          by (intro prepared [of ?p])
            (auto simp: prepare_save_def ensure_mutable_def vault_ref_def Let_def)
      qed
    qed
  qed
qed

lemma verify_saving:
  assumes L: "deps_laws L" and p: "pending_ok L v p"
  shows "verify_pending_slot L t (saving_session v m p) =
    (if t = ps_slot_json p then (Inr (), saving_session v m (p\<lparr>ps_slot_verified := True\<rparr>))
     else (Inl ReadbackMismatch, saving_session v m p))"
proof -
  have "slot_from_json L (ps_slot_json p) = Some (ps_slot p)"
    using L p by (auto simp: pending_ok_def intro: slot_json_roundtrip)
  with p show ?thesis by (simp add: verify_pending_slot_def pending_ok_def)
qed

lemma commit_saving:
  assumes L: "deps_laws L" and p: "pending_ok L v p"
  shows "commit_pending_save L t (saving_session v m p) =
    (if \<not> ps_slot_verified p then (Inl PendingSlotNotVerified, saving_session v m p)
     else if t = ps_active_pointer_json p
     then (Inr (), idle_session (v\<lparr>uv_container := next_container v,
       uv_persisted_slot := slot_other (uv_persisted_slot v)\<rparr>) m)
     else (Inl ReadbackMismatch, saving_session v m p))"
proof -
  have "pointer_from_json L (ps_active_pointer_json p) = Some (ps_active_pointer p)"
    using L p by (auto simp: pending_ok_def intro: pointer_json_roundtrip)
  moreover have "commit_verified_slot L v (ps_slot p)
      = (Inr (), v\<lparr>uv_container := next_container v,
          uv_persisted_slot := slot_other (uv_persisted_slot v)\<rparr>)"
    using p next_generation [of v]
    by (auto simp: pending_ok_def commit_verified_slot_Inr verify_next_slot_Inr generation_of_def)
  ultimately show ?thesis by (simp add: commit_pending_save_def on_vault_def)
qed

lemma committed_ok:
  assumes "wf_vault v" and "session_meta v m"
  shows "wf_vault (v\<lparr>uv_container := next_container v,
      uv_persisted_slot := slot_other (uv_persisted_slot v)\<rparr>)"
    and "session_meta (v\<lparr>uv_container := next_container v,
      uv_persisted_slot := slot_other (uv_persisted_slot v)\<rparr>) m"
  using assms by (simp_all add: wf_vault_def session_meta_def next_container_def vault_id_of_def)

section \<open>The two-phase password change\<close>

lemma rewrap_session_meta:
  assumes L: "deps_laws L" and m: "session_meta v m"
    and rw: "rewrap_vault_key L cur new m v config r = (Inr m', r')"
  shows "session_meta v m'"
proof -
  obtain kek salt new_kek w r1 where
    dek: "unwrap_dek L kek (vm_wrapped_dek m) (vm_vault_id m) = Inr (uv_dek v)" and
    kdf: "kdf_in_bounds (kdf_from_config salt config)" and
    w: "wrap_dek L new_kek (uv_dek v) (vm_vault_id m) r1 = (Inr w, r')" and
    m': "m' = m\<lparr>vm_kdf := kdf_from_config salt config, vm_wrapped_dek := w\<rparr>"
    using rw by (rule rewrap_vault_key_Inr)
  have "eb_len (wd_nonce w) = 24 \<and> eb_len (wd_ciphertext w) = 48"
    using L wrap_dek_shape [OF _ _ unwrap_dek_length [OF dek] w] by auto
  with kdf have "meta_validate m = Inr () \<Longrightarrow> meta_validate m' = Inr ()"
    unfolding m' meta_validate_ok by simp
  with m show ?thesis unfolding session_meta_def wf_meta_def by (elim conjE) (simp add: m')
qed

lemma prepare_password_idle:
  assumes L: "deps_laws L" and m: "session_meta v m"
    and step: "prepare_password_change L cur new (idle_session v m, r) = (res, (b', r'))"
  obtains (failed) e where "res = Inl e" and "b' = idle_session v m"
  | (prepared) c where "b' = rekeying_session v m c" and "change_ok L v c"
      and "res = Inr (pc_metadata_json c)"
      and "rewrap_vault_key L cur new m v kdf_config_default r = (Inr (pc_metadata c), r')"
proof -
  obtain rw r1 where rw: "rewrap_vault_key L cur new m v kdf_config_default r = (rw, r1)" by fastforce
  show ?thesis
  proof (cases rw)
    case (Inl e)
    with step rw show ?thesis
      by (intro failed) (auto simp: prepare_password_change_def ensure_mutable_def vault_ref_def)
  next
    case (Inr m')
    note rw = rw [unfolded Inr]
    show ?thesis
    proof (cases "meta_to_json L m'")
      case None
      with step rw show ?thesis
        by (intro failed) (auto simp: prepare_password_change_def ensure_mutable_def vault_ref_def)
    next
      case (Some mj)
      let ?c = "\<lparr>pc_metadata = m', pc_metadata_json = mj\<rparr>"
      have "change_ok L v ?c" using Some rewrap_session_meta [OF L m rw] by (simp add: change_ok_def)
      with Some step rw show ?thesis
        by (intro prepared [of ?c])
          (auto simp: prepare_password_change_def ensure_mutable_def vault_ref_def)
    qed
  qed
qed

lemma commit_password_rekeying:
  assumes L: "deps_laws L" and c: "change_ok L v c"
  shows "commit_password_change L t (rekeying_session v m c) =
    (if t = pc_metadata_json c then (Inr (), idle_session v (pc_metadata c))
     else (Inl ReadbackMismatch, rekeying_session v m c))"
proof -
  have "meta_from_json L (pc_metadata_json c) = Some (pc_metadata c)"
    using L c by (auto simp: change_ok_def session_meta_def intro: meta_json_roundtrip)
  then show ?thesis by (simp add: commit_password_change_def)
qed

section \<open>Every step keeps the invariant and follows the protocol\<close>

definition follows ::
  "('r, 'z) deps_scheme \<Rightarrow> bridge_call \<Rightarrow> vault_bridge \<Rightarrow> bridge_error + reply \<Rightarrow> vault_bridge \<Rightarrow> bool" where
  "follows L c b res b' \<longleftrightarrow> session_ok L b' \<and> protocol c res (phase_of b) (phase_of b')"

lemma phase_idle [simp]: "phase_of (idle_session v m) = Idle (generation_of v) (uv_persisted_slot v)"
  by (simp add: phase_of_def)

lemma phase_saving [simp]:
  "phase_of (saving_session v m p) = Saving (ps_slot_verified p) (generation_of v) (uv_persisted_slot v)"
  by (simp add: phase_of_def)

lemma phase_rekeying [simp]:
  "phase_of (rekeying_session v m c) = Rekeying (generation_of v) (uv_persisted_slot v)"
  by (simp add: phase_of_def)

lemma phase_closed [simp]:
  "vb_vault b = None \<Longrightarrow> phase_of b = Closed"
  by (simp add: phase_of_def)

lemma saving_ok:
  "wf_vault v \<Longrightarrow> session_meta v m \<Longrightarrow> pending_ok L v p \<Longrightarrow> session_ok L (saving_session v m p)"
  by (simp add: session_ok_def)

lemma rekeying_ok:
  "wf_vault v \<Longrightarrow> session_meta v m \<Longrightarrow> change_ok L v c \<Longrightarrow> session_ok L (rekeying_session v m c)"
  by (simp add: session_ok_def)

lemma next_phase:
  "verify_next_slot L v slot = Inr () \<Longrightarrow>
     checked_add (generation_of v) 1
       = Some (generation_of (v\<lparr>uv_container := next_container v, uv_persisted_slot := s\<rparr>))"
  using next_generation [of v] by (auto simp: verify_next_slot_Inr generation_of_def)

lemma follows_closed:
  assumes b: "session_ok L b" "vb_vault b = None" and step: "bridge_step L c (b, r) = (res, (b', r'))"
  shows "follows L c b res b'"
proof (cases "exclusive c")
  case True
  with step exclusive_refused(1) [OF True b(1,2)] b show ?thesis
    by (auto simp: follows_def intro: pr_closed)
next
  case False
  have "b = \<lparr>vb_vault = None, vb_metadata = None, vb_pending = None,
      vb_pending_password_change = None\<rparr>"
    using b by (cases b) (simp add: session_ok_def)
  with False step show ?thesis
    by (cases c) (auto simp: follows_def session_ok_closed reply_with_def verify_pending_slot_def
        commit_pending_save_def cancel_pending_save_def commit_password_change_def
        cancel_password_change_def lock_def intro: protocol.intros)
qed

lemma follows_busy:
  assumes b: "session_ok L b" and c: "exclusive c" and busy: "busy (phase_of b)"
    and step: "bridge_step L c (b, r) = (res, (b', r'))"
  shows "follows L c b res b'"
proof -
  have "vb_pending b \<noteq> None \<or> vb_pending_password_change b \<noteq> None"
    using busy by (auto simp: phase_of_def split: option.splits if_splits)
  with step exclusive_refused(2) [OF c b] b pr_busy [OF c busy] show ?thesis
    by (auto simp: follows_def)
qed

lemma follows_idle:
  assumes L: "deps_laws L" and v: "wf_vault v" and m: "session_meta v m"
    and step: "bridge_step L c (idle_session v m, r) = (res, (b', r'))"
  shows "follows L c (idle_session v m) res b'"
proof (cases "edits c")
  case True
  with L have "rng_laws L" by (simp add: deps_laws_def)
  from edit_idle [OF this v True step] obtain v' where
    b': "b' = idle_session v' m" and e: "edited v v'" .
  have "session_ok L b'" unfolding b' using e edited_meta [OF e m] by (intro session_okI) (simp add: edited_def)
  moreover have "generation_of v' = generation_of v" "uv_persisted_slot v' = uv_persisted_slot v"
    using e by (simp_all add: edited_def)
  ultimately show ?thesis using True by (simp add: follows_def b' pr_edit)
next
  case False
  show ?thesis
  proof (cases c)
    case PrepareSave
    with step obtain res0 where ps: "prepare_save L (idle_session v m, r) = (res0, (b', r'))"
      and res: "res = map_sum id Bundle res0"
      by (auto simp: reply_with_def split: prod.splits sum.splits)
    from L v ps show ?thesis
    proof (cases rule: prepare_save_idle)
      case (failed e)
      then show ?thesis using PrepareSave session_okI [OF v m] by (simp add: follows_def res pr_prepare_err)
    next
      case (prepared p)
      then show ?thesis using PrepareSave saving_ok [OF v m]
        by (simp add: follows_def res pr_prepare)
    qed
  next
    case (PreparePasswordChange cur new)
    with step obtain res0 where
      pp: "prepare_password_change L cur new (idle_session v m, r) = (res0, (b', r'))"
      and res: "res = map_sum id Text res0"
      by (auto simp: reply_with_def split: prod.splits sum.splits)
    from L m pp show ?thesis
    proof (cases rule: prepare_password_idle)
      case (failed e)
      then show ?thesis using PreparePasswordChange session_okI [OF v m]
        by (simp add: follows_def res pr_password_err)
    next
      case (prepared p)
      then show ?thesis using PreparePasswordChange rekeying_ok [OF v m]
        by (simp add: follows_def res pr_password)
    qed
  qed (use False step session_okI [OF v m] in \<open>auto simp: follows_def session_ok_closed reply_with_def
      verify_pending_slot_def commit_pending_save_def cancel_pending_save_def
      commit_password_change_def cancel_password_change_def lock_def intro: protocol.intros\<close>)
qed

lemma follows_saving:
  assumes L: "deps_laws L" and v: "wf_vault v" and m: "session_meta v m" and p: "pending_ok L v p"
    and step: "bridge_step L c (saving_session v m p, r) = (res, (b', r'))"
  shows "follows L c (saving_session v m p) res b'"
proof (cases "exclusive c")
  case True
  show ?thesis by (rule follows_busy [OF saving_ok [OF v m p] True _ step]) simp
next
  case False
  have "pending_ok L v (p\<lparr>ps_slot_verified := True\<rparr>)"
    using p unfolding pending_ok_def by (elim conjE) simp
  note ok = saving_ok [OF v m p] saving_ok [OF v m this] session_okI [OF v m]
    session_okI [OF committed_ok [OF v m]]
  have "verify_next_slot L v (ps_slot p) = Inr ()" using p by (simp add: pending_ok_def)
  note next' = next_phase [OF this]
  show ?thesis
  proof (cases c)
    case (VerifyPendingSlot t)
    with step verify_saving [OF L p, of t] ok show ?thesis
      by (auto simp: follows_def reply_with_def intro: pr_verify pr_verify_err split: if_splits)
  next
    case (CommitPendingSave t)
    with step commit_saving [OF L p, of t] ok show ?thesis
      using pr_commit [OF next', of t] by (auto simp: follows_def reply_with_def
          intro: pr_commit_err pr_commit_early split: if_splits)
  qed (use False step ok in \<open>auto simp: follows_def session_ok_closed reply_with_def
      cancel_pending_save_def commit_password_change_def cancel_password_change_def lock_def
      intro: protocol.intros\<close>)
qed

lemma follows_rekeying:
  assumes L: "deps_laws L" and v: "wf_vault v" and m: "session_meta v m" and p: "change_ok L v p"
    and step: "bridge_step L c (rekeying_session v m p, r) = (res, (b', r'))"
  shows "follows L c (rekeying_session v m p) res b'"
proof (cases "exclusive c")
  case True
  show ?thesis by (rule follows_busy [OF rekeying_ok [OF v m p] True _ step]) simp
next
  case False
  have "session_meta v (pc_metadata p)" using p by (simp add: change_ok_def)
  note ok = rekeying_ok [OF v m p] session_okI [OF v m] session_okI [OF v this]
  show ?thesis
  proof (cases c)
    case (CommitPasswordChange t)
    with step commit_password_rekeying [OF L p, of t m] ok show ?thesis
      by (auto simp: follows_def reply_with_def intro: protocol.intros split: if_splits)
  qed (use False step ok in \<open>auto simp: follows_def session_ok_closed reply_with_def
      verify_pending_slot_def commit_pending_save_def
      cancel_pending_save_def commit_password_change_def cancel_password_change_def lock_def
      intro: protocol.intros\<close>)
qed

lemma step_follows:
  assumes L: "deps_laws L" and b: "session_ok L b" and step: "bridge_step L c (b, r) = (res, (b', r'))"
  shows "follows L c b res b'"
  using b
proof (cases rule: session_cases)
  case closed
  then show ?thesis using follows_closed [OF b _ step] by simp
next
  case (idle v m)
  with L step show ?thesis by (simp add: follows_idle)
next
  case (saving v m p)
  with L step show ?thesis by (simp add: follows_saving)
next
  case (rekeying v m p)
  with L step show ?thesis by (simp add: follows_rekeying)
qed

interpretation session: simulation "bridge_step L" "bridge_inv L" "\<lambda>s. phase_of (fst s)" protocol
  for L :: "('r, 'z) deps_scheme"
proof
  fix s :: "vault_bridge \<times> 'r" and c out s'
  assume s: "bridge_inv L s" and step: "bridge_step L c s = (out, s')"
  obtain b r b' r' where "s = (b, r)" "s' = (b', r')" by fastforce
  with s step show "bridge_inv L s'" and "protocol c out (phase_of (fst s)) (phase_of (fst s'))"
    using step_follows [of L b c r out b' r'] by (auto simp: bridge_inv_def follows_def)
qed

section \<open>What a client can hold\<close>

text \<open>On any device, what \<open>open\<close> returns was authenticated under the metadata it read.\<close>

lemma read_candidates_mem:
  "read_candidates L D i ks s = (Inr cs, s') \<Longrightarrow> slot \<in> set cs \<Longrightarrow> slot_validate slot i = Inr ()"
proof (induction ks arbitrary: s cs)
  case (Cons k ks)
  obtain side key where k: "k = (side, key)" by fastforce
  from Cons.prems(1) obtain got t more where rest: "read_candidates L D i ks t = (Inr more, s')"
    and cs: "cs = (case got of
              Some (Some slot) \<Rightarrow>
                if es_slot slot \<noteq> side \<or> \<not> is_ok (slot_validate slot i) then [] else [slot]
            | _ \<Rightarrow> []) @ more"
    by (auto simp: k bindE_Inr Let_def)
  from Cons.prems(2) show ?case
    using Cons.IH [OF rest] by (auto simp: cs is_ok_iff split: option.splits if_splits)
qed simp

lemma decrypt_candidates_mem:
  "decrypt_candidates L dek m slots = Inr cs \<Longrightarrow> (slot, c) \<in> set cs \<Longrightarrow>
     slot \<in> set slots \<and> decrypt_container L dek slot = Inr c \<and> vc_created_at c = vm_created_at m"
  by (induction slots arbitrary: cs)
    (auto simp: and_then_Inr skip_err_Inr split: option.splits if_splits)

lemma open_vault_Inr:
  assumes "open_vault L D pw s = (Inr opened, s')"
  obtains m s1 where "read_required_json D (meta_from_json L) META_KEY MAX_METADATA_JSON_BYTES s
      = (Inr m, s1)"
    and "meta_validate m = Inr ()" and "opens_with L pw m (uv_dek (ov_vault opened))"
    and "wf_vault (ov_vault opened)" and "vault_id_of (ov_vault opened) = vm_vault_id m"
    and "vc_created_at (uv_container (ov_vault opened)) = vm_created_at m"
proof -
  from assms obtain m s1 ptr slots s2 s3 kek cs slot c dek where
    m: "read_required_json D (meta_from_json L) META_KEY MAX_METADATA_JSON_BYTES s = (Inr m, s1)"
      "meta_validate m = Inr ()"
    and slots: "read_candidates L D (vm_vault_id m) [(A, SLOT_A_KEY), (B, SLOT_B_KEY)] s2 = (Inr slots, s3)"
    and kek: "derive_kek L pw (vm_vault_id m) (vm_kdf m) = Inr kek"
    and dek: "unwrap_dek L kek (vm_wrapped_dek m) (vm_vault_id m) = Inr dek"
    and cs: "decrypt_candidates L dek m slots = Inr cs"
    and sel: "select_candidate ptr cs = Inr (slot, c)"
    and o: "ov_vault opened = \<lparr>uv_container = c, uv_dek = dek, uv_persisted_slot = es_slot slot\<rparr>"
    by (auto simp: open_vault_def bindE_Inr Let_def split: if_splits simp del: read_candidates.simps)
      blast+
  have "slot \<in> set slots \<and> decrypt_container L dek slot = Inr c \<and> vc_created_at c = vm_created_at m"
    by (rule decrypt_candidates_mem [OF cs select_candidate_Inr(1) [OF sel]])
  with read_candidates_mem [OF slots] have c: "slot_validate slot (vm_vault_id m) = Inr ()"
    "decrypt_container L dek slot = Inr c" "vc_created_at c = vm_created_at m" by auto
  have "wf_vault (ov_vault opened)"
    using decrypt_container_wf [OF c(2)] c(2) unwrap_dek_length [OF dek]
    by (simp add: o wf_vault_def decrypt_container_Inr)
  moreover have "vc_vault_id c = vm_vault_id m"
    using c(1,2) by (auto simp: decrypt_container_Inr slot_validate_ok)
  ultimately show ?thesis
    using that [OF m] kek dek c(3) by (simp add: o opens_with_def vault_id_of_def)
qed

lemma snapshot_values:
  "ms_values (snapshot_storage snap) =
     (\<lambda>k. if k = ACTIVE_SLOT_KEY then ss_active_pointer_json snap
      else if k = SLOT_B_KEY then ss_slot_b_json snap
      else if k = SLOT_A_KEY then ss_slot_a_json snap
      else if k = META_KEY then ss_metadata_json snap else None)"
  by (auto simp: snapshot_storage_def insert_optional_def memory_insert_raw_def memory_default_def
      fun_eq_iff split: option.splits)

lemma snapshot_reliable: "memory_reliable (snapshot_storage snap)"
  by (simp add: snapshot_storage_def insert_optional_def memory_insert_raw_def memory_default_def
      memory_reliable_def split: option.splits)

lemma bridge_open_Inr:
  assumes "bridge_open L pw snap = Inr ob"
  obtains mj m opened s' where "ss_metadata_json snap = Some mj" and "meta_from_json L mj = Some m"
    and "open_vault L memory_storage pw (snapshot_storage snap) = (Inr opened, s')"
    and "ob = \<lparr>ob_session = idle_session (ov_vault opened) m, ob_repaired_pointer_json =
      (if ov_active_pointer_repaired opened then ms_values s' ACTIVE_SLOT_KEY else None)\<rparr>"
    and "session_meta (ov_vault opened) m" and "wf_vault (ov_vault opened)"
    and "opens_with L pw m (uv_dek (ov_vault opened))"
proof -
  from assms obtain mj m opened s' where o: "ss_metadata_json snap = Some mj"
    "meta_from_json L mj = Some m"
    "open_vault L memory_storage pw (snapshot_storage snap) = (Inr opened, s')"
    "ob = \<lparr>ob_session = idle_session (ov_vault opened) m, ob_repaired_pointer_json =
      (if ov_active_pointer_repaired opened then ms_values s' ACTIVE_SLOT_KEY else None)\<rparr>"
    by (cases "open_vault L memory_storage pw (snapshot_storage snap)";
        cases "fst (open_vault L memory_storage pw (snapshot_storage snap))")
      (auto simp: bridge_open_eq and_then_Inr memory_raw_def)
  obtain m' s1 where m': "read_required_json memory_storage (meta_from_json L) META_KEY
        MAX_METADATA_JSON_BYTES (snapshot_storage snap) = (Inr m', s1)"
    and ok: "meta_validate m' = Inr ()" "opens_with L pw m' (uv_dek (ov_vault opened))"
      "wf_vault (ov_vault opened)" "vault_id_of (ov_vault opened) = vm_vault_id m'"
      "vc_created_at (uv_container (ov_vault opened)) = vm_created_at m'"
    using o(3) by (rule open_vault_Inr)
  have "m' = m"
    using mem.read_required_Inr(2) [OF m'] o(1,2) by (auto simp: stored_json_Some snapshot_values)
  with ok show ?thesis
    using that [OF o] meta_from_json_wf [OF o(2)] by (simp add: session_meta_def)
qed

lemma bridge_create_Inr:
  assumes L: "deps_laws L" and c: "bridge_create L pw now r = (Inr cb, r')"
  obtains cv mj sj pj where "create_vault L pw kdf_config_default now r = (Inr cv, r')"
    and "meta_to_json L (cv_metadata cv) = Some mj" and "slot_to_json L (cv_initial_slot cv) = Some sj"
    and "pointer_to_json L (cv_active_slot cv) = Some pj"
    and "cb = \<lparr>cb_session = idle_session (cv_unlocked cv) (cv_metadata cv), cb_metadata_json = mj,
      cb_slot_key = slot_key (es_slot (cv_initial_slot cv)), cb_slot_json = sj,
      cb_active_pointer_json = pj\<rparr>"
    and "wf_vault (cv_unlocked cv)" and "session_meta (cv_unlocked cv) (cv_metadata cv)"
proof -
  from c obtain cv mj sj pj where cv: "create_vault L pw kdf_config_default now r = (Inr cv, r')"
    "meta_to_json L (cv_metadata cv) = Some mj" "slot_to_json L (cv_initial_slot cv) = Some sj"
    "pointer_to_json L (cv_active_slot cv) = Some pj"
    "cb = \<lparr>cb_session = idle_session (cv_unlocked cv) (cv_metadata cv), cb_metadata_json = mj,
      cb_slot_key = slot_key (es_slot (cv_initial_slot cv)), cb_slot_json = sj,
      cb_active_pointer_json = pj\<rparr>"
    by (auto simp: bridge_create_def bindE_Inr)
  with create_vault_wf [OF L cv(1)] create_vault_match [OF cv(1)] show ?thesis
    by (intro that) (simp_all add: session_meta_def vault_id_of_def)
qed

lemma reachable_ok:
  assumes L: "deps_laws L" and b: "reachable_session L b"
  shows "session_ok L b"
  using b
proof (induction rule: reachable_session.induct)
  case (reach_created pw now r cb r')
  from bridge_create_Inr [OF L this] show ?case by (rule ssubst) (simp_all add: session_okI)
next
  case (reach_opened pw snapshot ob)
  from bridge_open_Inr [OF this] show ?case by (metis session_okI opened_bundle.select_convs(1))
next
  case (reach_step b c r res b' r')
  then show ?case using step_follows [OF L] by (auto simp: follows_def)
qed

end
