(* ===== verification/Float64.thy ===== *)
theory Float64
  imports Rust_String "HOL-Library.Log_Nat"
begin

text \<open>
  What \<open>parse_timestamp\<close> of \<open>crates/vault-wasm/src/wasm.rs\<close> and the controller of the web client
  use of the standard library: an \<open>f64\<close> as its IEEE 754 bit pattern, the tests on it, the decimal printing of an integral value
  and the parser of \<open>u64\<close>. The absolute value of a finite number is counted in units of
  \<open>2 ^ -1075\<close>, the half of the smallest subnormal, so that all comparisons are on naturals.
\<close>

section \<open>Numbers\<close>

type_synonym f64 = "64 word"

definition f64_sign :: "f64 \<Rightarrow> bool" where
  "f64_sign x \<longleftrightarrow> 2 ^ 63 \<le> unat x"

definition f64_exponent :: "f64 \<Rightarrow> nat" where
  "f64_exponent x = unat x div 2 ^ 52 mod 2 ^ 11"

definition f64_fraction :: "f64 \<Rightarrow> nat" where
  "f64_fraction x = unat x mod 2 ^ 52"

definition f64_one :: nat where
  "f64_one = 2 ^ 1075"

definition f64_units :: "f64 \<Rightarrow> nat" where
  "f64_units x =
     (if f64_exponent x = 0 then f64_fraction x * 2
      else (2 ^ 52 + f64_fraction x) * 2 ^ f64_exponent x)"

definition f64_is_finite :: "f64 \<Rightarrow> bool" where
  "f64_is_finite x \<longleftrightarrow> f64_exponent x \<noteq> 2047"

definition f64_is_nan :: "f64 \<Rightarrow> bool" where
  "f64_is_nan x \<longleftrightarrow> f64_exponent x = 2047 \<and> f64_fraction x \<noteq> 0"

text \<open>\<open>x < 0.0\<close>; a negative zero is not less than zero. \<open>x > n\<close> for a natural \<open>n\<close>.\<close>

definition f64_lt_zero :: "f64 \<Rightarrow> bool" where
  "f64_lt_zero x \<longleftrightarrow> \<not> f64_is_nan x \<and> f64_sign x \<and> f64_units x \<noteq> 0"

definition f64_gt_nat :: "f64 \<Rightarrow> nat \<Rightarrow> bool" where
  "f64_gt_nat x n \<longleftrightarrow> \<not> f64_is_nan x \<and> \<not> f64_sign x \<and> n * f64_one < f64_units x"

text \<open>\<open>x.fract() != 0.0\<close> for a finite \<open>x\<close>.\<close>

definition f64_has_fract :: "f64 \<Rightarrow> bool" where
  "f64_has_fract x \<longleftrightarrow> f64_units x mod f64_one \<noteq> 0"

text \<open>\<open>Number.isInteger\<close> and \<open>Number.isSafeInteger\<close> of JavaScript, and the value of an integer.\<close>

definition f64_is_integer :: "f64 \<Rightarrow> bool" where
  "f64_is_integer x \<longleftrightarrow> f64_is_finite x \<and> \<not> f64_has_fract x"

definition f64_is_safe_integer :: "f64 \<Rightarrow> bool" where
  "f64_is_safe_integer x \<longleftrightarrow> f64_is_integer x \<and> f64_units x \<le> 9007199254740991 * f64_one"

definition f64_int :: "f64 \<Rightarrow> int" where
  "f64_int x = (if f64_sign x then - int (f64_units x div f64_one) else int (f64_units x div f64_one))"

text \<open>The sum of two integers that are numbers, where it is below \<open>2 ^ 54\<close>: exact up to \<open>2 ^ 53\<close>, then
  the nearest even integer, and a multiple of four on a tie.\<close>

definition f64_add_int :: "int \<Rightarrow> int \<Rightarrow> int" where
  "f64_add_int a b =
     (let s = a + b in
      if \<bar>s\<bar> \<le> 2 ^ 53 \<or> even s then s else if 4 dvd s - 1 then s - 1 else s + 1)"

lemma f64_add_int_bounds: "a + b - 1 \<le> f64_add_int a b" "f64_add_int a b \<le> a + b + 1"
  by (simp_all add: f64_add_int_def Let_def)

lemma f64_add_int_exact: "\<bar>a + b\<bar> \<le> 2 ^ 53 \<Longrightarrow> f64_add_int a b = a + b"
  by (simp add: f64_add_int_def)

lemma f64_int_safe:
  assumes "f64_is_safe_integer x"
  shows "\<bar>f64_int x\<bar> < 2 ^ 53"
proof -
  have "f64_units x div f64_one \<le> 9007199254740991 * f64_one div f64_one"
    using assms by (intro div_le_mono) (simp add: f64_is_safe_integer_def)
  also have "\<dots> = 9007199254740991" by (simp add: f64_one_def)
  finally show ?thesis by (simp add: f64_int_def)
qed

text \<open>The number nearest to a natural below \<open>2 ^ 64\<close>, to even on a tie: what a JSON parser of
  JavaScript reads for its decimal text.\<close>

definition f64_round :: "nat \<Rightarrow> nat" where
  "f64_round n =
     (if n \<le> 2 ^ 53 then n
      else
        let u = 2 ^ (floorlog 2 n - 53); q = n div u; t = n mod u in
        u * (if 2 * t < u \<or> 2 * t = u \<and> even q then q else Suc q))"

section \<open>Decimal texts\<close>

fun decimal :: "nat \<Rightarrow> rstring" where
  "decimal n = (if n < 10 then [48 + n] else decimal (n div 10) @ [48 + n mod 10])"

declare decimal.simps [simp del]

text \<open>\<open>to_string\<close> of a finite integral number below \<open>2 ^ 53\<close> prints all its digits; the sign bit
  prints as a minus, for a negative zero too.\<close>

definition f64_to_string :: "f64 \<Rightarrow> rstring" where
  "f64_to_string x =
     (if f64_sign x then str ''-'' else []) @ decimal (f64_units x div f64_one)"

text \<open>\<open>str::parse::<u64>\<close>: an optional plus, then digits, with checked arithmetic; a lone sign, an
  empty text and a minus are refused.\<close>

fun parse_digits :: "nat \<Rightarrow> rstring \<Rightarrow> nat option" where
  "parse_digits acc [] = Some acc"
| "parse_digits acc (c # cs) =
     (if 48 \<le> c \<and> c \<le> 57 then
        (if acc * 10 + (c - 48) < 2 ^ 64 then parse_digits (acc * 10 + (c - 48)) cs else None)
      else None)"

definition parse_u64 :: "rstring \<Rightarrow> u64 option" where
  "parse_u64 s =
     (case s of
        [] \<Rightarrow> None
      | c # cs \<Rightarrow> map_option of_nat
          (if c = of_char CHR ''+'' \<and> cs \<noteq> [] then parse_digits 0 cs
           else if cs = [] \<and> (c = of_char CHR ''+'' \<or> c = of_char CHR ''-'') then None
           else parse_digits 0 s))"

section \<open>Printing and parsing\<close>

lemma parse_digits_append:
  "parse_digits acc (s @ t) = (case parse_digits acc s of None \<Rightarrow> None | Some n \<Rightarrow> parse_digits n t)"
  by (induction s arbitrary: acc) auto

lemma decimal_hd: "\<exists>d ds. decimal n = d # ds \<and> 48 \<le> d \<and> d \<le> 57"
proof (induction n rule: decimal.induct)
  case (1 n)
  show ?case
  proof (cases "n < 10")
    case True
    then show ?thesis by (simp add: decimal.simps [of n])
  next
    case False
    with 1 obtain d ds where "decimal (n div 10) = d # ds" "48 \<le> d" "d \<le> 57" by blast
    with False show ?thesis by (simp add: decimal.simps [of n])
  qed
qed

lemma parse_decimal: "n < 2 ^ 64 \<Longrightarrow> parse_digits 0 (decimal n) = Some n"
proof (induction n rule: decimal.induct)
  case (1 n)
  show ?case
  proof (cases "n < 10")
    case True
    then show ?thesis by (simp add: decimal.simps [of n])
  next
    case False
    then have "parse_digits 0 (decimal (n div 10)) = Some (n div 10)" using 1 by simp
    moreover have "n div 10 * 10 + n mod 10 = n" by simp
    ultimately show ?thesis using False 1(2)
      by (subst decimal.simps) (simp add: parse_digits_append)
  qed
qed

lemma parse_u64_decimal: "n < 2 ^ 64 \<Longrightarrow> parse_u64 (decimal n) = Some (of_nat n)"
proof -
  assume n: "n < 2 ^ 64"
  obtain d ds where d: "decimal n = d # ds" "48 \<le> d" "d \<le> 57" using decimal_hd by blast
  have "d \<noteq> of_char CHR ''+''" "d \<noteq> of_char CHR ''-''" using d by auto
  with parse_decimal [OF n] show ?thesis by (simp add: parse_u64_def d)
qed

lemma parse_u64_minus: "parse_u64 (str ''-'' @ s) = None"
  by (cases s) (simp_all add: parse_u64_def str_def)

section \<open>The integers among the numbers\<close>

text \<open>The number with given exponent and fraction and no sign.\<close>

definition f64_make :: "nat \<Rightarrow> nat \<Rightarrow> f64" where
  "f64_make e f = of_nat (e * 2 ^ 52 + f)"

lemma f64_make:
  assumes "e < 2 ^ 11" and "f < 2 ^ 52"
  shows "\<not> f64_sign (f64_make e f)" and "f64_exponent (f64_make e f) = e"
    and "f64_fraction (f64_make e f) = f"
proof -
  have "e * 2 ^ 52 + f < 2 ^ 11 * 2 ^ 52"
  proof -
    have "e * 2 ^ 52 + f < Suc e * 2 ^ 52" using assms(2) by simp
    also have "\<dots> \<le> 2 ^ 11 * 2 ^ 52" using assms(1) by (intro mult_le_mono1) simp
    finally show ?thesis .
  qed
  moreover have "unat (of_nat n :: f64) = n" if "n < 2 ^ 63" for n
    using that by (simp add: unat_of_nat take_bit_nat_eq_self)
  ultimately have "unat (f64_make e f) = e * 2 ^ 52 + f"
    unfolding f64_make_def by (auto simp del: of_nat_add of_nat_mult)
  with assms \<open>e * 2 ^ 52 + f < 2 ^ 11 * 2 ^ 52\<close>
  show "\<not> f64_sign (f64_make e f)" "f64_exponent (f64_make e f) = e"
    "f64_fraction (f64_make e f) = f"
    by (simp_all add: f64_sign_def f64_exponent_def f64_fraction_def)
qed

lemma f64_make_eta: "\<not> f64_sign x \<Longrightarrow> x = f64_make (f64_exponent x) (f64_fraction x)"
proof -
  assume "\<not> f64_sign x"
  then have "unat x div 2 ^ 52 < 2 ^ 11" by (simp add: f64_sign_def div_less_iff_less_mult)
  then have "f64_exponent x * 2 ^ 52 + f64_fraction x = unat x"
    by (simp add: f64_exponent_def f64_fraction_def)
  then show ?thesis by (simp add: f64_make_def)
qed

lemma f64_fraction_less: "f64_fraction x < 2 ^ 52"
  by (simp add: f64_fraction_def)

text \<open>A larger exponent means a larger number.\<close>

lemma f64_units_less:
  assumes "f64_exponent x < f64_exponent y"
  shows "f64_units x < f64_units y"
proof -
  have "f64_units x < 2 ^ 52 * 2 ^ Suc (f64_exponent x)"
    using f64_fraction_less [of x] by (auto simp: f64_units_def)
  also have "\<dots> \<le> 2 ^ 52 * 2 ^ f64_exponent y"
    using assms by (intro mult_le_mono2 power_increasing) simp_all
  also have "\<dots> \<le> f64_units y" using assms by (simp add: f64_units_def)
  finally show ?thesis .
qed

lemma f64_units_inj:
  assumes "f64_units x = f64_units y" and "\<not> f64_sign x" and "\<not> f64_sign y"
  shows "x = y"
proof -
  have e: "f64_exponent x = f64_exponent y"
    using f64_units_less [of x y] f64_units_less [of y x] assms(1) by (cases rule: linorder_cases) auto
  with assms(1) have "f64_fraction x = f64_fraction y" by (simp add: f64_units_def split: if_splits)
  with e f64_make_eta [OF assms(2)] f64_make_eta [OF assms(3)] show ?thesis by simp
qed

text \<open>The number that is the natural \<open>n\<close>, exact below \<open>2 ^ 53\<close>.\<close>

definition f64_of_nat :: "nat \<Rightarrow> f64" where
  "f64_of_nat n =
     (if n = 0 then 0
      else let k = floorlog 2 n - 1 in f64_make (1023 + k) (n * 2 ^ (52 - k) - 2 ^ 52))"

lemma f64_of_nat:
  assumes "n < 2 ^ 53"
  shows "\<not> f64_sign (f64_of_nat n)" and "f64_is_finite (f64_of_nat n)"
    and "f64_units (f64_of_nat n) = n * f64_one"
proof -
  have "\<not> f64_sign (f64_of_nat n) \<and> f64_is_finite (f64_of_nat n) \<and>
      f64_units (f64_of_nat n) = n * f64_one"
  proof (cases "n = 0")
    case True
    then show ?thesis
      by (simp add: f64_of_nat_def f64_sign_def f64_is_finite_def f64_exponent_def f64_units_def
          f64_fraction_def)
  next
    case False
    define k where "k = floorlog 2 n - 1"
    have pos: "floorlog 2 n \<noteq> 0" using False by (simp add: floorlog_eq_zero_iff)
    then have suc: "floorlog 2 n = Suc k" by (simp add: k_def)
    have lo: "2 ^ k \<le> n" and hi: "n < 2 ^ Suc k"
      using floorlog_bounds [of n 2] False by (simp_all add: suc)
    have "floorlog 2 n \<le> 53" using assms by (intro floorlog_leI) simp_all
    then have k: "k \<le> 52" by (simp add: suc)
    have two: "2 ^ k * 2 ^ (52 - k) = (2 ^ 52 :: nat)" using k by (simp flip: power_add)
    have lo': "2 ^ 52 \<le> n * 2 ^ (52 - k)" using mult_le_mono1 [OF lo, of "2 ^ (52 - k)"] two by simp
    have "n * 2 ^ (52 - k) < 2 ^ Suc k * 2 ^ (52 - k)" using hi by simp
    also have "\<dots> = 2 * 2 ^ 52" using two by simp
    finally have f: "n * 2 ^ (52 - k) - 2 ^ 52 < 2 ^ 52" using lo' by simp
    have e: "1023 + k < 2 ^ 11" using k by simp
    have of_n: "f64_of_nat n = f64_make (1023 + k) (n * 2 ^ (52 - k) - 2 ^ 52)"
      using False by (simp add: f64_of_nat_def k_def Let_def)
    have "n * 2 ^ (52 - k) * 2 ^ (1023 + k) = n * 2 ^ (52 - k + (1023 + k))"
      by (simp add: power_add)
    also have "52 - k + (1023 + k) = 1075" using k by simp
    finally have "f64_units (f64_of_nat n) = n * f64_one"
      using lo' by (simp only: of_n f64_units_def f64_make [OF e f] f64_one_def) simp
    with f64_make [OF e f] k show ?thesis by (simp add: of_n f64_is_finite_def)
  qed
  then show "\<not> f64_sign (f64_of_nat n)" "f64_is_finite (f64_of_nat n)"
    "f64_units (f64_of_nat n) = n * f64_one"
    by blast+
qed

lemma f64_of_nat_unique:
  "n < 2 ^ 53 \<Longrightarrow> \<not> f64_sign x \<Longrightarrow> f64_units x = n * f64_one \<Longrightarrow> x = f64_of_nat n"
  by (rule f64_units_inj) (simp_all add: f64_of_nat)

lemma f64_int_of_nat: "n < 2 ^ 53 \<Longrightarrow> f64_int (f64_of_nat n) = int n"
  by (simp add: f64_int_def f64_of_nat) (simp add: f64_one_def)

lemma f64_safe_of_nat: "n < 2 ^ 53 \<Longrightarrow> f64_is_safe_integer (f64_of_nat n)"
  by (simp add: f64_is_safe_integer_def f64_is_integer_def f64_has_fract_def f64_of_nat)

end
