(* ===== verification/Wasm.thy ===== *)
theory Wasm
  imports Session Float64
begin

text \<open>
  The JavaScript interface of \<open>crates/vault-wasm/src/wasm.rs\<close>: a session class around
  \<open>VaultBridge\<close>, three bundle classes around what the bridge hands out, the conversion of
  JavaScript numbers to timestamps and of errors to their codes. \<open>BrowserCryptoRng\<close> forwards to
  the \<open>getrandom\<close> package, so it is the random source of the parameter record. A \<open>&mut self\<close>
  method returns the session updated beside the state of the random source.
\<close>

section \<open>Errors and timestamps\<close>

type_synonym js_value = rstring

definition to_js_error :: "bridge_error \<Rightarrow> js_value" where
  "to_js_error error = error_code error"

definition parse_timestamp :: "f64 \<Rightarrow> js_value + u64" where
  "parse_timestamp value =
     (if \<not> f64_is_finite value \<or> f64_lt_zero value \<or> f64_has_fract value
         \<or> f64_gt_nat value 9007199254740991
      then Inl (str ''invalid_timestamp'')
      else ok_or (str ''invalid_timestamp'') (parse_u64 (f64_to_string value)))"

section \<open>Sessions and bundles\<close>

record wasm_vault_session =
  wv_inner :: vault_bridge

record wasm_create_bundle =
  wc_inner :: "create_bundle option"

record wasm_open_bundle =
  wo_inner :: "opened_bundle option"

record wasm_save_bundle =
  ws_inner :: save_bundle

definition wasm_create_bundle_new :: "create_bundle \<Rightarrow> wasm_create_bundle" where
  "wasm_create_bundle_new inner = \<lparr>wc_inner = Some inner\<rparr>"

definition wasm_open_bundle_new :: "opened_bundle \<Rightarrow> wasm_open_bundle" where
  "wasm_open_bundle_new inner = \<lparr>wo_inner = Some inner\<rparr>"

definition wasm_save_bundle_new :: "save_bundle \<Rightarrow> wasm_save_bundle" where
  "wasm_save_bundle_new inner = \<lparr>ws_inner = inner\<rparr>"

definition wasm_create ::
  "('r, 'z) deps_scheme \<Rightarrow> rstring \<Rightarrow> f64 \<Rightarrow> ('r, js_value, wasm_create_bundle) eff" where
  "wasm_create L master_password now =
     bindE (lift (parse_timestamp now)) (\<lambda>now.
     bindE (map_errE to_js_error (bridge_create L (as_bytes master_password) now)) (\<lambda>bundle.
     ret (wasm_create_bundle_new bundle)))"

definition wasm_open ::
  "'z crypto_lib_scheme \<Rightarrow> rstring \<Rightarrow> rstring option \<Rightarrow> rstring option \<Rightarrow> rstring option
     \<Rightarrow> rstring option \<Rightarrow> js_value + wasm_open_bundle" where
  "wasm_open L master_password metadata_json slot_a_json slot_b_json active_pointer_json =
     and_then (map_err to_js_error (bridge_open L (as_bytes master_password)
       \<lparr>ss_metadata_json = metadata_json, ss_slot_a_json = slot_a_json,
        ss_slot_b_json = slot_b_json, ss_active_pointer_json = active_pointer_json\<rparr>))
       (\<lambda>bundle. Inr (wasm_open_bundle_new bundle))"

section \<open>Queries\<close>

definition wasm_is_locked :: "wasm_vault_session \<Rightarrow> bool" where
  "wasm_is_locked w = is_locked (wv_inner w)"

definition wasm_generation :: "wasm_vault_session \<Rightarrow> rstring option" where
  "wasm_generation w = map_option (\<lambda>value. decimal (unat value)) (bridge_generation (wv_inner w))"

fun slot_name :: "slot_id \<Rightarrow> rstring" where
  "slot_name A = str ''a''"
| "slot_name B = str ''b''"

definition wasm_persisted_slot :: "wasm_vault_session \<Rightarrow> rstring option" where
  "wasm_persisted_slot w = map_option slot_name (bridge_persisted_slot (wv_inner w))"

definition wasm_list_entries_json ::
  "('r, 'z) bridge_deps_scheme \<Rightarrow> wasm_vault_session \<Rightarrow> js_value + rstring" where
  "wasm_list_entries_json L w = map_err to_js_error (list_entries_json L (wv_inner w))"

definition wasm_get_entry_json ::
  "('r, 'z) bridge_deps_scheme \<Rightarrow> rstring \<Rightarrow> wasm_vault_session \<Rightarrow> js_value + rstring" where
  "wasm_get_entry_json L id_text w = map_err to_js_error (get_entry_json L id_text (wv_inner w))"

definition wasm_get_entry_details_json ::
  "('r, 'z) bridge_deps_scheme \<Rightarrow> rstring \<Rightarrow> wasm_vault_session \<Rightarrow> js_value + rstring" where
  "wasm_get_entry_details_json L id_text w =
     map_err to_js_error (get_entry_details_json L id_text (wv_inner w))"

definition wasm_get_entry_secret ::
  "'z base64_lib_scheme \<Rightarrow> rstring \<Rightarrow> wasm_vault_session \<Rightarrow> js_value + rstring" where
  "wasm_get_entry_secret L id_text w = map_err to_js_error (get_entry_secret L id_text (wv_inner w))"

section \<open>Calls that change the session\<close>

definition wasm_add_entry ::
  "('r, 'z) deps_scheme \<Rightarrow> rstring \<Rightarrow> rstring \<Rightarrow> rstring option \<Rightarrow> f64
     \<Rightarrow> (wasm_vault_session \<times> 'r, js_value, rstring) eff" where
  "wasm_add_entry L title secret description now = (\<lambda>(w, r).
     case parse_timestamp now of
       Inl e \<Rightarrow> (Inl e, (w, r))
     | Inr now \<Rightarrow>
         (case bridge_add_entry L title secret description now (wv_inner w, r) of
            (res, (b, r')) \<Rightarrow> (map_err to_js_error res, (w\<lparr>wv_inner := b\<rparr>, r'))))"

definition wasm_update_entry ::
  "'z base64_lib_scheme \<Rightarrow> rstring \<Rightarrow> rstring \<Rightarrow> rstring \<Rightarrow> rstring option \<Rightarrow> f64
     \<Rightarrow> wasm_vault_session \<Rightarrow> (js_value + unit) \<times> wasm_vault_session" where
  "wasm_update_entry L id_text title secret description now w =
     (case parse_timestamp now of
        Inl e \<Rightarrow> (Inl e, w)
      | Inr now \<Rightarrow>
          (case bridge_update_entry L id_text title secret description now (wv_inner w) of
             (res, b) \<Rightarrow> (map_err to_js_error res, w\<lparr>wv_inner := b\<rparr>)))"

definition wasm_delete_entry ::
  "'z base64_lib_scheme \<Rightarrow> rstring \<Rightarrow> f64 \<Rightarrow> wasm_vault_session
     \<Rightarrow> (js_value + unit) \<times> wasm_vault_session" where
  "wasm_delete_entry L id_text now w =
     (case parse_timestamp now of
        Inl e \<Rightarrow> (Inl e, w)
      | Inr now \<Rightarrow>
          (case bridge_delete_entry L id_text now (wv_inner w) of
             (res, b) \<Rightarrow> (map_err to_js_error res, w\<lparr>wv_inner := b\<rparr>)))"

definition wasm_prepare_save ::
  "('r, 'z) deps_scheme \<Rightarrow> (wasm_vault_session \<times> 'r, js_value, wasm_save_bundle) eff" where
  "wasm_prepare_save L = (\<lambda>(w, r).
     case prepare_save L (wv_inner w, r) of
       (Inl e, (b, r')) \<Rightarrow> (Inl (to_js_error e), (w\<lparr>wv_inner := b\<rparr>, r'))
     | (Inr bundle, (b, r')) \<Rightarrow> (Inr (wasm_save_bundle_new bundle), (w\<lparr>wv_inner := b\<rparr>, r')))"

definition wasm_verify_pending_slot ::
  "'z crypto_lib_scheme \<Rightarrow> rstring \<Rightarrow> wasm_vault_session
     \<Rightarrow> (js_value + unit) \<times> wasm_vault_session" where
  "wasm_verify_pending_slot L readback_json w =
     (case verify_pending_slot L readback_json (wv_inner w) of
        (res, b) \<Rightarrow> (map_err to_js_error res, w\<lparr>wv_inner := b\<rparr>))"

definition wasm_commit_pending_save ::
  "'z crypto_lib_scheme \<Rightarrow> rstring \<Rightarrow> wasm_vault_session
     \<Rightarrow> (js_value + unit) \<times> wasm_vault_session" where
  "wasm_commit_pending_save L readback_json w =
     (case commit_pending_save L readback_json (wv_inner w) of
        (res, b) \<Rightarrow> (map_err to_js_error res, w\<lparr>wv_inner := b\<rparr>))"

definition wasm_cancel_pending_save :: "wasm_vault_session \<Rightarrow> wasm_vault_session" where
  "wasm_cancel_pending_save w = w\<lparr>wv_inner := cancel_pending_save (wv_inner w)\<rparr>"

definition wasm_prepare_password_change ::
  "('r, 'z) deps_scheme \<Rightarrow> rstring \<Rightarrow> rstring \<Rightarrow> (wasm_vault_session \<times> 'r, js_value, rstring) eff"
  where
  "wasm_prepare_password_change L current_master_password new_master_password = (\<lambda>(w, r).
     case prepare_password_change L (as_bytes current_master_password) (as_bytes new_master_password)
            (wv_inner w, r) of
       (res, (b, r')) \<Rightarrow> (map_err to_js_error res, (w\<lparr>wv_inner := b\<rparr>, r')))"

definition wasm_commit_password_change ::
  "'z codec_lib_scheme \<Rightarrow> rstring \<Rightarrow> wasm_vault_session
     \<Rightarrow> (js_value + unit) \<times> wasm_vault_session" where
  "wasm_commit_password_change L readback_json w =
     (case commit_password_change L readback_json (wv_inner w) of
        (res, b) \<Rightarrow> (map_err to_js_error res, w\<lparr>wv_inner := b\<rparr>))"

definition wasm_cancel_password_change :: "wasm_vault_session \<Rightarrow> wasm_vault_session" where
  "wasm_cancel_password_change w = w\<lparr>wv_inner := cancel_password_change (wv_inner w)\<rparr>"

definition wasm_lock :: "wasm_vault_session \<Rightarrow> wasm_vault_session" where
  "wasm_lock w = w\<lparr>wv_inner := lock (wv_inner w)\<rparr>"

section \<open>Bundles\<close>

definition wasm_create_bundle_inner :: "wasm_create_bundle \<Rightarrow> js_value + create_bundle" where
  "wasm_create_bundle_inner bundle = ok_or (str ''bundle_consumed'') (wc_inner bundle)"

definition wasm_metadata_json :: "wasm_create_bundle \<Rightarrow> js_value + rstring" where
  "wasm_metadata_json bundle =
     and_then (wasm_create_bundle_inner bundle) (\<lambda>inner. Inr (cb_metadata_json inner))"

definition wasm_slot_key :: "wasm_create_bundle \<Rightarrow> js_value + key" where
  "wasm_slot_key bundle =
     and_then (wasm_create_bundle_inner bundle) (\<lambda>inner. Inr (cb_slot_key inner))"

definition wasm_slot_json :: "wasm_create_bundle \<Rightarrow> js_value + rstring" where
  "wasm_slot_json bundle =
     and_then (wasm_create_bundle_inner bundle) (\<lambda>inner. Inr (cb_slot_json inner))"

definition wasm_active_pointer_json :: "wasm_create_bundle \<Rightarrow> js_value + rstring" where
  "wasm_active_pointer_json bundle =
     and_then (wasm_create_bundle_inner bundle) (\<lambda>inner. Inr (cb_active_pointer_json inner))"

text \<open>\<open>takeSession\<close> consumes its bundle, so nothing of it comes back.\<close>

definition create_take_session :: "wasm_create_bundle \<Rightarrow> js_value + wasm_vault_session" where
  "create_take_session bundle =
     and_then (ok_or (str ''bundle_consumed'') (wc_inner bundle)) (\<lambda>inner.
     Inr \<lparr>wv_inner = cb_session inner\<rparr>)"

definition wasm_repaired_pointer_json :: "wasm_open_bundle \<Rightarrow> rstring option" where
  "wasm_repaired_pointer_json bundle =
     (case wo_inner bundle of None \<Rightarrow> None | Some inner \<Rightarrow> ob_repaired_pointer_json inner)"

definition open_take_session :: "wasm_open_bundle \<Rightarrow> js_value + wasm_vault_session" where
  "open_take_session bundle =
     and_then (ok_or (str ''bundle_consumed'') (wo_inner bundle)) (\<lambda>inner.
     Inr \<lparr>wv_inner = ob_session inner\<rparr>)"

definition save_bundle_slot_key :: "wasm_save_bundle \<Rightarrow> key" where
  "save_bundle_slot_key bundle = sb_slot_key (ws_inner bundle)"

definition save_bundle_slot_json :: "wasm_save_bundle \<Rightarrow> rstring" where
  "save_bundle_slot_json bundle = sb_slot_json (ws_inner bundle)"

definition save_bundle_active_pointer_json :: "wasm_save_bundle \<Rightarrow> rstring" where
  "save_bundle_active_pointer_json bundle = sb_active_pointer_json (ws_inner bundle)"

end
