(* ===== verification/Session_Properties.thy ===== *)
theory Session_Properties
  imports Session Recovery_Properties
begin

text \<open>
  The properties of the browser session: it follows the protocol, it is well formed at every
  reachable moment, commits are counted by the generation, locking is final, what a client writes
  it can read, and the lists that the screen shows do not depend on the secrets.
\<close>

section \<open>The sample session\<close>

abbreviation sample_session :: vault_bridge where
  "sample_session \<equiv> idle_session (cv_unlocked sample_created) (cv_metadata sample_created)"

lemma sample_bridge_create:
  obtains cb where "bridge_create sample sample_password 100 0 = (Inr cb, 5)"
    and "cb_session cb = sample_session"
proof -
  from sample_initialize show ?thesis
  proof (cases rule: mem.initialize_cases)
    case (written s0)
    obtain e mj p where "slot_to_json sample (cv_initial_slot sample_created) = Some e"
      "meta_to_json sample (cv_metadata sample_created) = Some mj"
      "pointer_to_json sample (cv_active_slot sample_created) = Some p"
      using written(6) by (rule mem.initial_writes_Inr)
    with sample_created that show ?thesis by (simp add: bridge_create_def bindE_apply map_errE_apply)
  qed simp
qed

lemma sample_reachable: "reachable_session sample sample_session"
  using sample_bridge_create reach_created by metis

lemma sample_session_ok: "session_ok sample sample_session"
  by (rule reachable_ok [OF sample_deps_laws sample_reachable])

section \<open>The protocol\<close>

text \<open>C3: The session follows the protocol. Whatever calls a client makes on a session it holds, in
  whatever order and with whatever arguments, every reply and every change of phase is one the
  protocol allows: a second operation is refused while one is pending, a save is committed only
  after its slot was read back and verified and advances exactly one generation to the other
  side, a cancelled one changes nothing, and a closed session stays closed.\<close>

theorem session_follows_protocol:
  assumes "deps_laws L" and "reachable_session L b"
    and "run_all (bridge_step L) calls (b, r) = (outs, (b', r'))"
  shows "spec_run protocol calls outs (phase_of b) (phase_of b')"
proof -
  have "bridge_inv L (b, r)" using assms(1) reachable_ok [OF assms(1,2)] by (simp add: bridge_inv_def)
  from session.run_spec [OF this assms(3)] show ?thesis by simp
qed

lemma session_follows_protocol_witness:
  "\<exists>outs b' r'. run_all (bridge_step sample) [PrepareSave, PrepareSave, CommitPendingSave [], Lock]
       (sample_session, 5) = (outs, (b', r')) \<and>
     spec_run protocol [PrepareSave, PrepareSave, CommitPendingSave [], Lock] outs (Idle 0 A)
       (phase_of b')"
proof -
  obtain outs b' r' where run: "run_all (bridge_step sample)
      [PrepareSave, PrepareSave, CommitPendingSave [], Lock] (sample_session, 5) = (outs, (b', r'))"
    by (metis surj_pair)
  have "phase_of sample_session = Idle 0 A"
    by (simp add: generation_of_def create_vault_match [OF sample_created])
  with session_follows_protocol [OF sample_deps_laws sample_reachable run] run show ?thesis by metis
qed

text \<open>C13: Every session a client can hold is well formed: an open one carries a valid container with
  a 32-byte data key and the metadata of the same vault, at most one operation is pending, a
  pending save is the encryption of the session's own next state and a pending password change
  belongs to the same vault; a closed one holds nothing.\<close>

theorem reachable_session_well_formed:
  assumes "deps_laws L" and "reachable_session L b"
  shows "case vb_vault b of
      None \<Rightarrow> vb_metadata b = None \<and> vb_pending b = None \<and> vb_pending_password_change b = None
    | Some v \<Rightarrow> wf_vault v \<and> length (uv_dek v) = 32 \<and>
        container_validate (uv_container v) (vault_id_of v) (generation_of v) = Inr () \<and>
        (\<exists>m. vb_metadata b = Some m \<and> session_meta v m) \<and>
        (case (vb_pending b, vb_pending_password_change b) of
           (Some p, Some c) \<Rightarrow> False
         | (Some p, None) \<Rightarrow> pending_ok L v p
         | (None, Some c) \<Rightarrow> change_ok L v c
         | (None, None) \<Rightarrow> True)"
proof -
  have "wf_vault v \<Longrightarrow> length (uv_dek v) = 32 \<and>
      container_validate (uv_container v) (vault_id_of v) (generation_of v) = Inr ()" for v
    by (simp add: wf_vault_def container_validate_ok vault_id_of_def generation_of_def KEY_BYTES_def)
  with reachable_ok [OF assms] show ?thesis
    by (cases rule: session_cases) simp_all
qed

lemma reachable_session_well_formed_witness:
  "wf_vault (cv_unlocked sample_created) \<and>
     (\<exists>m. vb_metadata sample_session = Some m \<and> session_meta (cv_unlocked sample_created) m)"
  using reachable_session_well_formed [OF sample_deps_laws sample_reachable] by simp

text \<open>The successful commits among the replies of a run.\<close>

fun committed :: "bridge_call \<Rightarrow> bridge_error + reply \<Rightarrow> bool" where
  "committed (CommitPendingSave t) (Inr x) = True"
| "committed _ _ = False"

definition commits :: "bridge_call list \<Rightarrow> (bridge_error + reply) list \<Rightarrow> nat" where
  "commits calls outs = length (filter (\<lambda>(c, out). committed c out) (zip calls outs))"

fun position :: "phase \<Rightarrow> (u64 \<times> slot_id) option" where
  "position Closed = None"
| "position (Idle g s) = Some (g, s)"
| "position (Saving k g s) = Some (g, s)"
| "position (Rekeying g s) = Some (g, s)"

lemma protocol_position:
  "protocol c out p p' \<Longrightarrow> position p' = Some (g', s') \<Longrightarrow>
     \<exists>g s. position p = Some (g, s) \<and>
       (if committed c out then checked_add g 1 = Some g' \<and> s' = slot_other s else g' = g \<and> s' = s)"
  by (induction rule: protocol.induct) (auto elim: edits.elims)

lemma spec_run_position:
  "spec_run protocol calls outs p p' \<Longrightarrow> position p' = Some (g', s') \<Longrightarrow>
     \<exists>g s. position p = Some (g, s) \<and> unat g' = unat g + commits calls outs \<and>
       s' = (slot_other ^^ commits calls outs) s"
proof (induction arbitrary: g' s' rule: spec_run.induct)
  case (spec_run_Cons c out p p1 calls outs p2)
  obtain g1 s1 where 1: "position p1 = Some (g1, s1)" "unat g' = unat g1 + commits calls outs"
    "s' = (slot_other ^^ commits calls outs) s1"
    using spec_run_Cons.IH [OF spec_run_Cons.prems] by blast
  obtain g s where "position p = Some (g, s)" "if committed c out
      then checked_add g 1 = Some g1 \<and> s1 = slot_other s else g1 = g \<and> s1 = s"
    using protocol_position [OF spec_run_Cons.hyps(1) 1(1)] by blast
  with 1 show ?case
    by (auto simp: commits_def funpow_swap1 dest: checked_add_unat split: if_splits)
qed (simp add: commits_def)

text \<open>The generation counts the commits. However many calls a client makes, a session that is
  still open is at its first generation plus the number of saves that were committed, with no
  wrap-around, on the side that this many changes of side lead to.\<close>

theorem generation_counts_commits:
  assumes "deps_laws L" and "reachable_session L b"
    and "run_all (bridge_step L) calls (b, r) = (outs, (b', r'))" and "vb_vault b' = Some v'"
  shows "\<exists>v. vb_vault b = Some v \<and> unat (generation_of v') = unat (generation_of v) + commits calls outs \<and>
    uv_persisted_slot v' = (slot_other ^^ commits calls outs) (uv_persisted_slot v)"
proof -
  have pos: "position (phase_of x) = map_option (\<lambda>v. (generation_of v, uv_persisted_slot v)) (vb_vault x)"
    for x by (simp add: phase_of_def split: option.split)
  have "bridge_inv L (b, r)" using assms(1) reachable_ok [OF assms(1,2)] by (simp add: bridge_inv_def)
  from session.run_spec [OF this assms(3)] have "spec_run protocol calls outs (phase_of b) (phase_of b')"
    by simp
  from spec_run_position [OF this] assms(4) show ?thesis by (auto simp: pos)
qed

lemma generation_counts_commits_witness:
  "\<exists>outs b' r'. run_all (bridge_step sample) [CommitPendingSave [], CancelPendingSave]
       (sample_session, 5) = (outs, (b', r')) \<and> vb_vault b' = Some (cv_unlocked sample_created) \<and>
     commits [CommitPendingSave [], CancelPendingSave] outs = 0"
proof -
  have run: "run_all (bridge_step sample) [CommitPendingSave [], CancelPendingSave]
      (sample_session, 5) = ([Inl NoSavePending, Inr Unit], (sample_session, 5))"
    by (simp add: commit_pending_save_def cancel_pending_save_def reply_with_def)
  with generation_counts_commits [OF sample_deps_laws sample_reachable run] show ?thesis by simp
qed

section \<open>Locking and errors\<close>

text \<open>What each call answers on a locked session: nothing is pending in it, so there is nothing to
  commit and nothing to cancel.\<close>

fun locked_reply :: "bridge_call \<Rightarrow> bridge_error + reply" where
  "locked_reply (CommitPendingSave _) = Inl NoSavePending"
| "locked_reply (CommitPasswordChange _) = Inl NoPasswordChangePending"
| "locked_reply CancelPendingSave = Inr Unit"
| "locked_reply CancelPasswordChange = Inr Unit"
| "locked_reply Lock = Inr Unit"
| "locked_reply _ = Inl Locked"

lemma locked_step: "bridge_step L c (lock b, r) = (locked_reply c, (lock b, r))"
  by (cases c) (simp_all add: lock_def bridge_add_entry_def bridge_update_entry_def
      bridge_delete_entry_def prepare_save_def prepare_password_change_def ensure_mutable_def
      verify_pending_slot_def commit_pending_save_def cancel_pending_save_def
      commit_password_change_def cancel_password_change_def reply_with_def)

lemma locked_run: "run_all (bridge_step L) calls (lock b, r) = (map locked_reply calls, (lock b, r))"
  by (induction calls) (simp_all add: locked_step Let_def)

text \<open>C38: Locking is final. After \<open>lock\<close>, whatever is called on the session, it holds neither the vault
  nor the key nor any prepared operation, and no randomness is drawn. Every edit, every preparation of
  a save or of a change of the password and the check of a slot answer \<open>Locked\<close>; a commit answers that
  nothing is pending, and only the cancellations and \<open>lock\<close> itself succeed. The list answers \<open>Locked\<close>,
  and a query for an entry, its details or its secret answers \<open>Locked\<close> too, unless the identifier is
  malformed: then it reports that, since it reads the identifier first.\<close>

theorem locking_is_final:
  assumes "run_all (bridge_step L) calls (lock b, r) = (outs, (b', r'))"
  shows "b' = \<lparr>vb_vault = None, vb_metadata = None, vb_pending = None, vb_pending_password_change = None\<rparr>
    \<and> r' = r \<and> outs = map locked_reply calls
    \<and> is_locked b' \<and> bridge_generation b' = None \<and> bridge_persisted_slot b' = None
    \<and> list_entries_json K b' = Inl Locked
    \<and> (let answer = (case parse_entry_id K t of Inl e \<Rightarrow> Inl e | Inr _ \<Rightarrow> Inl Locked) in
       get_entry_json K t b' = answer \<and> get_entry_details_json K t b' = answer \<and> get_entry_secret K t b' = answer)"
proof -
  have run: "outs = map locked_reply calls" "b' = lock b" "r' = r" using assms by (simp_all add: locked_run)
  have "bridge_entry K t b' = (case parse_entry_id K t of Inl e \<Rightarrow> Inl e | Inr _ \<Rightarrow> Inl Locked)"
    by (cases "parse_entry_id K t") (simp_all add: run lock_def bridge_entry_def vault_ref_def)
  then show ?thesis
    by (cases "parse_entry_id K t") (simp_all add: run lock_def is_locked_def bridge_generation_def
        bridge_persisted_slot_def list_entries_json_def vault_ref_def get_entry_json_def
        get_entry_details_json_def get_entry_secret_def)
qed

lemma locking_is_final_witness:
  "\<exists>outs b'. run_all (bridge_step sample) [PrepareSave, CommitPendingSave [], Lock, DeleteEntry [] 300]
      (lock sample_session, 5) = (outs, (b', 5)) \<and>
     outs = [Inl Locked, Inl NoSavePending, Inr Unit, Inl Locked] \<and> is_locked b' \<and>
     (\<forall>K :: nat bridge_deps. list_entries_json K b' = Inl Locked)"
proof -
  obtain outs b' r' where run: "run_all (bridge_step sample)
      [PrepareSave, CommitPendingSave [], Lock, DeleteEntry [] 300] (lock sample_session, 5) = (outs, (b', r'))"
    by (metis surj_pair)
  note final = locking_is_final [OF run]
  have list: "list_entries_json K b' = Inl Locked" for K :: "nat bridge_deps" using final by blast
  have locked: "is_locked b'" and r': "r' = 5"
    and outs: "outs = map locked_reply [PrepareSave, CommitPendingSave [], Lock, DeleteEntry [] 300]"
    using final by blast+
  have "outs = [Inl Locked, Inl NoSavePending, Inr Unit, Inl Locked]" using outs by simp
  with locked list show ?thesis using run unfolding r' by (intro exI [of _ outs] exI [of _ b'] conjI allI)
qed

text \<open>A call that reports an error has not changed the session, so a client may simply retry or
  continue; only the random source may have advanced.\<close>

theorem failed_call_changes_nothing:
  assumes "bridge_step L c (b, r) = (Inl e, (b', r'))"
  shows "b' = b"
proof -
  have on_vault: "b' = b" if "on_vault f b = (Inl d, b')" "\<And>v x v'. f v = (Inl x, v') \<Longrightarrow> v' = v"
    for f :: "unlocked_vault \<Rightarrow> 'x result \<times> unlocked_vault" and d
    using that by (auto simp: on_vault_def map_err_def split: option.splits prod.splits sum.splits)
  show ?thesis
  proof (cases c)
    case (UpdateEntry eid title secret description now)
    with assms show ?thesis
      by (auto simp: bridge_update_entry_def reply_with_def update_entry_Inl
          split: prod.splits sum.splits dest!: on_vault)
  next
    case (DeleteEntry eid now)
    with assms show ?thesis
      by (auto simp: bridge_delete_entry_def reply_with_def delete_entry_Inl
          split: prod.splits sum.splits dest!: on_vault)
  next
    case (CommitPendingSave t)
    with assms show ?thesis
      by (auto simp: commit_pending_save_def reply_with_def commit_verified_slot_Inl
          split: prod.splits sum.splits option.splits if_splits dest!: on_vault)
  next
    case (AddEntry title secret description now)
    with assms show ?thesis
      by (auto simp: bridge_add_entry_def reply_with_def add_entry_Inl
          split: prod.splits sum.splits option.splits)
  qed (use assms in \<open>auto simp: prepare_save_def prepare_password_change_def verify_pending_slot_def
      commit_password_change_def reply_with_def Let_def
      split: prod.splits sum.splits option.splits if_splits\<close>)
qed

lemma failed_call_changes_nothing_witness:
  "bridge_step sample (CommitPendingSave []) (sample_session, 5)
     = (Inl NoSavePending, (sample_session, 5))"
proof -
  obtain res b' r' where step: "bridge_step sample (CommitPendingSave []) (sample_session, 5)
      = (res, (b', r'))"
    by (metis surj_pair)
  then have "res = Inl NoSavePending" "r' = 5"
    by (auto simp: commit_pending_save_def reply_with_def)
  with step failed_call_changes_nothing show ?thesis by metis
qed

section \<open>What a client writes it can read\<close>

lemma find_view: "find (\<lambda>e. ve_id e = i) (entries_of v) = fst (view v) i"
proof -
  have "find (\<lambda>e. ve_id e = i) es = map_of (map (\<lambda>e. (ve_id e, e)) es) i" for es
    by (induction es) auto
  then show ?thesis by (simp add: view_def)
qed

lemma get_entry_secret_view:
  "vb_vault b = Some v \<Longrightarrow> get_entry_secret L t b =
     (case parse_entry_id L t of
        Inl e \<Rightarrow> Inl e
      | Inr i \<Rightarrow> (case fst (view v) i of None \<Rightarrow> Inl (Vault EntryNotFound) | Some e \<Rightarrow> Inr (ve_secret e)))"
  by (simp add: get_entry_secret_def bridge_entry_def vault_ref_def find_view and_then_def
      split: sum.split option.split)

lemma entry_spec_add: "entry_spec (Add n now) (Added i) (m, t) (m', t') \<Longrightarrow>
    m i = None \<and> m' = m(i \<mapsto> added_entry n now t i)"
  by (auto elim: entry_spec.cases)

lemma entry_spec_update: "entry_spec (Update u now) Done (m, t) (m', t') \<Longrightarrow>
    \<exists>e. m (ue_id u) = Some e \<and> m' = m(ue_id u \<mapsto> updated_entry u now t e)"
  by (auto elim: entry_spec.cases)

lemma entry_spec_delete: "entry_spec (Delete i now) Done (m, t) (m', t') \<Longrightarrow>
    m i \<noteq> None \<and> m' = m(i := None)"
  by (auto elim: entry_spec.cases)

lemma exclusive_idle:
  assumes "session_ok L b" and "ensure_mutable b = Inr ()"
  obtains v m where "b = idle_session v m" and "wf_vault v" and "session_meta v m"
  using assms(1)
  by (cases rule: session_cases) (use assms(2) that in \<open>auto simp: ensure_mutable_def\<close>)

lemma parse_entry_id_roundtrip:
  "base64_laws L \<Longrightarrow> wf_entry_id i \<Longrightarrow> parse_entry_id L (entry_id_to_base64url L i) = Inr i"
  by (simp add: parse_entry_id_def entry_id_base64url_roundtrip)

lemma bridge_add_entry_view:
  assumes L: "deps_laws L" and b: "session_ok L b"
    and add: "bridge_add_entry L title secret description now (b, r) = (Inr t, (b', r'))"
  obtains v m i v' e where "b = idle_session v m" and "b' = idle_session v' m"
    and "parse_entry_id L t = Inr i" and "fst (view v) i = None"
    and "fst (view v') = (fst (view v))(i \<mapsto> e)" and "ve_secret e = secret"
proof -
  let ?n = "\<lparr>ne_title = title, ne_secret = secret, ne_description = description\<rparr>"
  have "ensure_mutable b = Inr ()"
    using add by (auto simp: bridge_add_entry_def split: sum.splits)
  with b obtain v m where b: "b = idle_session v m" and v: "wf_vault v" by (rule exclusive_idle)
  obtain i v' where step: "add_entry L ?n now (v, r) = (Inr i, (v', r'))"
    and t: "t = entry_id_to_base64url L i" and b': "b' = idle_session v' m"
    using add by (auto simp: b bridge_add_entry_def ensure_mutable_def split: sum.splits prod.splits)
  have "entry_spec (Add ?n now) (Added i) (view v) (view v')"
    by (rule add_step_spec [OF v, where L = L and r = r and r' = r']) (simp add: step)
  with entry_spec_add have new: "fst (view v) i = None"
    "fst (view v') = (fst (view v))(i \<mapsto> added_entry ?n now (snd (view v)) i)"
    by (metis prod.collapse)+
  have "wf_vault v'" using add_entry_edited [OF _ v step] L by (auto simp: edited_def)
  then have "wf_entry_id i"
    using new(2) wf_vault_facts(4) [of v'] view_None [of v' i] by auto
  moreover have "base64_laws L" using L by (simp add: deps_laws_def)
  ultimately have "parse_entry_id L t = Inr i" by (simp add: t parse_entry_id_roundtrip)
  from that [OF b b' this new] show ?thesis by (simp add: added_entry_def)
qed

text \<open>An added entry can be read. The identifier text that \<open>add_entry\<close> returns was unknown
  before, \<open>get_entry_secret\<close> with it returns exactly the secret that was passed, and every text
  that does not decode to the same identifier is answered as before.\<close>

theorem added_entry_readable:
  assumes "deps_laws L" and "reachable_session L b"
    and "bridge_add_entry L title secret description now (b, r) = (Inr t, (b', r'))"
  shows "get_entry_secret L t b = Inl (Vault EntryNotFound) \<and> get_entry_secret L t b' = Inr secret \<and>
    (\<forall>u. parse_entry_id L u = parse_entry_id L t \<or> get_entry_secret L u b' = get_entry_secret L u b)"
proof -
  obtain v m i v' e where b: "b = idle_session v m" "b' = idle_session v' m"
    and t: "parse_entry_id L t = Inr i" and new: "fst (view v) i = None"
    "fst (view v') = (fst (view v))(i \<mapsto> e)" "ve_secret e = secret"
    by (rule bridge_add_entry_view [OF assms(1) reachable_ok [OF assms(1,2)] assms(3)])
  show ?thesis using t new by (auto simp: b get_entry_secret_view split: sum.splits)
qed

lemma sample_bridge_add:
  obtains t b' where "bridge_add_entry sample (str ''Mail'') (str ''hunter2'') None 200 (sample_session, 5)
    = (Inr t, (b', 6))"
proof -
  obtain i v' where "add_entry sample sample_entry 200 (cv_unlocked sample_created, 5) = (Inr i, (v', 6))"
    by (rule sample_add)
  then show ?thesis using that by (simp add: bridge_add_entry_def ensure_mutable_def sample_entry_def)
qed

lemma added_entry_readable_witness:
  "\<exists>t b'. bridge_add_entry sample (str ''Mail'') (str ''hunter2'') None 200 (sample_session, 5)
     = (Inr t, (b', 6)) \<and> get_entry_secret sample t b' = Inr (str ''hunter2'')"
proof -
  obtain t b' where add: "bridge_add_entry sample (str ''Mail'') (str ''hunter2'') None 200
      (sample_session, 5) = (Inr t, (b', 6))"
    by (rule sample_bridge_add)
  with added_entry_readable [OF sample_deps_laws sample_reachable add] show ?thesis by blast
qed

text \<open>Updates and deletions are visible at once and touch one entry only. After an update the
  secret read under that identifier is the new one; after a deletion it is gone; both refuse an
  unknown identifier; every other identifier is answered as before.\<close>

theorem update_and_delete_visible:
  assumes "deps_laws L" and "reachable_session L b"
  shows "(\<forall>t title secret description now b'.
      bridge_update_entry L t title secret description now b = (Inr (), b') \<longrightarrow>
      (\<exists>old. get_entry_secret L t b = Inr old) \<and> get_entry_secret L t b' = Inr secret \<and>
      (\<forall>u. parse_entry_id L u = parse_entry_id L t \<or> get_entry_secret L u b' = get_entry_secret L u b)) \<and>
    (\<forall>t now b'. bridge_delete_entry L t now b = (Inr (), b') \<longrightarrow>
      (\<exists>old. get_entry_secret L t b = Inr old) \<and>
      get_entry_secret L t b' = Inl (Vault EntryNotFound) \<and>
      (\<forall>u. parse_entry_id L u = parse_entry_id L t \<or> get_entry_secret L u b' = get_entry_secret L u b))"
proof (intro conjI allI impI)
  note ok = reachable_ok [OF assms]
  fix t title secret description now b'
  assume upd: "bridge_update_entry L t title secret description now b = (Inr (), b')"
  then have "ensure_mutable b = Inr ()"
    by (auto simp: bridge_update_entry_def split: sum.splits)
  with ok obtain v m where b: "b = idle_session v m" and v: "wf_vault v" by (rule exclusive_idle)
  obtain i v' where t: "parse_entry_id L t = Inr i" and b': "b' = idle_session v' m"
    and step: "update_entry \<lparr>ue_id = i, ue_title = title, ue_secret = secret,
      ue_description = description\<rparr> now v = (Inr (), v')"
    using upd by (auto simp: b bridge_update_entry_def on_vault_def ensure_mutable_def map_err_def
        split: sum.splits prod.splits)
  let ?u = "\<lparr>ue_id = i, ue_title = title, ue_secret = secret, ue_description = description\<rparr>"
  have "entry_spec (Update ?u now) Done (view v) (view v')"
    by (rule update_step_spec [OF v, where L = L and r = undefined and r' = undefined])
      (simp add: step)
  from entry_spec_update [of ?u now "fst (view v)" "snd (view v)" "fst (view v')" "snd (view v')"] this
  obtain e where "fst (view v) i = Some e"
    and "fst (view v') = (fst (view v))(i \<mapsto> updated_entry ?u now (snd (view v)) e)" by auto
  then show "\<exists>old. get_entry_secret L t b = Inr old"
    and "get_entry_secret L t b' = Inr secret"
    and "parse_entry_id L u = parse_entry_id L t \<or> get_entry_secret L u b' = get_entry_secret L u b" for u
    using t by (auto simp: b b' get_entry_secret_view updated_entry_def split: sum.splits)
next
  note ok = reachable_ok [OF assms]
  fix t now b'
  assume del: "bridge_delete_entry L t now b = (Inr (), b')"
  then have "ensure_mutable b = Inr ()"
    by (auto simp: bridge_delete_entry_def split: sum.splits)
  with ok obtain v m where b: "b = idle_session v m" and v: "wf_vault v" by (rule exclusive_idle)
  obtain i v' where t: "parse_entry_id L t = Inr i" and b': "b' = idle_session v' m"
    and step: "delete_entry i now v = (Inr (), v')"
    using del by (auto simp: b bridge_delete_entry_def on_vault_def ensure_mutable_def map_err_def
        split: sum.splits prod.splits)
  have "entry_spec (Delete i now) Done (view v) (view v')"
    by (rule delete_step_spec [OF v, where L = L and r = undefined and r' = undefined])
      (simp add: step)
  from entry_spec_delete [of i now "fst (view v)" "snd (view v)" "fst (view v')" "snd (view v')"] this
  have "fst (view v) i \<noteq> None" and "fst (view v') = (fst (view v))(i := None)" by auto
  then show "\<exists>old. get_entry_secret L t b = Inr old"
    and "get_entry_secret L t b' = Inl (Vault EntryNotFound)"
    and "parse_entry_id L u = parse_entry_id L t \<or> get_entry_secret L u b' = get_entry_secret L u b" for u
    using t by (auto simp: b b' get_entry_secret_view split: sum.splits)
qed

lemma update_and_delete_visible_witness:
  "\<exists>t b1 b2. bridge_add_entry sample (str ''Mail'') (str ''hunter2'') None 200 (sample_session, 5)
       = (Inr t, (b1, 6)) \<and>
     bridge_delete_entry sample t 300 b1 = (Inr (), b2) \<and>
     get_entry_secret sample t b2 = Inl (Vault EntryNotFound)"
proof -
  obtain t b1 where add: "bridge_add_entry sample (str ''Mail'') (str ''hunter2'') None 200
      (sample_session, 5) = (Inr t, (b1, 6))"
    by (rule sample_bridge_add)
  then have "bridge_step sample (AddEntry (str ''Mail'') (str ''hunter2'') None 200) (sample_session, 5)
      = (Inr (Text t), (b1, 6))"
    by (simp add: reply_with_def)
  with sample_reachable have reach: "reachable_session sample b1" by (rule reach_step)
  obtain v m i v' e where b1: "b1 = idle_session v' m" and t: "parse_entry_id sample t = Inr i"
    and i: "fst (view v') = (fst (view v))(i \<mapsto> e)"
    by (rule bridge_add_entry_view [OF sample_deps_laws sample_session_ok add])
  have "wf_vault v'" using reachable_ok [OF sample_deps_laws reach] by (simp add: b1 session_ok_def)
  moreover have "i \<in> ve_id ` set (entries_of v')" using view_None [of v' i] i by auto
  ultimately obtain v2 where "delete_entry i 300 v' = (Inr (), v2)"
    by (simp add: delete_entry_Inr wf_vault_facts)
  then have "bridge_delete_entry sample t 300 b1 = (Inr (), idle_session v2 m)"
    using t by (simp add: b1 bridge_delete_entry_def ensure_mutable_def on_vault_def)
  with add update_and_delete_visible [OF sample_deps_laws reach] show ?thesis by blast
qed

section \<open>What the screen shows does not depend on the secrets\<close>

definition map_entries :: "(vault_entry \<Rightarrow> vault_entry) \<Rightarrow> vault_bridge \<Rightarrow> vault_bridge" where
  "map_entries f b = b\<lparr>vb_vault := map_option (\<lambda>v. v\<lparr>uv_container := (uv_container v)
     \<lparr>vc_entries := map f (entries_of v)\<rparr>\<rparr>) (vb_vault b)\<rparr>"

lemma find_map: "find p (map f xs) = map_option f (find (p \<circ> f) xs)"
  by (induction xs) auto

lemma and_then_map_option:
  "and_then (ok_or e (map_option f x)) k = and_then (ok_or e x) (\<lambda>y. k (f y))"
  by (cases x) simp_all

text \<open>C37: The list and the detail view do not depend on the secrets. If the secrets and the
  descriptions of a session are replaced by any others, the list of entries is the same text; if
  its secrets are replaced, so are the details of every entry; neither can reveal what it omits.\<close>

theorem views_do_not_depend_on_secrets:
  "list_entries_json L (map_entries (\<lambda>e. e\<lparr>ve_secret := s (ve_id e), ve_description := d (ve_id e)\<rparr>) b)
     = list_entries_json L b \<and>
   get_entry_details_json L t (map_entries (\<lambda>e. e\<lparr>ve_secret := s (ve_id e)\<rparr>) b)
     = get_entry_details_json L t b"
proof -
  have sel: "summary_of L (e\<lparr>ve_secret := x, ve_description := y\<rparr>) = summary_of L e"
    "details_of L (e\<lparr>ve_secret := x\<rparr>) = details_of L e" for e x y
    by (simp_all add: summary_of_def details_of_def)
  show ?thesis
  proof (cases "vb_vault b")
    case None
    then have "map_entries f b = b" for f by (simp add: map_entries_def)
    then show ?thesis by simp
  next
    case (Some v)
    then show ?thesis
      by (cases "parse_entry_id L t")
        (auto simp: map_entries_def list_entries_json_def get_entry_details_json_def bridge_entry_def
          vault_ref_def entries_of_def find_map comp_def sel and_then_map_option)
  qed
qed

end
