(* ===== verification/Wasm_Properties.thy ===== *)
theory Wasm_Properties
  imports Wasm Session_Properties
begin

text \<open>
  The properties of the JavaScript interface: which numbers are timestamps, that every sequence
  of calls from JavaScript follows the session protocol, and that an error is always one of a
  fixed list of texts.
\<close>

section \<open>Timestamps\<close>

lemma parse_timestamp_of_nat:
  assumes "n < 2 ^ 53"
  shows "parse_timestamp (f64_of_nat n) = Inr (of_nat n)"
proof -
  note x = f64_of_nat [OF assms]
  have one: "0 < f64_one" by (simp add: f64_one_def)
  have "f64_to_string (f64_of_nat n) = decimal n"
    using x one by (simp add: f64_to_string_def)
  moreover have "parse_u64 (decimal n) = Some (of_nat n)"
    using assms by (intro parse_u64_decimal) simp
  moreover have "\<not> f64_gt_nat (f64_of_nat n) 9007199254740991"
    using assms x by (simp add: f64_gt_nat_def)
  ultimately show ?thesis
    using x by (simp add: parse_timestamp_def f64_lt_zero_def f64_has_fract_def)
qed

lemma parse_timestamp_Inr:
  assumes "parse_timestamp x = Inr t"
  obtains n where "n < 2 ^ 53" and "x = f64_of_nat n" and "t = of_nat n"
proof -
  have ok: "f64_is_finite x" "f64_units x mod f64_one = 0"
    "\<not> f64_gt_nat x 9007199254740991" and p: "parse_u64 (f64_to_string x) = Some t"
    using assms by (auto simp: parse_timestamp_def f64_has_fract_def split: if_splits)
  have nan: "\<not> f64_is_nan x" using ok(1) by (simp add: f64_is_nan_def f64_is_finite_def)
  have sign: "\<not> f64_sign x"
    using p parse_u64_minus by (auto simp: f64_to_string_def)
  obtain n where units: "f64_units x = n * f64_one"
    using ok(2) by (metis dvd_def dvd_eq_mod_eq_0 mult.commute)
  have "0 < f64_one" by (simp add: f64_one_def)
  then have "n \<le> 9007199254740991"
    using ok(3) nan sign by (simp add: f64_gt_nat_def not_less units)
  then have n: "n < 2 ^ 53" by simp
  have x: "x = f64_of_nat n" by (rule f64_of_nat_unique [OF n sign units])
  then have "t = of_nat n" using parse_timestamp_of_nat [OF n] assms by simp
  with n x show ?thesis by (rule that)
qed

text \<open>C17: Which numbers are timestamps. \<open>parse_timestamp\<close> accepts exactly the integers from 0 to
  \<open>2 ^ 53 - 1\<close> and returns each of them unchanged as a \<open>u64\<close>; every other \<open>f64\<close> (fractions,
  negative numbers, the negative zero, infinities, not-a-number, integers from \<open>2 ^ 53\<close> on) is
  refused with \<open>invalid_timestamp\<close>.\<close>

theorem parse_timestamp_exact:
  "(parse_timestamp x = Inr t \<longleftrightarrow> (\<exists>n. n < 2 ^ 53 \<and> x = f64_of_nat n \<and> t = of_nat n)) \<and>
   (parse_timestamp x = Inl e \<longleftrightarrow>
      e = str ''invalid_timestamp'' \<and> \<not> (\<exists>n. n < 2 ^ 53 \<and> x = f64_of_nat n))"
proof
  show "parse_timestamp x = Inr t \<longleftrightarrow> (\<exists>n. n < 2 ^ 53 \<and> x = f64_of_nat n \<and> t = of_nat n)"
    by (metis parse_timestamp_Inr parse_timestamp_of_nat)
  have err: "parse_timestamp x = Inl d \<Longrightarrow> d = str ''invalid_timestamp''" for d
    by (auto simp: parse_timestamp_def split: if_splits)
  show "parse_timestamp x = Inl e \<longleftrightarrow>
      e = str ''invalid_timestamp'' \<and> \<not> (\<exists>n. n < 2 ^ 53 \<and> x = f64_of_nat n)"
  proof (cases "parse_timestamp x")
    case (Inl d)
    then have "\<not> (\<exists>n. n < 2 ^ 53 \<and> x = f64_of_nat n)" using parse_timestamp_of_nat by fastforce
    with Inl err [OF Inl] show ?thesis by auto
  next
    case (Inr t)
    then obtain n where "n < 2 ^ 53" "x = f64_of_nat n" by (rule parse_timestamp_Inr)
    with Inr show ?thesis by auto
  qed
qed

section \<open>Calls from JavaScript\<close>

datatype wasm_call =
    JsAddEntry rstring rstring "rstring option" f64
  | JsUpdateEntry rstring rstring rstring "rstring option" f64
  | JsDeleteEntry rstring f64
  | JsPrepareSave
  | JsVerifyPendingSlot rstring
  | JsCommitPendingSave rstring
  | JsCancelPendingSave
  | JsPreparePasswordChange rstring rstring
  | JsCommitPasswordChange rstring
  | JsCancelPasswordChange
  | JsLock

fun wasm_step ::
  "('r, 'z) deps_scheme \<Rightarrow> wasm_call \<Rightarrow> wasm_vault_session \<times> 'r
     \<Rightarrow> (js_value + reply) \<times> (wasm_vault_session \<times> 'r)" where
  "wasm_step L (JsAddEntry title secret description now) s =
     (case wasm_add_entry L title secret description now s of (res, s') \<Rightarrow> (map_sum id Text res, s'))"
| "wasm_step L (JsUpdateEntry eid title secret description now) (w, r) =
     (case wasm_update_entry L eid title secret description now w of
        (res, w') \<Rightarrow> (map_sum id (\<lambda>_. Unit) res, (w', r)))"
| "wasm_step L (JsDeleteEntry eid now) (w, r) =
     (case wasm_delete_entry L eid now w of (res, w') \<Rightarrow> (map_sum id (\<lambda>_. Unit) res, (w', r)))"
| "wasm_step L JsPrepareSave s =
     (case wasm_prepare_save L s of (res, s') \<Rightarrow> (map_sum id (Bundle \<circ> ws_inner) res, s'))"
| "wasm_step L (JsVerifyPendingSlot t) (w, r) =
     (case wasm_verify_pending_slot L t w of (res, w') \<Rightarrow> (map_sum id (\<lambda>_. Unit) res, (w', r)))"
| "wasm_step L (JsCommitPendingSave t) (w, r) =
     (case wasm_commit_pending_save L t w of (res, w') \<Rightarrow> (map_sum id (\<lambda>_. Unit) res, (w', r)))"
| "wasm_step L JsCancelPendingSave (w, r) = (Inr Unit, (wasm_cancel_pending_save w, r))"
| "wasm_step L (JsPreparePasswordChange cur new) s =
     (case wasm_prepare_password_change L cur new s of (res, s') \<Rightarrow> (map_sum id Text res, s'))"
| "wasm_step L (JsCommitPasswordChange t) (w, r) =
     (case wasm_commit_password_change L t w of (res, w') \<Rightarrow> (map_sum id (\<lambda>_. Unit) res, (w', r)))"
| "wasm_step L JsCancelPasswordChange (w, r) = (Inr Unit, (wasm_cancel_password_change w, r))"
| "wasm_step L JsLock (w, r) = (Inr Unit, (wasm_lock w, r))"

text \<open>The bridge call a JavaScript call amounts to, or the refusal of its timestamp.\<close>

fun bridge_call_of :: "wasm_call \<Rightarrow> js_value + bridge_call" where
  "bridge_call_of (JsAddEntry title secret description now) =
     and_then (parse_timestamp now) (\<lambda>now. Inr (AddEntry title secret description now))"
| "bridge_call_of (JsUpdateEntry eid title secret description now) =
     and_then (parse_timestamp now) (\<lambda>now. Inr (UpdateEntry eid title secret description now))"
| "bridge_call_of (JsDeleteEntry eid now) =
     and_then (parse_timestamp now) (\<lambda>now. Inr (DeleteEntry eid now))"
| "bridge_call_of JsPrepareSave = Inr PrepareSave"
| "bridge_call_of (JsVerifyPendingSlot t) = Inr (VerifyPendingSlot t)"
| "bridge_call_of (JsCommitPendingSave t) = Inr (CommitPendingSave t)"
| "bridge_call_of JsCancelPendingSave = Inr CancelPendingSave"
| "bridge_call_of (JsPreparePasswordChange cur new) =
     Inr (PreparePasswordChange (as_bytes cur) (as_bytes new))"
| "bridge_call_of (JsCommitPasswordChange t) = Inr (CommitPasswordChange t)"
| "bridge_call_of JsCancelPasswordChange = Inr CancelPasswordChange"
| "bridge_call_of JsLock = Inr Lock"

lemma wasm_step_bridge:
  "wasm_step L c (\<lparr>wv_inner = b\<rparr>, r) =
     (case bridge_call_of c of
        Inl e \<Rightarrow> (Inl e, (\<lparr>wv_inner = b\<rparr>, r))
      | Inr call \<Rightarrow> (case bridge_step L call (b, r) of
          (res, (b', r')) \<Rightarrow> (map_err to_js_error res, (\<lparr>wv_inner = b'\<rparr>, r'))))"
  by (cases c)
    (auto simp: wasm_add_entry_def wasm_update_entry_def wasm_delete_entry_def wasm_prepare_save_def
      wasm_verify_pending_slot_def wasm_commit_pending_save_def wasm_cancel_pending_save_def
      wasm_prepare_password_change_def wasm_commit_password_change_def
      wasm_cancel_password_change_def wasm_lock_def wasm_save_bundle_new_def reply_with_def map_err_def
      and_then_def split: prod.split sum.split)

definition js_protocol :: "wasm_call \<Rightarrow> js_value + reply \<Rightarrow> phase \<Rightarrow> phase \<Rightarrow> bool" where
  "js_protocol c out p p' \<longleftrightarrow>
     (case bridge_call_of c of
        Inl e \<Rightarrow> out = Inl e \<and> p' = p
      | Inr call \<Rightarrow> (\<exists>res. out = map_err to_js_error res \<and> protocol call res p p'))"

definition js_inv :: "('r, 'z) deps_scheme \<Rightarrow> wasm_vault_session \<times> 'r \<Rightarrow> bool" where
  "js_inv L s \<longleftrightarrow> bridge_inv L (wv_inner (fst s), snd s)"

interpretation js: simulation "wasm_step L" "js_inv L" "\<lambda>s. phase_of (wv_inner (fst s))" js_protocol
  for L :: "('r, 'z) deps_scheme"
proof
  fix s :: "wasm_vault_session \<times> 'r" and c out s'
  assume s: "js_inv L s" and step: "wasm_step L c s = (out, s')"
  obtain b r b' r' where sb: "s = (\<lparr>wv_inner = b\<rparr>, r)" "s' = (\<lparr>wv_inner = b'\<rparr>, r')"
    by (metis prod.collapse wasm_vault_session.cases)
  from s have inv: "bridge_inv L (b, r)" by (simp add: js_inv_def sb)
  show "js_inv L s'" and "js_protocol c out (phase_of (wv_inner (fst s))) (phase_of (wv_inner (fst s')))"
    using step session.step_inv [OF inv] session.step_spec [OF inv] inv
    by (auto simp: sb wasm_step_bridge js_inv_def js_protocol_def split: sum.splits prod.splits)
qed

text \<open>What JavaScript can hold: a session taken from a bundle, after any calls.\<close>

inductive js_session :: "('r, 'z) deps_scheme \<Rightarrow> wasm_vault_session \<Rightarrow> bool"
  for L :: "('r, 'z) deps_scheme" where
  js_created:
    "wasm_create L pw now r = (Inr bundle, r') \<Longrightarrow> create_take_session bundle = Inr w \<Longrightarrow> js_session L w"
| js_opened:
    "wasm_open L pw mj sa sb ptr = Inr bundle \<Longrightarrow> open_take_session bundle = Inr w \<Longrightarrow> js_session L w"
| js_step: "js_session L w \<Longrightarrow> wasm_step L c (w, r) = (out, (w', r')) \<Longrightarrow> js_session L w'"

lemma js_session_ok:
  assumes "deps_laws L" and "js_session L w"
  shows "session_ok L (wv_inner w)"
  using assms(2)
proof (induction rule: js_session.induct)
  case (js_created pw now r bd r' w)
  then obtain t cb r1 where "bridge_create L (as_bytes pw) t r1 = (Inr cb, r')" "wv_inner w = cb_session cb"
    by (auto simp: wasm_create_def bindE_Inr wasm_create_bundle_new_def create_take_session_def)
  then show ?case using reachable_ok [OF assms(1)] reach_created by metis
next
  case (js_opened pw mj sa sb ptr bd w)
  then obtain snap ob where "bridge_open L (as_bytes pw) snap = Inr ob" "wv_inner w = ob_session ob"
    by (auto simp: wasm_open_def and_then_Inr wasm_open_bundle_new_def open_take_session_def)
  then show ?case using reachable_ok [OF assms(1)] reach_opened by metis
next
  case (js_step w c r out w' r')
  then have "js_inv L (w, r)" using assms(1) by (simp add: js_inv_def bridge_inv_def)
  from js.step_inv [OF this js_step.hyps(2)] show ?case by (simp add: js_inv_def bridge_inv_def)
qed

text \<open>C35: JavaScript cannot leave the protocol. Whatever methods JavaScript calls on a session it
  obtained, with whatever strings and numbers, each reply and each change of phase is the one the
  session protocol allows for the corresponding call, errors shown as their codes; a call whose
  number is no timestamp is refused and changes nothing.\<close>

theorem js_session_follows_protocol:
  assumes "deps_laws L" and "js_session L w"
    and "run_all (wasm_step L) calls (w, r) = (outs, (w', r'))"
  shows "spec_run js_protocol calls outs (phase_of (wv_inner w)) (phase_of (wv_inner w')) \<and>
    session_ok L (wv_inner w')"
proof -
  have inv: "js_inv L (w, r)" using assms(1) js_session_ok [OF assms(1,2)]
    by (simp add: js_inv_def bridge_inv_def)
  from js.run_spec [OF inv assms(3)] js.run_inv [OF inv assms(3)] show ?thesis
    by (simp add: js_inv_def bridge_inv_def)
qed

lemma sample_js_session: "js_session sample \<lparr>wv_inner = sample_session\<rparr>"
proof -
  obtain cb where cb: "bridge_create sample sample_password 100 0 = (Inr cb, 5)"
    "cb_session cb = sample_session"
    by (rule sample_bridge_create)
  have "parse_timestamp (f64_of_nat 100) = Inr (of_nat 100)"
    by (rule parse_timestamp_of_nat) simp
  then have "wasm_create sample (str ''correct horse battery staple'') (f64_of_nat 100) 0
      = (Inr (wasm_create_bundle_new cb), 5)"
    using cb(1) by (simp add: wasm_create_def bindE_apply map_errE_apply sample_password_def)
  then show ?thesis
    by (rule js_created) (simp add: create_take_session_def wasm_create_bundle_new_def cb(2))
qed

lemma js_session_follows_protocol_witness:
  "\<exists>outs w' r'. run_all (wasm_step sample) [JsDeleteEntry [] (f64_make 2047 1), JsPrepareSave, JsLock]
       (\<lparr>wv_inner = sample_session\<rparr>, 5) = (outs, (w', r')) \<and> session_ok sample (wv_inner w')"
proof -
  obtain outs w' r' where "run_all (wasm_step sample)
      [JsDeleteEntry [] (f64_make 2047 1), JsPrepareSave, JsLock] (\<lparr>wv_inner = sample_session\<rparr>, 5)
      = (outs, (w', r'))"
    by (metis surj_pair)
  with js_session_follows_protocol [OF sample_deps_laws sample_js_session this] show ?thesis by blast
qed

section \<open>Error texts\<close>

definition js_error_texts :: "string list" where
  "js_error_texts =
     [''invalid_master_password'', ''cannot_open_vault'', ''entry_not_found'', ''vault_too_large'',
      ''unsupported_format'', ''invalid_kdf_parameters'', ''random_unavailable'',
      ''already_initialized'', ''uninitialized'', ''locked'', ''save_pending'', ''no_save_pending'',
      ''pending_slot_not_verified'', ''storage_readback_mismatch'', ''serialization_failed'',
      ''no_password_change_pending'', ''vault_operation_failed'', ''invalid_timestamp'']"

lemma error_code_fixed: "error_code e \<in> str ` set js_error_texts"
  by (cases e rule: error_code.cases) (simp_all add: js_error_texts_def)

lemma bridge_call_of_Inl: "bridge_call_of c = Inl e \<Longrightarrow> e = str ''invalid_timestamp''"
  by (cases c) (auto simp: and_then_Inl parse_timestamp_def split: if_splits)

text \<open>An error that reaches JavaScript is one of eighteen fixed texts. No call or query on a
  session and no attempt to create or open one can put a password, a secret or any other datum of the vault
  into an error.\<close>

theorem js_errors_are_fixed_texts:
  "(case fst (wasm_step L c (w, r)) of Inl e \<Rightarrow> e \<in> str ` set js_error_texts | Inr _ \<Rightarrow> True) \<and>
   (case fst (wasm_create L pw now r) of Inl e \<Rightarrow> e \<in> str ` set js_error_texts | Inr _ \<Rightarrow> True) \<and>
   (case wasm_open L pw mj sa sb ptr of Inl e \<Rightarrow> e \<in> str ` set js_error_texts | Inr _ \<Rightarrow> True) \<and>
   (case wasm_list_entries_json K w of Inl e \<Rightarrow> e \<in> str ` set js_error_texts | Inr _ \<Rightarrow> True) \<and>
   (case wasm_get_entry_json K t w of Inl e \<Rightarrow> e \<in> str ` set js_error_texts | Inr _ \<Rightarrow> True) \<and>
   (case wasm_get_entry_details_json K t w of Inl e \<Rightarrow> e \<in> str ` set js_error_texts | Inr _ \<Rightarrow> True) \<and>
   (case wasm_get_entry_secret L t w of Inl e \<Rightarrow> e \<in> str ` set js_error_texts | Inr _ \<Rightarrow> True)"
proof (intro conjI)
  obtain b where w: "w = \<lparr>wv_inner = b\<rparr>" by (cases w)
  have ts: "str ''invalid_timestamp'' \<in> str ` set js_error_texts" by (simp add: js_error_texts_def)
  note code = error_code_fixed [folded to_js_error_def]
  show "case fst (wasm_step L c (w, r)) of Inl e \<Rightarrow> e \<in> str ` set js_error_texts | Inr _ \<Rightarrow> True"
    unfolding w wasm_step_bridge using ts code bridge_call_of_Inl [of c]
    by (auto simp: map_err_def split: sum.splits prod.splits)
  have "parse_timestamp now = Inl e \<Longrightarrow> e = str ''invalid_timestamp''" for e
    by (auto simp: parse_timestamp_def split: if_splits)
  then show "case fst (wasm_create L pw now r) of Inl e \<Rightarrow> e \<in> str ` set js_error_texts | Inr _ \<Rightarrow> True"
    using ts code by (auto simp: wasm_create_def bindE_apply map_errE_apply map_err_def
        split: sum.splits prod.splits)
  show "case wasm_open L pw mj sa sb ptr of Inl e \<Rightarrow> e \<in> str ` set js_error_texts | Inr _ \<Rightarrow> True"
    using code by (auto simp: wasm_open_def and_then_def map_err_def split: sum.splits)
  show "case wasm_list_entries_json K w of Inl e \<Rightarrow> e \<in> str ` set js_error_texts | Inr _ \<Rightarrow> True"
    and "case wasm_get_entry_json K t w of Inl e \<Rightarrow> e \<in> str ` set js_error_texts | Inr _ \<Rightarrow> True"
    and "case wasm_get_entry_details_json K t w of Inl e \<Rightarrow> e \<in> str ` set js_error_texts | Inr _ \<Rightarrow> True"
    using code by (auto simp: wasm_list_entries_json_def wasm_get_entry_json_def
        wasm_get_entry_details_json_def map_err_def split: sum.splits)
  show "case wasm_get_entry_secret L t w of Inl e \<Rightarrow> e \<in> str ` set js_error_texts | Inr _ \<Rightarrow> True"
    using code by (auto simp: wasm_get_entry_secret_def map_err_def split: sum.splits)
qed

end
