(* ===== verification/Persistence.thy ===== *)
theory Persistence
  imports Wasm
begin

text \<open>
  The client of the session, \<open>VaultPersistence\<close> of \<open>web/src/vault-persistence.js\<close>: it owns the
  device, writes what a prepared operation hands out, reads it back and passes the read-back on.
  The device is the storage interface of the core with its own failures; what it throws and what
  the session throws end the method through the \<open>catch\<close> block that cancels the operation.
\<close>

section \<open>Errors and calls\<close>

datatype client_error =
    Device storage_error
  | Session js_value
  | Persistence string

definition on_device :: "('s, storage_error, 'a) eff \<Rightarrow> ('s \<times> 'w, client_error, 'a) eff" where
  "on_device f = (\<lambda>(s, w). case f s of (res, s') \<Rightarrow> (map_err Device res, (s', w)))"

definition on_session :: "('w \<Rightarrow> (js_value + 'a) \<times> 'w) \<Rightarrow> ('s \<times> 'w, client_error, 'a) eff" where
  "on_session f = (\<lambda>(s, w). case f w of (res, w') \<Rightarrow> (map_err Session res, (s, w')))"

text \<open>\<open>try ... catch (error) { cleanup; throw error; }\<close>.\<close>

definition on_error ::
  "('w \<Rightarrow> 'w) \<Rightarrow> ('s \<times> 'w, client_error, 'a) eff \<Rightarrow> ('s \<times> 'w, client_error, 'a) eff" where
  "on_error cleanup body = (\<lambda>s. case body s of
     (Inl e, (s', w')) \<Rightarrow> (Inl e, (s', cleanup w'))
   | (Inr x, s') \<Rightarrow> (Inr x, s'))"

section \<open>Saving\<close>

definition ALLOWED_SLOT_KEYS :: "key list" where
  "ALLOWED_SLOT_KEYS = [SLOT_A_KEY, SLOT_B_KEY]"

text \<open>The body of the \<open>try\<close> block of \<open>saveSession\<close>.\<close>

definition write_save ::
  "'z crypto_lib_scheme \<Rightarrow> 's device_storage \<Rightarrow> wasm_save_bundle
     \<Rightarrow> ('s \<times> wasm_vault_session, client_error, unit) eff" where
  "write_save L D handed =
     bindE (on_device (ds_set D (save_bundle_slot_key handed) (save_bundle_slot_json handed))) (\<lambda>_.
     bindE (on_device (ds_get D (save_bundle_slot_key handed))) (\<lambda>got.
     bindE (lift (ok_or (Persistence ''missing_slot_readback'') got)) (\<lambda>slot_readback.
     bindE (on_session (wasm_verify_pending_slot L slot_readback)) (\<lambda>_.
     bindE (on_device (ds_set D ACTIVE_SLOT_KEY (save_bundle_active_pointer_json handed))) (\<lambda>_.
     bindE (on_device (ds_get D ACTIVE_SLOT_KEY)) (\<lambda>got.
     bindE (lift (ok_or (Persistence ''missing_pointer_readback'') got)) (\<lambda>pointer_readback.
     on_session (wasm_commit_pending_save L pointer_readback))))))))"

definition save_session ::
  "('r, 'z) deps_scheme \<Rightarrow> 's device_storage
     \<Rightarrow> ('s \<times> wasm_vault_session \<times> 'r, client_error, unit) eff" where
  "save_session L D = (\<lambda>(s, w, r).
     case wasm_prepare_save L (w, r) of
       (Inl e, (w', r')) \<Rightarrow> (Inl (Session e), (s, w', r'))
     | (Inr handed, (w', r')) \<Rightarrow>
         if save_bundle_slot_key handed \<notin> set ALLOWED_SLOT_KEYS
         then (Inl (Persistence ''invalid_slot_key''), (s, wasm_cancel_pending_save w', r'))
         else
           (case on_error wasm_cancel_pending_save (write_save L D handed) (s, w') of
              (res, (s', w'')) \<Rightarrow> (res, (s', w'', r'))))"

section \<open>Changing the password\<close>

definition write_password_change ::
  "'z codec_lib_scheme \<Rightarrow> 's device_storage \<Rightarrow> rstring
     \<Rightarrow> ('s \<times> wasm_vault_session, client_error, unit) eff" where
  "write_password_change L D metadata_json =
     bindE (on_device (ds_set D META_KEY metadata_json)) (\<lambda>_.
     bindE (on_device (ds_get D META_KEY)) (\<lambda>got.
     bindE (lift (ok_or (Persistence ''missing_metadata_readback'') got)) (\<lambda>readback.
     on_session (wasm_commit_password_change L readback))))"

definition change_master_password ::
  "('r, 'z) deps_scheme \<Rightarrow> 's device_storage \<Rightarrow> rstring \<Rightarrow> rstring
     \<Rightarrow> ('s \<times> wasm_vault_session \<times> 'r, client_error, unit) eff" where
  "change_master_password L D current_master_password new_master_password = (\<lambda>(s, w, r).
     case wasm_prepare_password_change L current_master_password new_master_password (w, r) of
       (Inl e, (w', r')) \<Rightarrow> (Inl (Session e), (s, w', r'))
     | (Inr metadata_json, (w', r')) \<Rightarrow>
         (case on_error wasm_cancel_password_change (write_password_change L D metadata_json) (s, w') of
            (res, (s', w'')) \<Rightarrow> (res, (s', w'', r'))))"

section \<open>Creating and opening\<close>

text \<open>\<open>persistCreated\<close>, whose \<open>setVerified\<close> is the storage's own verified write.\<close>

definition persist_created ::
  "'s device_storage \<Rightarrow> rstring \<Rightarrow> key \<Rightarrow> rstring \<Rightarrow> rstring \<Rightarrow> ('s, client_error, unit) eff" where
  "persist_created D metadata_json target slot_json active_pointer_json =
     (if target \<notin> set ALLOWED_SLOT_KEYS then lift (Inl (Persistence ''invalid_slot_key''))
      else
        bindE (map_errE Device (ds_set D target slot_json)) (\<lambda>_.
        bindE (map_errE Device (ds_set D META_KEY metadata_json)) (\<lambda>_.
        map_errE Device (ds_set D ACTIVE_SLOT_KEY active_pointer_json))))"

definition create_session ::
  "('r, 'z) deps_scheme \<Rightarrow> 's device_storage \<Rightarrow> rstring \<Rightarrow> f64
     \<Rightarrow> ('s \<times> 'r, client_error, wasm_vault_session) eff" where
  "create_session L D master_password now = (\<lambda>(s, r).
     case map_errE Device (ds_get D META_KEY) s of
       (Inl e, s') \<Rightarrow> (Inl e, (s', r))
     | (Inr existing, s') \<Rightarrow>
         if existing \<noteq> None then (Inl (Persistence ''already_initialized''), (s', r))
         else
           (case wasm_create L master_password now r of
              (Inl e, r') \<Rightarrow> (Inl (Session e), (s', r'))
            | (Inr created, r') \<Rightarrow>
                (case map_err Session
                       (and_then (wasm_slot_key created) (\<lambda>target.
                        and_then (wasm_slot_json created) (\<lambda>slot_json.
                        and_then (wasm_metadata_json created) (\<lambda>metadata_json.
                        and_then (wasm_active_pointer_json created) (\<lambda>active_pointer_json.
                        and_then (create_take_session created) (\<lambda>session.
                        Inr (target, slot_json, metadata_json, active_pointer_json, session))))))) of
                   Inl e \<Rightarrow> (Inl e, (s', r'))
                 | Inr (target, slot_json, metadata_json, active_pointer_json, session) \<Rightarrow>
                     (case persist_created D metadata_json target slot_json active_pointer_json s' of
                        (Inl e, s'') \<Rightarrow> (Inl e, (s'', r'))
                      | (Inr _, s'') \<Rightarrow> (Inr session, (s'', r'))))))"

text \<open>\<open>loadSnapshot\<close> starts its four reads together; reads do not affect each other, so they are
  taken in the order of the list.\<close>

definition load_snapshot :: "'s device_storage \<Rightarrow> ('s, client_error, storage_snapshot) eff" where
  "load_snapshot D =
     bindE (map_errE Device (ds_get D META_KEY)) (\<lambda>metadata_json.
     bindE (map_errE Device (ds_get D SLOT_A_KEY)) (\<lambda>slot_a_json.
     bindE (map_errE Device (ds_get D SLOT_B_KEY)) (\<lambda>slot_b_json.
     bindE (map_errE Device (ds_get D ACTIVE_SLOT_KEY)) (\<lambda>active_pointer_json.
     ret \<lparr>ss_metadata_json = metadata_json, ss_slot_a_json = slot_a_json,
          ss_slot_b_json = slot_b_json, ss_active_pointer_json = active_pointer_json\<rparr>))))"

definition open_session ::
  "'z crypto_lib_scheme \<Rightarrow> 's device_storage \<Rightarrow> rstring
     \<Rightarrow> ('s, client_error, wasm_vault_session) eff" where
  "open_session L D master_password =
     bindE (load_snapshot D) (\<lambda>snapshot.
     bindE (lift (map_err Session (wasm_open L master_password (ss_metadata_json snapshot)
       (ss_slot_a_json snapshot) (ss_slot_b_json snapshot) (ss_active_pointer_json snapshot)))) (\<lambda>opened.
     bindE (lift (map_err Session (open_take_session opened))) (\<lambda>session.
     case wasm_repaired_pointer_json opened of
       None \<Rightarrow> ret session
     | Some repaired \<Rightarrow>
         bindE (map_errE Device (ds_set D ACTIVE_SLOT_KEY repaired)) (\<lambda>_. ret session))))"

section \<open>State and removal\<close>

definition MANUAL_LOCK_KEY :: key where
  "MANUAL_LOCK_KEY = str ''vault_manual_lock_v1''"

definition MASTER_PASSWORD_CACHE_KEY :: key where
  "MASTER_PASSWORD_CACHE_KEY = str ''master_password_cache_v1''"

definition VAULT_DEVICE_KEYS :: "key list" where
  "VAULT_DEVICE_KEYS = [SLOT_A_KEY, SLOT_B_KEY, ACTIVE_SLOT_KEY, META_KEY, MANUAL_LOCK_KEY]"

definition inspect_state :: "'s device_storage \<Rightarrow> ('s, client_error, string) eff" where
  "inspect_state D =
     bindE (map_errE Device (ds_get D META_KEY)) (\<lambda>metadata.
     ret (if metadata = None then ''uninitialized'' else ''locked''))"

fun remove_keys :: "'s device_storage \<Rightarrow> key list \<Rightarrow> ('s, client_error, unit) eff" where
  "remove_keys D [] = ret ()"
| "remove_keys D (key # rest) =
     bindE (map_errE Device (ds_remove D key)) (\<lambda>_. remove_keys D rest)"

text \<open>The secure storage, if there is one, is cleared in the \<open>finally\<close> block, whose own error wins.\<close>

definition destroy_session ::
  "'s device_storage \<Rightarrow> 't device_storage option
     \<Rightarrow> ('s \<times> 't \<times> wasm_vault_session option, client_error, unit) eff" where
  "destroy_session D secure = (\<lambda>(s, t, session).
     let session' = map_option wasm_lock session in
     case remove_keys D VAULT_DEVICE_KEYS s of
       (res, s') \<Rightarrow>
         (case secure of
            None \<Rightarrow> (res, (s', t, session'))
          | Some E \<Rightarrow>
              (case ds_remove E MASTER_PASSWORD_CACHE_KEY t of
                 (Inl e, t') \<Rightarrow> (Inl (Device e), (s', t', session'))
               | (Inr _, t') \<Rightarrow> (res, (s', t', session')))))"

text \<open>\<open>clearLegacyAuthenticationState\<close> starts both removals and ignores how they end.\<close>

definition clear_legacy_authentication_state ::
  "'s device_storage \<Rightarrow> 't device_storage option \<Rightarrow> 's \<times> 't \<Rightarrow> 's \<times> 't" where
  "clear_legacy_authentication_state D secure = (\<lambda>(s, t).
     (snd (ds_remove D MANUAL_LOCK_KEY s),
      case secure of None \<Rightarrow> t | Some E \<Rightarrow> snd (ds_remove E MASTER_PASSWORD_CACHE_KEY t)))"

end
