(* ===== verification/Client_Recovery.thy ===== *)
theory Client_Recovery
  imports Persistence
begin

text \<open>
  What the client leaves on a lawful device. Every method writes a value and reads it back before
  it goes on; the lemmas give the outcome of \<open>saveSession\<close>, \<open>changeMasterPassword\<close>,
  \<open>createSession\<close> and \<open>openSession\<close> in terms of the stored values and of \<open>recoverable\<close>.
\<close>

section \<open>Single steps\<close>

lemma on_device_Inr [simp]:
  "on_device f (s, w) = (Inr x, t) \<longleftrightarrow> (\<exists>s'. f s = (Inr x, s') \<and> t = (s', w))"
  by (auto simp: on_device_def split: prod.splits)

lemma on_device_Inl:
  "on_device f (s, w) = (Inl e, t) \<longleftrightarrow> (\<exists>d s'. f s = (Inl d, s') \<and> e = Device d \<and> t = (s', w))"
  by (auto simp: on_device_def map_err_Inl split: prod.splits)

lemma on_session_Inr [simp]:
  "on_session f (s, w) = (Inr x, t) \<longleftrightarrow> (\<exists>w'. f w = (Inr x, w') \<and> t = (s, w'))"
  by (auto simp: on_session_def split: prod.splits)

lemma on_session_Inl:
  "on_session f (s, w) = (Inl e, t) \<longleftrightarrow> (\<exists>d w'. f w = (Inl d, w') \<and> e = Session d \<and> t = (s, w'))"
  by (auto simp: on_session_def map_err_Inl split: prod.splits)

abbreviation js_idle :: "unlocked_vault \<Rightarrow> vault_meta \<Rightarrow> wasm_vault_session" where
  "js_idle v m \<equiv> \<lparr>wv_inner = idle_session v m\<rparr>"

abbreviation js_saving :: "unlocked_vault \<Rightarrow> vault_meta \<Rightarrow> pending_save \<Rightarrow> wasm_vault_session" where
  "js_saving v m p \<equiv> \<lparr>wv_inner = saving_session v m p\<rparr>"

abbreviation next_vault :: "unlocked_vault \<Rightarrow> unlocked_vault" where
  "next_vault v \<equiv> v\<lparr>uv_container := next_container v,
     uv_persisted_slot := slot_other (uv_persisted_slot v)\<rparr>"

abbreviation handed_out :: "unlocked_vault \<Rightarrow> pending_save \<Rightarrow> wasm_save_bundle" where
  "handed_out v p \<equiv> \<lparr>ws_inner = \<lparr>sb_slot_key = slot_key (slot_other (uv_persisted_slot v)),
     sb_slot_json = ps_slot_json p, sb_active_pointer_json = ps_active_pointer_json p\<rparr>\<rparr>"

text \<open>What the device holds after the first write of a save, and after both.\<close>

abbreviation slot_written where
  "slot_written vs v p \<equiv> vs(slot_key (slot_other (uv_persisted_slot v)) \<mapsto> ps_slot_json p)"

abbreviation save_written where
  "save_written vs v p \<equiv> (slot_written vs v p)(ACTIVE_SLOT_KEY \<mapsto> ps_active_pointer_json p)"

lemma allowed_slot_keys: "ALLOWED_SLOT_KEYS = map slot_key enum_class.enum"
  by (simp add: ALLOWED_SLOT_KEYS_def enum_slot_id_def)

lemma slot_key_allowed [simp]: "slot_key side \<in> set ALLOWED_SLOT_KEYS"
  by (simp add: allowed_slot_keys enum_UNIV)

section \<open>A write and its read-back\<close>

lemma bindE_assoc: "bindE (bindE m f) g = bindE m (\<lambda>x. bindE (f x) g)"
  by (auto simp: bindE_def fun_eq_iff split: prod.splits sum.splits)

text \<open>The three steps that every method of the client takes with a value it was handed.\<close>

definition write_back ::
  "'s device_storage \<Rightarrow> key \<Rightarrow> rstring \<Rightarrow> client_error \<Rightarrow> ('s \<times> 'w, client_error, rstring) eff" where
  "write_back D k value missing =
     bindE (on_device (ds_set D k value)) (\<lambda>_.
     bindE (on_device (ds_get D k)) (\<lambda>got. lift (ok_or missing got)))"

lemma write_save_eq:
  "write_save L D handed =
     bindE (write_back D (save_bundle_slot_key handed) (save_bundle_slot_json handed)
              (Persistence ''missing_slot_readback'')) (\<lambda>slot_readback.
     bindE (on_session (wasm_verify_pending_slot L slot_readback)) (\<lambda>_.
     bindE (write_back D ACTIVE_SLOT_KEY (save_bundle_active_pointer_json handed)
              (Persistence ''missing_pointer_readback'')) (\<lambda>pointer_readback.
     on_session (wasm_commit_pending_save L pointer_readback))))"
  by (simp add: write_save_def write_back_def bindE_assoc)

lemma write_password_change_eq:
  "write_password_change L D metadata_json =
     bindE (write_back D META_KEY metadata_json (Persistence ''missing_metadata_readback''))
       (\<lambda>readback. on_session (wasm_commit_password_change L readback))"
  by (simp add: write_password_change_def write_back_def bindE_assoc)

context lawful_storage
begin

lemma write_back_Inr:
  assumes "write_back D k j e (s, w) = (Inr x, (s', w'))"
  shows "x = j" and "w' = w" and "vals s' = (vals s)(k \<mapsto> j)"
  using assms by (auto simp: write_back_def bindE_Inr dest!: set_ok get_Inr)

lemma write_back_Inl:
  assumes "write_back D k j e (s, w) = (Inl d, (s', w'))"
  shows "w' = w" and "vals s' = vals s \<or> vals s' = (vals s)(k \<mapsto> j)"
  using assms
  by (auto simp: write_back_def bindE_Inl on_device_Inl dest!: set_ok set_err get_Inr get_Inl)

lemma reliable_write_back:
  assumes "reliable s" and "k \<noteq> []"
  obtains s' where "write_back D k j e (s, w) = (Inr j, (s', w))" and "reliable s'"
    and "vals s' = (vals s)(k \<mapsto> j)"
proof -
  obtain t where t: "ds_set D k j s = (Inr (), t)" "reliable t" using reliable_set [OF assms] by blast
  obtain s' where s': "ds_get D k t = (Inr (vals t k), s')" "reliable s'" using reliable_get [OF t(2) assms(2)] by blast
  have "write_back D k j e (s, w) = (Inr j, (s', w))"
    using t(1) s'(1) set_ok [OF t(1)]
    by (simp add: write_back_def bindE_apply on_device_def)
  from that [OF this s'(2) write_back_Inr(3) [OF this]] show ?thesis .
qed

end

section \<open>A save on a lawful device\<close>

lemma pending_verified:
  "pending_ok L v p \<Longrightarrow> pending_ok L v (p\<lparr>ps_slot_verified := k\<rparr>)"
  unfolding pending_ok_def by (elim conjE) simp

lemma wasm_verify_saving:
  "deps_laws L \<Longrightarrow> pending_ok L v p \<Longrightarrow> wasm_verify_pending_slot L (ps_slot_json p) (js_saving v m p)
     = (Inr (), js_saving v m (p\<lparr>ps_slot_verified := True\<rparr>))"
  by (simp add: wasm_verify_pending_slot_def verify_saving)

lemma wasm_commit_saving:
  "deps_laws L \<Longrightarrow> pending_ok L v p \<Longrightarrow> ps_slot_verified p \<Longrightarrow>
   wasm_commit_pending_save L (ps_active_pointer_json p) (js_saving v m p) = (Inr (), js_idle (next_vault v) m)"
  by (simp add: wasm_commit_pending_save_def commit_saving)

lemma wasm_cancel_saving [simp]: "wasm_cancel_pending_save (js_saving v m p) = js_idle v m"
  by (simp add: wasm_cancel_pending_save_def cancel_pending_save_def)

lemmas handed_simps =
  save_bundle_slot_key_def save_bundle_slot_json_def save_bundle_active_pointer_json_def

context lawful_storage
begin

lemma write_save_result:
  assumes L: "deps_laws L" and p: "pending_ok L v p"
    and run: "write_save L D (handed_out v p) (s, js_saving v m p) = (res, (s', w'))"
  shows "case res of
      Inr _ \<Rightarrow> w' = js_idle (next_vault v) m \<and> vals s' = save_written (vals s) v p
    | Inl _ \<Rightarrow> wasm_cancel_pending_save w' = js_idle v m \<and>
        (vals s' = vals s \<or> vals s' = slot_written (vals s) v p \<or> vals s' = save_written (vals s) v p)"
proof -
  let ?B1 = "write_back D (slot_key (slot_other (uv_persisted_slot v))) (ps_slot_json p)
    (Persistence ''missing_slot_readback'')"
  let ?B2 = "write_back D ACTIVE_SLOT_KEY (ps_active_pointer_json p)
    (Persistence ''missing_pointer_readback'')"
  let ?p = "p\<lparr>ps_slot_verified := True\<rparr>"
  obtain res1 s1 w1 where b1: "?B1 (s, js_saving v m p) = (res1, (s1, w1))" by (metis surj_pair)
  show ?thesis
  proof (cases res1)
    case (Inl d)
    with run b1 have "res = Inl d" "s' = s1" "w' = w1"
      by (simp_all add: write_save_eq bindE_apply handed_simps)
    with write_back_Inl [OF b1 [unfolded Inl]] show ?thesis by auto
  next
    case (Inr x)
    note first = write_back_Inr [OF b1 [unfolded Inr]]
    obtain res2 s2 w2 where b2: "?B2 (s1, js_saving v m ?p) = (res2, (s2, w2))" by (metis surj_pair)
    have run2: "bindE ?B2 (\<lambda>readback. on_session (wasm_commit_pending_save L readback))
        (s1, js_saving v m ?p) = (res, (s', w'))"
      using run b1 Inr first(1,2) wasm_verify_saving [OF L p, of m]
      by (simp add: write_save_eq bindE_apply handed_simps on_session_def)
    show ?thesis
    proof (cases res2)
      case (Inl d)
      with run2 b2 have "res = Inl d" "s' = s2" "w' = w2" by (simp_all add: bindE_apply)
      with write_back_Inl [OF b2 [unfolded Inl]] first(3) show ?thesis by auto
    next
      case (Inr y)
      note second = write_back_Inr [OF b2 [unfolded Inr]]
      from run2 b2 Inr second(1,2) wasm_commit_saving [OF L pending_verified [OF p], of True m]
      have "res = Inr ()" "s' = s2" "w' = js_idle (next_vault v) m"
        by (auto simp: bindE_apply on_session_def)
      with second(3) first(3) show ?thesis by simp
    qed
  qed
qed

lemma reliable_write_save:
  assumes L: "deps_laws L" and p: "pending_ok L v p" and s: "reliable s"
  obtains s' where "write_save L D (handed_out v p) (s, js_saving v m p)
      = (Inr (), (s', js_idle (next_vault v) m))" and "reliable s'"
    and "vals s' = save_written (vals s) v p"
proof -
  let ?p = "p\<lparr>ps_slot_verified := True\<rparr>"
  obtain s1 where s1: "write_back D (slot_key (slot_other (uv_persisted_slot v))) (ps_slot_json p)
      (Persistence ''missing_slot_readback'') (s, js_saving v m p) = (Inr (ps_slot_json p), (s1, js_saving v m p))"
    "reliable s1" "vals s1 = slot_written (vals s) v p"
    by (rule reliable_write_back [OF s keys_not_empty(5)])
  obtain s2 where s2: "write_back D ACTIVE_SLOT_KEY (ps_active_pointer_json p)
      (Persistence ''missing_pointer_readback'') (s1, js_saving v m ?p)
      = (Inr (ps_active_pointer_json p), (s2, js_saving v m ?p))"
    "reliable s2" "vals s2 = save_written (vals s) v p"
    using reliable_write_back [OF s1(2) keys_not_empty(4), of "ps_active_pointer_json p"] s1(3) by metis
  have "write_save L D (handed_out v p) (s, js_saving v m p) = (Inr (), (s2, js_idle (next_vault v) m))"
    using s1(1) s2(1) wasm_verify_saving [OF L p, of m]
      wasm_commit_saving [OF L pending_verified [OF p], of True m]
    by (simp add: write_save_eq bindE_apply handed_simps on_session_def)
  with s2 show ?thesis by (intro that)
qed

end



section \<open>saveSession\<close>

lemma wasm_prepare_save_idle:
  assumes "deps_laws L" and "wf_vault v" and "wasm_prepare_save L (js_idle v m, r) = (res, (w', r'))"
  obtains (failed) e where "res = Inl e" and "w' = js_idle v m"
  | (prepared) p where "res = Inr (handed_out v p)" and "w' = js_saving v m p" and "pending_ok L v p"
      and "\<not> ps_slot_verified p"
      and "encrypt_for_slot L v (slot_other (uv_persisted_slot v)) r = (Inr (ps_slot p), r')"
proof -
  obtain res0 b' where ps: "prepare_save L (idle_session v m, r) = (res0, (b', r'))"
    and w': "w' = \<lparr>wv_inner = b'\<rparr>"
    and res: "res = map_sum to_js_error wasm_save_bundle_new res0"
    using assms(3) by (auto simp: wasm_prepare_save_def split: prod.splits sum.splits)
  from assms(1,2) ps show ?thesis
  proof (cases rule: prepare_save_idle)
    case (failed e)
    then show ?thesis using that(1) by (simp add: res w')
  next
    case (prepared p)
    then show ?thesis using that(2) [of p] by (simp add: res w' wasm_save_bundle_new_def)
  qed
qed

text \<open>What a pending save was encrypted to, on the device that received it.\<close>

lemma pending_candidates:
  assumes L: "deps_laws L" and v: "wf_vault v" and p: "pending_ok L v p"
    and m: "vault_id_of v = vm_vault_id m" "vc_created_at (uv_container v) = vm_created_at m"
  shows "candidates_of L (uv_dek v) m (slot_written vs v p) (slot_other (uv_persisted_slot v))
    = (if byte_len (ps_slot_json p) \<le> MAX_SLOT_JSON_BYTES then [(ps_slot p, next_container v)] else [])"
proof -
  let ?side = "slot_other (uv_persisted_slot v)"
  obtain g where g: "checked_add (generation_of v) 1 = Some g" and slot: "es_slot (ps_slot p) = ?side"
    "slot_validate (ps_slot p) (vc_vault_id (uv_container v)) = Inr ()"
    "decrypt_container L (uv_dek v) (ps_slot p) = Inr ((uv_container v)\<lparr>vc_generation := g\<rparr>)"
    using p by (auto simp: pending_ok_def verify_next_slot_Inr generation_of_def)
  have json: "slot_from_json L (ps_slot_json p) = Some (ps_slot p)"
    using L p by (auto simp: pending_ok_def intro: slot_json_roundtrip)
  have stored: "stored_json (slot_from_json L) MAX_SLOT_JSON_BYTES (slot_written vs v p) (slot_key ?side)
      = (if byte_len (ps_slot_json p) \<le> MAX_SLOT_JSON_BYTES then Inr (Some (ps_slot p)) else Inl VaultTooLarge)"
    by (simp add: stored_json_def json)
  show ?thesis
    using slot m g by (simp add: candidates_of_def stored_slot_def stored authentic_def vault_id_of_def
        next_generation)
qed

lemma recoverable_slot_written:
  assumes L: "deps_laws L" and v: "wf_vault v" and rec: "recoverable L m vs v S" and p: "pending_ok L v p"
  shows "recoverable L m (slot_written vs v p) v (insert (next_container v) S)"
    and "byte_len (ps_slot_json p) \<le> MAX_SLOT_JSON_BYTES \<Longrightarrow>
      recoverable L m (slot_written vs v p) (next_vault v) {next_container v}"
proof -
  have m: "vault_id_of v = vm_vault_id m" "vc_created_at (uv_container v) = vm_created_at m"
    using rec by (simp_all add: recoverable_def)
  obtain g where g: "checked_add (generation_of v) 1 = Some g"
    using p by (auto simp: pending_ok_def verify_next_slot_Inr generation_of_def)
  note new = pending_candidates [OF L v p m, of vs]
  show "byte_len (ps_slot_json p) \<le> MAX_SLOT_JSON_BYTES \<Longrightarrow>
      recoverable L m (slot_written vs v p) (next_vault v) {next_container v}"
    using new by (intro recoverable_written(2) [OF rec g]) simp
  show "recoverable L m (slot_written vs v p) v (insert (next_container v) S)"
  proof (cases "byte_len (ps_slot_json p) \<le> MAX_SLOT_JSON_BYTES")
    case True
    then show ?thesis using new by (intro recoverable_written(1) [OF rec g]) simp
  next
    case False
    with new rec show ?thesis by (auto simp: recoverable_def)
  qed
qed

context lawful_storage
begin

text \<open>The outcome of \<open>saveSession\<close>, whatever the device did.\<close>

lemma save_session_result:
  assumes L: "deps_laws L" and v: "wf_vault v" and rec: "recoverable L m0 (vals s) v S"
    and run: "save_session L D (s, js_idle v m, r) = (res, (s', w', r'))"
  shows "case res of
      Inl _ \<Rightarrow> w' = js_idle v m \<and> recoverable L m0 (vals s') v (insert (next_container v) S)
    | Inr _ \<Rightarrow> w' = js_idle (next_vault v) m \<and>
        (\<exists>slot e. encrypt_for_slot L v (slot_other (uv_persisted_slot v)) r = (Inr slot, r') \<and>
          slot_to_json L slot = Some e \<and> (byte_len e \<le> MAX_SLOT_JSON_BYTES \<longrightarrow>
          recoverable L m0 (vals s') (next_vault v) {next_container v}))"
proof -
  have mono: "recoverable L m0 (vals s) v (insert (next_container v) S)"
    using rec by (auto simp: recoverable_def)
  obtain res0 w1 r1 where prep: "wasm_prepare_save L (js_idle v m, r) = (res0, (w1, r1))"
    by (metis surj_pair)
  from L v prep show ?thesis
  proof (cases rule: wasm_prepare_save_idle)
    case (failed e)
    with run prep mono show ?thesis by (auto simp: save_session_def)
  next
    case (prepared p)
    obtain res1 s1 w2 where body: "write_save L D (handed_out v p) (s, js_saving v m p)
        = (res1, (s1, w2))"
      by (metis surj_pair)
    note result = write_save_result [OF L prepared(3) body]
      and written = recoverable_slot_written [OF L v rec prepared(3)]
    have eq: "save_session L D (s, js_idle v m, r) =
        (res1, (s1, case res1 of Inl _ \<Rightarrow> wasm_cancel_pending_save w2 | Inr _ \<Rightarrow> w2, r1))"
      using prep prepared(1,2) body
      by (simp add: save_session_def on_error_def handed_simps(1) split: sum.split)
    show ?thesis
    proof (cases res1)
      case (Inl d)
      then show ?thesis using eq run result mono written(1) by auto
    next
      case (Inr u)
      then show ?thesis using eq run result written(2) prepared(3,5)
        by (auto simp: pending_ok_def)
    qed
  qed
qed

end



context lawful_storage
begin

text \<open>On a device that does not fail, a save goes through, whatever the size of its slot.\<close>

lemma reliable_save_session:
  assumes L: "deps_laws L" "pointer_fits L" and v: "wf_vault v" and s: "reliable s"
    and enc: "encrypt_for_slot L v (slot_other (uv_persisted_slot v)) r = (Inr slot, r')"
    and e: "slot_to_json L slot = Some e"
  obtains s' p where "save_session L D (s, js_idle v m, r) = (Inr (), (s', js_idle (next_vault v) m, r'))"
    and "reliable s'" and "vals s' = save_written (vals s) v p" and "pending_ok L v p"
    and "ps_slot p = slot" and "ps_slot_json p = e"
proof -
  let ?side = "slot_other (uv_persisted_slot v)"
  let ?ptr = "pointer_for ?side (es_generation slot)"
  obtain pj where pj: "pointer_to_json L ?ptr = Some pj"
    using L(2) unfolding pointer_fits_def by blast
  let ?p = "\<lparr>ps_slot = slot, ps_slot_json = e, ps_active_pointer = ?ptr, ps_active_pointer_json = pj,
    ps_slot_verified = False\<rparr>"
  have prep: "prepare_save L (idle_session v m, r) =
      (Inr \<lparr>sb_slot_key = slot_key ?side, sb_slot_json = e, sb_active_pointer_json = pj\<rparr>,
       (saving_session v m ?p, r'))"
    using enc e pj by (simp add: prepare_save_def ensure_mutable_def vault_ref_def Let_def FORMAT_VERSION_def)
  then have ok: "pending_ok L v ?p"
    by (cases rule: prepare_save_idle [OF L(1) v]) auto
  obtain s2 where body: "write_save L D (handed_out v ?p) (s, js_saving v m ?p)
      = (Inr (), (s2, js_idle (next_vault v) m))" "reliable s2" "vals s2 = save_written (vals s) v ?p"
    by (rule reliable_write_save [OF L(1) ok s])
  have "save_session L D (s, js_idle v m, r) = (Inr (), (s2, js_idle (next_vault v) m, r'))"
    using prep body(1)
    by (simp add: save_session_def wasm_prepare_save_def wasm_save_bundle_new_def on_error_def handed_simps(1))
  then show ?thesis by (rule that [OF _ body(2,3) ok]) simp_all
qed

end

section \<open>Opening writes the pointer only\<close>

context lawful_storage
begin

lemma skip_read_vals:
  "skip_errE (read_optional_json D f k n) s = (res, s') \<Longrightarrow> vals s' = vals s"
  by (auto simp: skip_errE_apply dest: read_optional)

lemma read_candidates_vals:
  "read_candidates L D i ks s = (Inr cs, s') \<Longrightarrow> vals s' = vals s"
  by (induction ks arbitrary: s cs) (auto simp: bindE_Inr Let_def dest!: skip_read_vals)

lemma open_vault_frame:
  assumes "open_vault L D pw s = (Inr opened, s')" and "k \<noteq> ACTIVE_SLOT_KEY"
  shows "vals s' k = vals s k"
proof -
  from assms(1) obtain m s1 ptr s2 slots s3 where
    1: "read_required_json D (meta_from_json L) META_KEY MAX_METADATA_JSON_BYTES s = (Inr m, s1)"
    and 2: "read_pointer L D s1 = (Inr ptr, s2)"
    and 3: "read_candidates L D (vm_vault_id m) [(A, SLOT_A_KEY), (B, SLOT_B_KEY)] s2 = (Inr slots, s3)"
    and 4: "s' = s3 \<or> (\<exists>p. write_json_verified D (pointer_to_json L) ACTIVE_SLOT_KEY p
      MAX_ACTIVE_POINTER_BYTES s3 = (Inr (), s'))"
    by (auto simp: open_vault_def bindE_Inr Let_def split: if_splits simp del: read_candidates.simps)
      blast+
  have "vals s2 = vals s1" using 2 by (auto simp: read_pointer_def bindE_Inr dest: skip_read_vals)
  moreover have "vals s' k = vals s3 k" using 4 assms(2) by (auto elim: write_Inr)
  ultimately show ?thesis using read_required_Inr(1) [OF 1] read_candidates_vals [OF 3] by simp
qed

end



section \<open>openSession\<close>

text \<open>\<open>recoverable\<close> looks at three keys only.\<close>

lemma recoverable_values:
  assumes "vs META_KEY = vs' META_KEY" and "vs SLOT_A_KEY = vs' SLOT_A_KEY"
    and "vs SLOT_B_KEY = vs' SLOT_B_KEY"
  shows "candidates_of L dek m vs side = candidates_of L dek m vs' side"
    and "recoverable L m vs v S \<longleftrightarrow> recoverable L m vs' v S"
proof -
  have slots: "vs (slot_key t) = vs' (slot_key t)" for t using assms(2,3) by (cases t) simp_all
  have cs: "candidates_of L dek m vs t = candidates_of L dek m vs' t" for dek t
    using stored_json_cong [of vs "slot_key t" vs' "slot_from_json L" MAX_SLOT_JSON_BYTES, OF slots]
    by (simp add: candidates_of_def stored_slot_def)
  show "candidates_of L dek m vs side = candidates_of L dek m vs' side" by (rule cs)
  show "recoverable L m vs v S \<longleftrightarrow> recoverable L m vs' v S"
    using stored_json_cong [of vs META_KEY vs' "meta_from_json L" MAX_METADATA_JSON_BYTES, OF assms(1)] cs
    by (simp add: recoverable_def)
qed

abbreviation snapshot_of :: "(key \<Rightarrow> rstring option) \<Rightarrow> storage_snapshot" where
  "snapshot_of vs \<equiv> \<lparr>ss_metadata_json = vs META_KEY, ss_slot_a_json = vs SLOT_A_KEY,
     ss_slot_b_json = vs SLOT_B_KEY, ss_active_pointer_json = vs ACTIVE_SLOT_KEY\<rparr>"

lemma snapshot_of_values:
  assumes "k \<in> {META_KEY, SLOT_A_KEY, SLOT_B_KEY, ACTIVE_SLOT_KEY}"
  shows "ms_values (snapshot_storage (snapshot_of vs)) k = vs k"
  using assms by (auto simp: snapshot_values)

lemma wasm_open_recoverable:
  assumes fits: "pointer_fits L" and rec: "recoverable L m vs v S"
    and pw: "opens_with L (as_bytes pw) m (uv_dek v)"
  obtains v2 opened where "wasm_open L pw (vs META_KEY) (vs SLOT_A_KEY) (vs SLOT_B_KEY) (vs ACTIVE_SLOT_KEY)
      = Inr opened"
    and "open_take_session opened = Inr (js_idle v2 m)"
    and "uv_container v2 \<in> S" and "uv_dek v2 = uv_dek v"
    and "recoverable L m vs v2 {uv_container v2}"
    and "\<forall>side slot c. candidates_of L (uv_dek v) m vs side = [(slot, c)] \<longrightarrow>
      vc_generation c = generation_of v2 \<longrightarrow>
      v2 = \<lparr>uv_container = c, uv_dek = uv_dek v, uv_persisted_slot = side\<rparr>"
proof -
  let ?mem = "snapshot_storage (snapshot_of vs)"
  have eq: "ms_values ?mem META_KEY = vs META_KEY" "ms_values ?mem SLOT_A_KEY = vs SLOT_A_KEY"
    "ms_values ?mem SLOT_B_KEY = vs SLOT_B_KEY"
    by (simp_all add: snapshot_of_values)
  have rec': "recoverable L m (ms_values ?mem) v S"
    by (rule iffD2 [OF recoverable_values(2) [OF eq] rec])
  obtain opened s' where o: "open_vault L memory_storage (as_bytes pw) ?mem = (Inr opened, s')"
    and c: "uv_container (ov_vault opened) \<in> S" "uv_dek (ov_vault opened) = uv_dek v"
    and rec2: "recoverable L m (ms_values s') (ov_vault opened) {uv_container (ov_vault opened)}"
    and only: "\<forall>side slot c. candidates_of L (uv_dek v) m (ms_values ?mem) side = [(slot, c)] \<longrightarrow>
      vc_generation c = generation_of (ov_vault opened) \<longrightarrow>
      ov_vault opened = \<lparr>uv_container = c, uv_dek = uv_dek v, uv_persisted_slot = side\<rparr>"
    and gen: "generation_of v \<le> generation_of (ov_vault opened)"
    by (rule mem.recoverable_open [OF snapshot_reliable fits rec' pw])
  from rec obtain mj where mj: "vs META_KEY = Some mj" "meta_from_json L mj = Some m"
    by (auto simp: recoverable_def stored_json_Some)
  obtain ob where ob: "bridge_open L (as_bytes pw) (snapshot_of vs) = Inr ob"
    "ob_session ob = idle_session (ov_vault opened) m"
    using mj o by (simp add: bridge_open_eq)
  have frame: "ms_values s' k = vs k" if "k \<in> {META_KEY, SLOT_A_KEY, SLOT_B_KEY}" for k
    using mem.open_vault_frame [OF o, of k] that by (auto simp: snapshot_of_values)
  have "recoverable L m vs (ov_vault opened) {uv_container (ov_vault opened)}"
    by (rule iffD1 [OF recoverable_values(2) rec2]) (simp_all add: frame)
  then show ?thesis
    using that [of "wasm_open_bundle_new ob" "ov_vault opened"] ob c only
    by (simp add: recoverable_values(1) [OF eq] wasm_open_def wasm_open_bundle_new_def open_take_session_def)
qed

context lawful_storage
begin

lemma reliable_snapshot:
  assumes "reliable s"
  obtains s' where "load_snapshot D s = (Inr (snapshot_of (vals s)), s')" and "reliable s'"
    and "vals s' = vals s"
proof -
  have get: "\<exists>t. ds_get D k u = (Inr (vals s k), t) \<and> reliable t \<and> vals t = vals s"
    if "reliable u" "vals u = vals s" "k \<noteq> []" for k u
    using reliable_get [OF that(1), of k] that(2,3) get_vals by metis
  obtain s1 where 1: "ds_get D META_KEY s = (Inr (vals s META_KEY), s1)" "reliable s1" "vals s1 = vals s"
    using get [OF assms refl keys_not_empty(1)] by blast
  obtain s2 where 2: "ds_get D SLOT_A_KEY s1 = (Inr (vals s SLOT_A_KEY), s2)" "reliable s2" "vals s2 = vals s"
    using get [OF 1(2,3) keys_not_empty(2)] by blast
  obtain s3 where 3: "ds_get D SLOT_B_KEY s2 = (Inr (vals s SLOT_B_KEY), s3)" "reliable s3" "vals s3 = vals s"
    using get [OF 2(2,3) keys_not_empty(3)] by blast
  obtain s4 where 4: "ds_get D ACTIVE_SLOT_KEY s3 = (Inr (vals s ACTIVE_SLOT_KEY), s4)" "reliable s4"
    "vals s4 = vals s"
    using get [OF 3(2,3) keys_not_empty(4)] by blast
  have "load_snapshot D s = (Inr (snapshot_of (vals s)), s4)"
    using 1(1) 2(1) 3(1) 4(1) by (simp add: load_snapshot_def bindE_apply map_errE_apply)
  then show ?thesis using 4(2,3) by (rule that)
qed

lemma open_session_recoverable:
  assumes s: "reliable s" and fits: "pointer_fits L" and rec: "recoverable L m (vals s) v S"
    and pw: "opens_with L (as_bytes pw) m (uv_dek v)"
  obtains v2 s' where "open_session L D pw s = (Inr (js_idle v2 m), s')" and "reliable s'"
    and "uv_container v2 \<in> S" and "uv_dek v2 = uv_dek v"
    and "recoverable L m (vals s') v2 {uv_container v2}"
    and "\<forall>side slot c. candidates_of L (uv_dek v) m (vals s) side = [(slot, c)] \<longrightarrow>
      vc_generation c = generation_of v2 \<longrightarrow>
      v2 = \<lparr>uv_container = c, uv_dek = uv_dek v, uv_persisted_slot = side\<rparr>"
proof -
  obtain s1 where s1: "load_snapshot D s = (Inr (snapshot_of (vals s)), s1)" "reliable s1" "vals s1 = vals s"
    by (rule reliable_snapshot [OF s])
  obtain v2 opened where o: "wasm_open L pw (vals s META_KEY) (vals s SLOT_A_KEY) (vals s SLOT_B_KEY)
      (vals s ACTIVE_SLOT_KEY) = Inr opened" "open_take_session opened = Inr (js_idle v2 m)"
    and c: "uv_container v2 \<in> S" "uv_dek v2 = uv_dek v"
    and rec2: "recoverable L m (vals s) v2 {uv_container v2}"
    and only: "\<forall>side slot c. candidates_of L (uv_dek v) m (vals s) side = [(slot, c)] \<longrightarrow>
      vc_generation c = generation_of v2 \<longrightarrow>
      v2 = \<lparr>uv_container = c, uv_dek = uv_dek v, uv_persisted_slot = side\<rparr>"
    by (rule wasm_open_recoverable [OF fits rec pw])
  note done' = that [OF _ _ c _ only]
  show ?thesis
  proof (cases "wasm_repaired_pointer_json opened")
    case None
    have "open_session L D pw s = (Inr (js_idle v2 m), s1)"
      using s1(1) o None by (simp add: open_session_def bindE_apply)
    then show ?thesis by (rule done') (use s1 rec2 in simp_all)
  next
    case (Some x)
    obtain s2 where s2: "ds_set D ACTIVE_SLOT_KEY x s1 = (Inr (), s2)" "reliable s2"
      using reliable_set [OF s1(2) keys_not_empty(4)] by blast
    have "open_session L D pw s = (Inr (js_idle v2 m), s2)"
      using s1(1) o Some s2(1) by (simp add: open_session_def bindE_apply map_errE_apply)
    then show ?thesis by (rule done') (use s2 set_ok [OF s2(1)] s1(3) rec2 in simp_all)
  qed
qed

end



lemma recoverable_exact:
  assumes rec: "recoverable L m vs v {uv_container v}" and c: "uv_container v2 \<in> {uv_container v}"
    and only: "\<forall>side slot c. candidates_of L (uv_dek v) m vs side = [(slot, c)] \<longrightarrow>
      vc_generation c = generation_of v2 \<longrightarrow>
      v2 = \<lparr>uv_container = c, uv_dek = uv_dek v, uv_persisted_slot = side\<rparr>"
  shows "v2 = v"
proof -
  obtain slot where mem: "(slot, uv_container v) \<in> set (candidates_of L (uv_dek v) m vs (uv_persisted_slot v))"
    using rec by (auto simp: recoverable_def)
  then show ?thesis
    using only candidates_of_mem(3) [OF mem] c by (simp add: generation_of_def)
qed

context lawful_storage
begin

text \<open>A device that can only recover one vault opens to exactly that session.\<close>

lemma open_session_exact:
  assumes s: "reliable s" and fits: "pointer_fits L"
    and rec: "recoverable L m (vals s) v {uv_container v}"
    and pw: "opens_with L (as_bytes pw) m (uv_dek v)"
  obtains s' where "open_session L D pw s = (Inr (js_idle v m), s')"
    and "recoverable L m (vals s') v {uv_container v}"
proof -
  obtain v2 s' where o: "open_session L D pw s = (Inr (js_idle v2 m), s')"
    "recoverable L m (vals s') v2 {uv_container v2}" and c: "uv_container v2 \<in> {uv_container v}"
    and only: "\<forall>side slot c. candidates_of L (uv_dek v) m (vals s) side = [(slot, c)] \<longrightarrow>
      vc_generation c = generation_of v2 \<longrightarrow>
      v2 = \<lparr>uv_container = c, uv_dek = uv_dek v, uv_persisted_slot = side\<rparr>"
    by (rule open_session_recoverable [OF s fits rec pw])
  have "v2 = v" by (rule recoverable_exact [OF rec c only])
  with o show ?thesis using that by blast
qed

end

section \<open>changeMasterPassword\<close>

text \<open>
  Metadata is small: with valid parameters every string of it is short, and \<open>serde_json\<close> prints
  it in far fewer than the 16 KiB the repository allows.
\<close>

definition metadata_fits :: "'z codec_lib_scheme \<Rightarrow> bool" where
  "metadata_fits L \<longleftrightarrow>
     (\<forall>m e. wf_meta m \<and> meta_validate m = Inr () \<and> meta_to_json L m = Some e \<longrightarrow>
        byte_len e \<le> MAX_METADATA_JSON_BYTES)"

abbreviation js_rekeying :: "unlocked_vault \<Rightarrow> vault_meta \<Rightarrow> pending_password_change \<Rightarrow> wasm_vault_session"
  where "js_rekeying v m c \<equiv> \<lparr>wv_inner = rekeying_session v m c\<rparr>"

lemma rewrap_opens:
  assumes L: "deps_laws L" and rw: "rewrap_vault_key L cur new m v config r = (Inr m', r')"
  shows "opens_with L cur m (uv_dek v)" and "opens_with L new m' (uv_dek v)"
    and "vm_vault_id m' = vm_vault_id m" and "vm_created_at m' = vm_created_at m"
proof -
  obtain kek salt new_kek w r1 where
    m: "derive_kek L cur (vm_vault_id m) (vm_kdf m) = Inr kek"
      "unwrap_dek L kek (vm_wrapped_dek m) (vm_vault_id m) = Inr (uv_dek v)" and
    new: "derive_kek L new (vm_vault_id m) (kdf_from_config salt config) = Inr new_kek" and
    w: "wrap_dek L new_kek (uv_dek v) (vm_vault_id m) r1 = (Inr w, r')" and
    m': "m' = m\<lparr>vm_kdf := kdf_from_config salt config, vm_wrapped_dek := w\<rparr>"
    using rw by (rule rewrap_vault_key_Inr)
  have "unwrap_dek L new_kek w (vm_vault_id m) = Inr (uv_dek v)"
    using L unwrap_wrap_dek [OF _ _ unwrap_dek_length [OF m(2)] w] by auto
  with m new show "opens_with L cur m (uv_dek v)" "opens_with L new m' (uv_dek v)"
    "vm_vault_id m' = vm_vault_id m" "vm_created_at m' = vm_created_at m"
    by (simp_all add: opens_with_def m')
qed

lemma recoverable_metadata:
  assumes rec: "recoverable L m vs v S" and json: "meta_from_json L e = Some m'"
    and size: "byte_len e \<le> MAX_METADATA_JSON_BYTES" and ok: "meta_validate m' = Inr ()"
    and same: "vm_vault_id m' = vm_vault_id m" "vm_created_at m' = vm_created_at m"
  shows "recoverable L m' (vs(META_KEY \<mapsto> e)) v S"
proof -
  have "candidates_of L dek m' (vs(META_KEY \<mapsto> e)) side = candidates_of L dek m vs side" for dek side
  proof -
    have "authentic L dek m' = authentic L dek m" by (simp add: authentic_def fun_eq_iff same split: sum.split)
    then show ?thesis by (simp add: candidates_of_def stored_slot_def same)
  qed
  moreover have "stored_meta L (vs(META_KEY \<mapsto> e)) = Inr (Some m')"
    using json size by (simp add: stored_json_Some)
  ultimately show ?thesis using rec ok same by (simp add: recoverable_def)
qed

text \<open>A device with the new metadata holds the vault for the new password.\<close>

lemma change_recoverable:
  assumes L: "deps_laws L" "metadata_fits L" and rec: "recoverable L m vs v S" and c: "change_ok L v c"
    and rw: "rewrap_vault_key L cur new m v config r = (Inr (pc_metadata c), r')"
  shows "recoverable L (pc_metadata c) (vs(META_KEY \<mapsto> pc_metadata_json c)) v S"
    and "opens_with L cur m (uv_dek v)" and "opens_with L new (pc_metadata c) (uv_dek v)"
proof -
  note opens = rewrap_opens [OF L(1) rw]
  have meta: "session_meta v (pc_metadata c)" "meta_to_json L (pc_metadata c) = Some (pc_metadata_json c)"
    using c by (simp_all add: change_ok_def)
  then have "byte_len (pc_metadata_json c) \<le> MAX_METADATA_JSON_BYTES"
    and "meta_from_json L (pc_metadata_json c) = Some (pc_metadata c)"
    using L by (auto simp: metadata_fits_def session_meta_def intro: meta_json_roundtrip)
  then show "recoverable L (pc_metadata c) (vs(META_KEY \<mapsto> pc_metadata_json c)) v S"
    using meta(1) by (intro recoverable_metadata [OF rec _ _ _ opens(3,4)]) (simp_all add: session_meta_def)
  show "opens_with L cur m (uv_dek v)" and "opens_with L new (pc_metadata c) (uv_dek v)" by (rule opens(1,2))+
qed

context lawful_storage
begin

lemma write_password_change_result:
  assumes L: "deps_laws L" and c: "change_ok L v c"
    and run: "write_password_change L D (pc_metadata_json c) (s, js_rekeying v m c) = (res, (s', w'))"
  shows "case res of
      Inr _ \<Rightarrow> w' = js_idle v (pc_metadata c) \<and> vals s' = (vals s)(META_KEY \<mapsto> pc_metadata_json c)
    | Inl _ \<Rightarrow> wasm_cancel_password_change w' = js_idle v m \<and>
        (vals s' = vals s \<or> vals s' = (vals s)(META_KEY \<mapsto> pc_metadata_json c))"
proof -
  let ?B = "write_back D META_KEY (pc_metadata_json c) (Persistence ''missing_metadata_readback'')"
  obtain res1 s1 w1 where b: "?B (s, js_rekeying v m c) = (res1, (s1, w1))" by (metis surj_pair)
  show ?thesis
  proof (cases res1)
    case (Inl d)
    with run b have "res = Inl d" "s' = s1" "w' = w1"
      by (simp_all add: write_password_change_eq bindE_apply)
    with write_back_Inl [OF b [unfolded Inl]] show ?thesis
      by (auto simp: wasm_cancel_password_change_def cancel_password_change_def)
  next
    case (Inr x)
    note first = write_back_Inr [OF b [unfolded Inr]]
    from run b Inr first(1,2) commit_password_rekeying [OF L c, of "pc_metadata_json c" m]
    have "res = Inr ()" "s' = s1" "w' = js_idle v (pc_metadata c)"
      by (auto simp: write_password_change_eq bindE_apply on_session_def wasm_commit_password_change_def)
    with first(3) show ?thesis by simp
  qed
qed

lemma reliable_change_password:
  assumes L: "deps_laws L" and m: "session_meta v m" and s: "reliable s"
    and rw: "rewrap_vault_key L (as_bytes cur) (as_bytes new) m v kdf_config_default r = (Inr m', r')"
    and mj: "meta_to_json L m' = Some mj"
  obtains s' where "change_master_password L D cur new (s, js_idle v m, r) = (Inr (), (s', js_idle v m', r'))"
    and "reliable s'" and "vals s' = (vals s)(META_KEY \<mapsto> mj)"
proof -
  let ?c = "\<lparr>pc_metadata = m', pc_metadata_json = mj\<rparr>"
  have c: "change_ok L v ?c" using rewrap_session_meta [OF L m rw] mj by (simp add: change_ok_def)
  have prep: "prepare_password_change L (as_bytes cur) (as_bytes new) (idle_session v m, r)
      = (Inr mj, (rekeying_session v m ?c, r'))"
    using rw mj by (simp add: prepare_password_change_def ensure_mutable_def vault_ref_def)
  obtain s' where s': "write_back D META_KEY mj (Persistence ''missing_metadata_readback'')
      (s, js_rekeying v m ?c) = (Inr mj, (s', js_rekeying v m ?c))" "reliable s'"
    "vals s' = (vals s)(META_KEY \<mapsto> mj)"
    by (rule reliable_write_back [OF s keys_not_empty(1)])
  have "change_master_password L D cur new (s, js_idle v m, r) = (Inr (), (s', js_idle v m', r'))"
    using prep s'(1) commit_password_rekeying [OF L c, of mj m]
    by (simp add: change_master_password_def wasm_prepare_password_change_def on_error_def
        write_password_change_eq bindE_apply on_session_def wasm_commit_password_change_def)
  then show ?thesis using s'(2,3) by (rule that)
qed

text \<open>Whatever happens, the device holds the vault under the old metadata or under the new.\<close>

lemma change_password_result:
  assumes L: "deps_laws L" "metadata_fits L" and m: "session_meta v m"
    and rec: "recoverable L m (vals s) v S"
    and run: "change_master_password L D cur new (s, js_idle v m, r) = (res, (s', w', r'))"
  shows "case res of
      Inr _ \<Rightarrow> opens_with L (as_bytes cur) m (uv_dek v) \<and> (\<exists>m'. w' = js_idle v m' \<and>
        recoverable L m' (vals s') v S \<and> opens_with L (as_bytes new) m' (uv_dek v))
    | Inl _ \<Rightarrow> w' = js_idle v m \<and> (vals s' = vals s \<or>
        opens_with L (as_bytes cur) m (uv_dek v) \<and>
        (\<exists>m'. recoverable L m' (vals s') v S \<and> opens_with L (as_bytes new) m' (uv_dek v)))"
proof -
  obtain res0 b r0 where prep: "prepare_password_change L (as_bytes cur) (as_bytes new) (idle_session v m, r)
      = (res0, (b, r0))"
    by (metis surj_pair)
  from L(1) m prep show ?thesis
  proof (cases rule: prepare_password_idle)
    case (failed e)
    with run prep show ?thesis
      by (auto simp: change_master_password_def wasm_prepare_password_change_def)
  next
    case (prepared c)
    obtain res1 s1 w1 where body: "write_password_change L D (pc_metadata_json c) (s, js_rekeying v m c)
        = (res1, (s1, w1))"
      by (metis surj_pair)
    note result = write_password_change_result [OF L(1) prepared(2) body]
      and new = change_recoverable [OF L rec prepared(2,4)]
    have "(res, (s', w', r')) = (res1, (s1, case res1 of Inl _ \<Rightarrow> wasm_cancel_password_change w1
        | Inr _ \<Rightarrow> w1, r0))"
      using run prep prepared(1,3) body
      by (auto simp: change_master_password_def wasm_prepare_password_change_def on_error_def
          split: sum.splits)
    then show ?thesis using result new by (cases res1) auto
  qed
qed

section \<open>createSession\<close>

lemma create_session_Inr:
  assumes L: "deps_laws L" "metadata_fits L"
    and run: "create_session L D pw now (s, r) = (Inr w, (s', r'))"
  obtains cv mj sj pj where "w = js_idle (cv_unlocked cv) (cv_metadata cv)"
    and "vals s META_KEY = None"
    and "meta_to_json L (cv_metadata cv) = Some mj" and "slot_to_json L (cv_initial_slot cv) = Some sj"
    and "byte_len mj \<le> MAX_METADATA_JSON_BYTES"
    and "vals s' = (vals s)(slot_key A \<mapsto> sj, META_KEY \<mapsto> mj, ACTIVE_SLOT_KEY \<mapsto> pj)"
    and "\<exists>t r0. create_vault L (as_bytes pw) kdf_config_default t r0 = (Inr cv, r')"
proof -
  from run obtain s0 handed t where get: "ds_get D META_KEY s = (Inr None, s0)"
    and create: "wasm_create L pw now r = (Inr handed, r')"
    and rest: "\<exists>k sj mj pj. wasm_slot_key handed = Inr k \<and> wasm_slot_json handed = Inr sj \<and>
      wasm_metadata_json handed = Inr mj \<and> wasm_active_pointer_json handed = Inr pj \<and>
      create_take_session handed = Inr w \<and> persist_created D mj k sj pj s0 = (Inr (), s')"
    by (auto simp: create_session_def map_errE_apply map_err_def and_then_Inr
        split: prod.splits sum.splits if_splits)
  from create obtain t r0 cb where cb: "bridge_create L (as_bytes pw) t r0 = (Inr cb, r')"
    and handed: "handed = wasm_create_bundle_new cb"
    by (auto simp: wasm_create_def bindE_Inr)
  obtain cv mj sj pj where cv: "create_vault L (as_bytes pw) kdf_config_default t r0 = (Inr cv, r')"
    "meta_to_json L (cv_metadata cv) = Some mj" "slot_to_json L (cv_initial_slot cv) = Some sj"
    and cb': "cb = \<lparr>cb_session = idle_session (cv_unlocked cv) (cv_metadata cv), cb_metadata_json = mj,
      cb_slot_key = slot_key (es_slot (cv_initial_slot cv)), cb_slot_json = sj,
      cb_active_pointer_json = pj\<rparr>"
    and ok: "session_meta (cv_unlocked cv) (cv_metadata cv)"
    by (rule bridge_create_Inr [OF L(1) cb])
  have A: "es_slot (cv_initial_slot cv) = A" by (rule create_vault_slot [OF L(1) cv(1)])
  have w: "w = js_idle (cv_unlocked cv) (cv_metadata cv)"
    and "persist_created D mj (slot_key A) sj pj s0 = (Inr (), s')"
    using rest by (auto simp: handed wasm_create_bundle_new_def wasm_slot_key_def wasm_slot_json_def
        wasm_metadata_json_def wasm_active_pointer_json_def create_take_session_def
        wasm_create_bundle_inner_def cb' A)
  then have "vals s' = (vals s0)(slot_key A \<mapsto> sj, META_KEY \<mapsto> mj, ACTIVE_SLOT_KEY \<mapsto> pj)"
    by (auto simp: persist_created_def bindE_Inr simp del: slot_key.simps dest!: set_ok split: if_splits)
  moreover have "byte_len mj \<le> MAX_METADATA_JSON_BYTES"
    using L(2) ok cv(2) by (auto simp: metadata_fits_def session_meta_def)
  ultimately show ?thesis
    using that [OF w _ cv(2,3)] get_Inr [OF get] cv(1) by auto
qed

end

section \<open>destroySession\<close>

lemma wasm_lock_empty [simp]:
  "wv_inner (wasm_lock w) = \<lparr>vb_vault = None, vb_metadata = None, vb_pending = None,
     vb_pending_password_change = None\<rparr>"
  by (simp add: wasm_lock_def lock_def)

context lawful_storage
begin

lemma remove_keys_vals:
  "remove_keys D ks s = (res, s') \<Longrightarrow> k \<notin> set ks \<Longrightarrow> vals s' k = vals s k"
proof (induction ks arbitrary: s)
  case (Cons key ks)
  obtain r t where r: "ds_remove D key s = (r, t)" by fastforce
  have "vals t k = vals s k" using Cons.prems(2) r by (cases r) (auto dest: remove_ok remove_err)
  then show ?case using Cons r by (cases r) (auto simp: bindE_apply map_errE_apply)
qed simp

lemma remove_keys_Inr:
  "remove_keys D ks s = (Inr u, s') \<Longrightarrow> vals s' = (\<lambda>k. if k \<in> set ks then None else vals s k)"
proof (induction ks arbitrary: s)
  case (Cons key ks)
  from Cons.prems obtain t where "ds_remove D key s = (Inr (), t)" "remove_keys D ks t = (Inr u, s')"
    by (auto simp: bindE_Inr)
  with Cons.IH remove_ok show ?case by fastforce
qed simp

text \<open>However it ends, no session is left open and no other value is touched; on success the five
  values are gone.\<close>

lemma destroy_session_result:
  assumes "destroy_session D secure (s, t, session) = (res, (s', t', session'))"
  shows "session' = map_option wasm_lock session"
    and "k \<notin> set VAULT_DEVICE_KEYS \<Longrightarrow> vals s' k = vals s k"
    and "res = Inr () \<Longrightarrow> k \<in> set VAULT_DEVICE_KEYS \<Longrightarrow> vals s' k = None"
proof -
  obtain res0 s0 where r: "remove_keys D VAULT_DEVICE_KEYS s = (res0, s0)" by fastforce
  with assms have s': "s' = s0" and ok: "res = Inr () \<Longrightarrow> res0 = Inr ()"
    and "session' = map_option wasm_lock session"
    by (auto simp: destroy_session_def Let_def split: option.splits prod.splits sum.splits)
  then show "session' = map_option wasm_lock session" by blast
  show "k \<notin> set VAULT_DEVICE_KEYS \<Longrightarrow> vals s' k = vals s k"
    using remove_keys_vals [OF r] s' by simp
  show "res = Inr () \<Longrightarrow> k \<in> set VAULT_DEVICE_KEYS \<Longrightarrow> vals s' k = None"
    using r s' ok by (auto dest: remove_keys_Inr)
qed

end

end
