(* ===== verification/Client_Properties.thy ===== *)
theory Client_Properties
  imports Client_Recovery Wasm_Properties
begin

text \<open>
  The properties of the browser client: it saves exactly what the core's repository saves, a save
  or a password change that ends anywhere leaves a vault that opens, and a created vault opens
  again.
\<close>

section \<open>Saving\<close>

lemma save_values:
  assumes D: "lawful_storage D vals reliable"
    and save: "save L D (s, v, r) = (Inr (), (s1, v', r'))"
    and enc: "encrypt_for_slot L v (slot_other (uv_persisted_slot v)) r = (Inr slot, r'')"
    and e: "slot_to_json L slot = Some e"
    and p: "pointer_to_json L (pointer_for (slot_other (uv_persisted_slot v)) (es_generation slot)) = Some p"
  shows "r' = r''" and "vals s1 = (vals s)(slot_key (slot_other (uv_persisted_slot v)) \<mapsto> e, ACTIVE_SLOT_KEY \<mapsto> p)"
proof -
  let ?side = "slot_other (uv_persisted_slot v)"
  obtain g slot0 stored where g: "checked_add (generation_of v) 1 = Some g"
    and enc0: "encrypt_for_slot_at_generation L v ?side g r = (Inr slot0, r')"
    and st: "store_slot L D v ?side g slot0 s = (Inr stored, s1)"
    using save by (auto simp: save_def Let_def split: option.splits prod.splits sum.splits)
  have "slot0 = slot" and r: "r' = r''"
    using enc enc0 g by (auto simp: encrypt_for_slot_Inr generation_of_def)
  with enc0 have "es_generation slot = g" by (auto dest: encrypt_for_slot_at_generation_fields)
  with lawful_storage.store_slot_Inr [OF D st] \<open>slot0 = slot\<close> e p
  show "vals s1 = (vals s)(slot_key ?side \<mapsto> e, ACTIVE_SLOT_KEY \<mapsto> p)" by (metis option.inject)
  show "r' = r''" by (rule r)
qed

text \<open>C9: The browser saves what the core saves. On a device that does not fail, and for a slot within
  the size limit, the two-phase save through the session (prepare, write, read back, verify, write
  the pointer, read back, commit) and \<open>TwoSlotRepository::save\<close> end in the same stored values,
  the same next session and the same state of the random source.\<close>

theorem client_save_equals_repository_save:
  assumes "lawful_storage D vals reliable" and "deps_laws L" and "pointer_fits L"
    and "wf_vault v" and "session_meta v m" and "reliable s"
    and "encrypt_for_slot L v (slot_other (uv_persisted_slot v)) r = (Inr slot, r')"
    and "slot_to_json L slot = Some e" and "byte_len e \<le> MAX_SLOT_JSON_BYTES"
  shows "\<exists>s1 s2 v'. save L D (s, v, r) = (Inr (), (s1, v', r')) \<and>
    save_session L D (s, js_idle v m, r) = (Inr (), (s2, js_idle v' m, r')) \<and> vals s1 = vals s2"
proof -
  let ?side = "slot_other (uv_persisted_slot v)"
  obtain s1 where save: "save L D (s, v, r) = (Inr (), (s1, next_vault v, r'))"
    using lawful_storage.reliable_save [OF assms(1-4,6-9)] by blast
  obtain s2 p where client: "save_session L D (s, js_idle v m, r) = (Inr (), (s2, js_idle (next_vault v) m, r'))"
    and vals2: "vals s2 = save_written (vals s) v p" and p: "pending_ok L v p" "ps_slot p = slot"
      "ps_slot_json p = e"
    by (rule lawful_storage.reliable_save_session [OF assms(1-4,6-8)])
  have "pointer_to_json L (pointer_for ?side (es_generation slot)) = Some (ps_active_pointer_json p)"
    using p by (auto simp: pending_ok_def verify_next_slot_Inr)
  with save_values(2) [OF assms(1) save assms(7,8)] vals2 p(3) have "vals s1 = vals s2" by simp
  with save client show ?thesis by blast
qed

lemma sample_session_meta: "session_meta (cv_unlocked sample_created) (cv_metadata sample_created)"
  using sample_session_ok by (simp add: session_ok_def)

lemma client_save_equals_repository_save_witness:
  "\<exists>s1 s2 v'. save sample memory_storage (sample_device, cv_unlocked sample_created, 5) = (Inr (), (s1, v', 6)) \<and>
     save_session sample memory_storage
       (sample_device, js_idle (cv_unlocked sample_created) (cv_metadata sample_created), 5)
       = (Inr (), (s2, js_idle v' (cv_metadata sample_created), 6)) \<and> ms_values s1 = ms_values s2"
proof -
  obtain e where e: "slot_to_json sample sample_next_slot = Some e"
    "byte_len e \<le> MAX_SLOT_JSON_BYTES" by (rule sample_next_slot_fits)
  show ?thesis
    by (rule client_save_equals_repository_save [OF mem.lawful_storage_axioms sample_deps_laws
          sample_pointer_fits sample_created_facts(1) sample_session_meta sample_device_reliable
          sample_next_slot_other e])
qed

text \<open>C2: A save in the browser is crash consistent. Whatever the device does during \<open>saveSession\<close>
  (any call may fail, a failed write may or may not have happened, and a crash is a failing call
  after which nothing more happens), the same password opens the vault again on the values that
  are left. After an error the session is as it was and the reopened contents are the last
  committed ones or those being saved. After a success, if the encoded slot is within the size
  limit that \<open>open\<close> enforces, the reopened session is the saved one.\<close>

theorem client_save_is_crash_consistent:
  assumes "lawful_storage D vals reliable" and "deps_laws L" and "pointer_fits L"
    and "wf_vault v" and "recoverable L m (vals s) v S" and "opens_with L (as_bytes pw) m (uv_dek v)"
    and "save_session L D (s, js_idle v m, r) = (res, (s1, w1, r1))"
    and "reliable s2" and "vals s2 = vals s1"
    and "\<forall>slot r'. encrypt_for_slot L v (slot_other (uv_persisted_slot v)) r = (Inr slot, r') \<longrightarrow>
      (\<exists>e. slot_to_json L slot = Some e \<and> byte_len e \<le> MAX_SLOT_JSON_BYTES)"
  shows "\<exists>v3 s3. open_session L D pw s2 = (Inr (js_idle v3 m), s3) \<and>
    recoverable L m (vals s3) v3 {uv_container v3} \<and>
    (case res of
       Inl _ \<Rightarrow> w1 = js_idle v m \<and> uv_container v3 \<in> insert (next_container v) S
     | Inr _ \<Rightarrow> w1 = js_idle v3 m \<and> v3 = next_vault v)"
proof -
  note result = lawful_storage.save_session_result [OF assms(1,2,4,5,7)]
  show ?thesis
  proof (cases res)
    case (Inl e)
    then have rec: "recoverable L m (vals s2) v (insert (next_container v) S)" and w1: "w1 = js_idle v m"
      using result assms(9) by simp_all
    obtain v3 s3 where "open_session L D pw s2 = (Inr (js_idle v3 m), s3)"
      "uv_container v3 \<in> insert (next_container v) S" "recoverable L m (vals s3) v3 {uv_container v3}"
      by (rule lawful_storage.open_session_recoverable [OF assms(1,8,3) rec assms(6)])
    with Inl w1 show ?thesis by auto
  next
    case (Inr u)
    from result obtain slot e where "encrypt_for_slot L v (slot_other (uv_persisted_slot v)) r = (Inr slot, r1)"
      "slot_to_json L slot = Some e" and w1: "w1 = js_idle (next_vault v) m"
      and if_fits: "byte_len e \<le> MAX_SLOT_JSON_BYTES \<longrightarrow>
        recoverable L m (vals s1) (next_vault v) {next_container v}"
      unfolding Inr by auto
    with assms(10) have rec: "recoverable L m (vals s2) (next_vault v) {uv_container (next_vault v)}"
      using assms(9) by fastforce
    have pw: "opens_with L (as_bytes pw) m (uv_dek (next_vault v))" using assms(6) by simp
    obtain s3 where "open_session L D pw s2 = (Inr (js_idle (next_vault v) m), s3)"
      "recoverable L m (vals s3) (next_vault v) {uv_container (next_vault v)}"
      by (rule lawful_storage.open_session_exact [OF assms(1,8,3) rec pw])
    with Inr w1 show ?thesis by auto
  qed
qed


lemma sample_opens_text:
  "opens_with sample (as_bytes (str ''correct horse battery staple'')) (cv_metadata sample_created)
     (uv_dek (cv_unlocked sample_created))"
  using sample_opens by (simp add: sample_password_def)

lemma reborn_reliable: "memory_reliable (memory_default\<lparr>ms_values := vs\<rparr>)"
  by (simp add: memory_reliable_def memory_default_def)

lemma client_save_is_crash_consistent_witness:
  "\<exists>res s1 w1 r1 v3 s3. save_session sample memory_storage
       (failing_device, js_idle (cv_unlocked sample_created) (cv_metadata sample_created), 5)
       = (res, (s1, w1, r1)) \<and>
     open_session sample memory_storage (str ''correct horse battery staple'')
       (memory_default\<lparr>ms_values := ms_values s1\<rparr>) = (Inr (js_idle v3 (cv_metadata sample_created)), s3) \<and>
     (case res of
        Inl _ \<Rightarrow> uv_container v3
          \<in> {next_container (cv_unlocked sample_created), uv_container (cv_unlocked sample_created)}
      | Inr _ \<Rightarrow> v3 = next_vault (cv_unlocked sample_created))"
proof -
  let ?v = "cv_unlocked sample_created"
  obtain res s1 w1 r1 where run: "save_session sample memory_storage
      (failing_device, js_idle ?v (cv_metadata sample_created), 5) = (res, (s1, w1, r1))"
    by (metis surj_pair)
  have rec: "recoverable sample (cv_metadata sample_created) (ms_values failing_device) ?v
      {uv_container ?v}"
    using sample_recoverable by (simp add: failing_device_def memory_fail_next_set_def)
  have fits: "\<forall>slot r'. encrypt_for_slot sample ?v (slot_other (uv_persisted_slot ?v)) 5 = (Inr slot, r') \<longrightarrow>
      (\<exists>e. slot_to_json sample slot = Some e \<and> byte_len e \<le> MAX_SLOT_JSON_BYTES)"
    using sample_next_slot_other sample_next_slot_fits by (metis Inr_inject prod.inject)
  have dev: "ms_values (memory_default\<lparr>ms_values := ms_values s1\<rparr>) = ms_values s1" by simp
  from client_save_is_crash_consistent [OF mem.lawful_storage_axioms sample_deps_laws
      sample_pointer_fits sample_created_facts(1) rec sample_opens_text run reborn_reliable dev fits]
  obtain v3 s3 where o: "open_session sample memory_storage (str ''correct horse battery staple'')
      (memory_default\<lparr>ms_values := ms_values s1\<rparr>) = (Inr (js_idle v3 (cv_metadata sample_created)), s3)"
    and c: "case res of
      Inl _ \<Rightarrow> w1 = js_idle ?v (cv_metadata sample_created) \<and>
        uv_container v3 \<in> {next_container ?v, uv_container ?v}
    | Inr _ \<Rightarrow> w1 = js_idle v3 (cv_metadata sample_created) \<and> v3 = next_vault ?v"
    by blast
  from c have "case res of Inl _ \<Rightarrow> uv_container v3 \<in> {next_container ?v, uv_container ?v}
      | Inr _ \<Rightarrow> v3 = next_vault ?v"
    by (cases res) simp_all
  with run o show ?thesis by blast
qed

text \<open>Without the bound on the encoded slot the success says too little: the session advances, but
  \<open>open\<close> skips the slot it cannot read, and the saved changes are gone after the next opening.\<close>

lemma oversized_save_is_lost:
  assumes D: "lawful_storage D vals reliable" and L: "deps_laws L" "pointer_fits L"
    and v: "wf_vault v" and rec: "recoverable L m (vals s) v {uv_container v}"
    and pw: "opens_with L (as_bytes pw) m (uv_dek v)" and s: "reliable s"
    and enc: "encrypt_for_slot L v (slot_other (uv_persisted_slot v)) r = (Inr slot, r')"
    and e: "slot_to_json L slot = Some e" and big: "MAX_SLOT_JSON_BYTES < byte_len e"
  shows "\<exists>s1 s2. save_session L D (s, js_idle v m, r) = (Inr (), (s1, js_idle (next_vault v) m, r')) \<and>
    open_session L D pw s1 = (Inr (js_idle v m), s2)"
proof -
  obtain s1 p where client: "save_session L D (s, js_idle v m, r) = (Inr (), (s1, js_idle (next_vault v) m, r'))"
    and s1: "reliable s1" "vals s1 = save_written (vals s) v p" and p: "pending_ok L v p"
    and json: "ps_slot_json p = e"
    by (rule lawful_storage.reliable_save_session [OF D L v s enc e])
  have m: "vault_id_of v = vm_vault_id m" "vc_created_at (uv_container v) = vm_created_at m"
    using rec by (simp_all add: recoverable_def)
  have "candidates_of L (uv_dek v) m (slot_written (vals s) v p) (slot_other (uv_persisted_slot v)) = []"
    using pending_candidates [OF L(1) v p m] json big by simp
  with rec s1(2) have rec1: "recoverable L m (vals s1) v {uv_container v}"
    by (auto simp: recoverable_def)
  obtain v3 s3 where o: "open_session L D pw s1 = (Inr (js_idle v3 m), s3)"
    and c: "uv_container v3 \<in> {uv_container v}"
    and only: "\<forall>side slot c. candidates_of L (uv_dek v) m (vals s1) side = [(slot, c)] \<longrightarrow>
      vc_generation c = generation_of v3 \<longrightarrow>
      v3 = \<lparr>uv_container = c, uv_dek = uv_dek v, uv_persisted_slot = side\<rparr>"
    by (rule lawful_storage.open_session_recoverable [OF D s1(1) L(2) rec1 pw])
  have "v3 = v" by (rule recoverable_exact [OF rec1 c only])
  with o client show ?thesis by blast
qed

section \<open>Changing the password\<close>

text \<open>C10: A password change in the browser never loses the vault. However \<open>changeMasterPassword\<close>
  ends, either the stored values are untouched, or the device holds the same vault under new
  metadata that the new password opens; after a success the latter holds, and the current password
  was the right one. In every case the passwords that fit the stored metadata open the same
  contents.\<close>

theorem client_password_change_keeps_vault:
  assumes "lawful_storage D vals reliable" and "deps_laws L" and "pointer_fits L" and "metadata_fits L"
    and "session_meta v m" and "recoverable L m (vals s) v {uv_container v}"
    and "change_master_password L D cur new (s, js_idle v m, r) = (res, (s1, w1, r1))"
    and "reliable s2" and "vals s2 = vals s1"
  shows "vals s1 = vals s \<and> w1 = js_idle v m \<and> (\<exists>e. res = Inl e) \<or>
    (\<exists>m' s3. open_session L D new s2 = (Inr (js_idle v m'), s3) \<and>
      opens_with L (as_bytes cur) m (uv_dek v) \<and>
      (case res of Inl _ \<Rightarrow> w1 = js_idle v m | Inr _ \<Rightarrow> w1 = js_idle v m'))"
proof -
  note result = lawful_storage.change_password_result [OF assms(1,2,4,5,6,7)]
  have reopen: "\<exists>s3. open_session L D new s2 = (Inr (js_idle v m'), s3)"
    if rec: "recoverable L m' (vals s1) v {uv_container v}" and pw: "opens_with L (as_bytes new) m' (uv_dek v)"
    for m'
  proof -
    from rec assms(9) have "recoverable L m' (vals s2) v {uv_container v}" by simp
    from lawful_storage.open_session_exact [OF assms(1,8,3) this pw] show ?thesis by blast
  qed
  show ?thesis
  proof (cases res)
    case (Inl e)
    with result reopen show ?thesis unfolding Inl by simp blast
  next
    case (Inr u)
    with result reopen show ?thesis unfolding Inr by simp blast
  qed
qed

text \<open>The sample codec prints small metadata.\<close>

lemma length_enc_str: "list_all (\<lambda>c. c < 16384) s \<Longrightarrow> length s < 128 \<Longrightarrow> length (enc_str s) \<le> 1 + 2 * length s"
proof -
  assume "list_all (\<lambda>c. c < 16384) s" and n: "length s < 128"
  then have "length (concat (map enc_nat s)) \<le> 2 * length s"
  proof (induction s)
    case (Cons c s)
    then show ?case using length_enc_nat [of c 1] by simp
  qed simp
  moreover have "length (enc_nat (length s)) \<le> 1" using length_enc_nat [of "length s" 0] n by simp
  ultimately show ?thesis by (simp add: enc_list_def)
qed

lemma length_enc_b64:
  assumes "length bs < 128"
  shows "length (enc_str (sample_b64_encode bs)) \<le> 1 + 2 * length bs"
proof -
  have "256 + unat b < 16384" for b :: u8 using unsigned_less [of b, where 'a = nat] by simp
  then show ?thesis using length_enc_str [of "sample_b64_encode bs"] assms
    by (simp add: sample_b64_encode_def list_all_iff)
qed

lemma length_enc_word: "length (enc_word (w :: u64)) \<le> 10" "length (enc_word (x :: u32)) \<le> 5"
  using unsigned_less [of w, where 'a = nat] unsigned_less [of x, where 'a = nat]
    length_enc_nat [of "unat w" 9] length_enc_nat [of "unat x" 4] by simp_all

lemma length_enc_strs:
  "list_all (\<lambda>s. length (enc_str s) \<le> n) ss \<Longrightarrow> length ss < 128 \<Longrightarrow>
     length (enc_list enc_str ss) \<le> 1 + n * length ss"
proof -
  assume "list_all (\<lambda>s. length (enc_str s) \<le> n) ss" and l: "length ss < 128"
  then have "length (concat (map enc_str ss)) \<le> n * length ss"
    by (induction ss) simp_all
  moreover have "length (enc_nat (length ss)) \<le> 1" using length_enc_nat [of "length ss" 0] l by simp
  ultimately show ?thesis by (simp add: enc_list_def)
qed

lemma sample_metadata_fits: "metadata_fits sample"
proof -
  have "byte_len e \<le> MAX_METADATA_JSON_BYTES"
    if m: "wf_meta m" "meta_validate m = Inr ()" "meta_to_json sample m = Some e" for m e
  proof -
    let ?w = "meta_to_wire sample m" and ?k = "vm_kdf m" and ?d = "vm_wrapped_dek m"
    have b64: "b64_encode sample = sample_b64_encode" by (simp add: sample_def)
    have len: "length (vault_id_as_bytes (vm_vault_id m)) = 16" "length (as_slice (wd_nonce ?d)) = 24"
      "length (as_slice (wd_ciphertext ?d)) = 48" "length (as_slice (kp_salt ?k)) \<le> 64"
      and fmt: "vm_format m = FORMAT"
      using m(1,2) by (cases "vm_vault_id m", simp_all add: wf_meta_def wf_vault_id_def meta_validate_ok
          kdf_in_bounds_def eb_len_def)
    have strs: "list_all (\<lambda>s. length (enc_str s) \<le> 97)
        [vmw_format ?w, vmw_vault_id ?w, wdw_nonce (vmw_wrapped_dek ?w), wdw_ciphertext (vmw_wrapped_dek ?w)]"
      using length_enc_b64 [of "vault_id_as_bytes (vm_vault_id m)"] length_enc_b64 [of "as_slice (wd_nonce ?d)"]
        length_enc_b64 [of "as_slice (wd_ciphertext ?d)"] length_enc_str [of FORMAT] len fmt
      by (simp add: meta_to_wire_def wrapped_dek_to_wire_def serialize_vault_id_def
          serialize_encoded_bytes_def encode_base64url_def b64 FORMAT_def str_def)
    have salt: "length (enc_str (kpw_salt (vmw_kdf ?w))) \<le> 129"
      using length_enc_b64 [of "as_slice (kp_salt ?k)"] len
      by (simp add: meta_to_wire_def kdf_to_wire_def serialize_encoded_bytes_def encode_base64url_def b64)
    have nums: "length (enc_list enc_word [a, b, c, d]) \<le> 21" for a b c d :: u32
      using length_enc_word(2) [of a] length_enc_word(2) [of b] length_enc_word(2) [of c]
        length_enc_word(2) [of d] length_enc_nat [of 4 0]
      by (simp add: enc_list_def numeral_eq_Suc)
    have "length (enc_kdf (vmw_kdf ?w)) \<le> 150"
      using salt nums [of "kpw_memory_kib (vmw_kdf ?w)" "kpw_iterations (vmw_kdf ?w)"
          "kpw_parallelism (vmw_kdf ?w)" "kpw_output_bytes (vmw_kdf ?w)"]
      by (simp add: enc_kdf_def enc_pair_def)
    then have "length (enc_meta ?w) \<le> 600"
      using length_enc_strs [OF strs] length_enc_word(1) [of "vmw_created_at ?w"]
        length_enc_word(2) [of "vmw_version ?w"]
      by (simp add: enc_meta_def enc_pair_def)
    then show ?thesis
      using m(3) byte_len_sample_b64 [of "enc_meta ?w"]
      by (simp add: meta_to_json_def sample_def sample_print_def MAX_METADATA_JSON_BYTES_def)
  qed
  then show ?thesis unfolding metadata_fits_def by blast
qed

lemma client_password_change_keeps_vault_witness:
  "\<exists>s1 m' r1 s3. change_master_password sample memory_storage (str ''correct horse battery staple'')
       (str ''a new phrase beyond the looking glass'')
       (sample_device, js_idle (cv_unlocked sample_created) (cv_metadata sample_created), 5)
       = (Inr (), (s1, js_idle (cv_unlocked sample_created) m', r1)) \<and>
     open_session sample memory_storage (str ''a new phrase beyond the looking glass'')
       (memory_default\<lparr>ms_values := ms_values s1\<rparr>)
       = (Inr (js_idle (cv_unlocked sample_created) m'), s3)"
proof -
  obtain m' r' where rw: "rewrap_vault_key sample (as_bytes (str ''correct horse battery staple''))
      (as_bytes (str ''a new phrase beyond the looking glass'')) (cv_metadata sample_created)
      (cv_unlocked sample_created) kdf_config_default 5 = (Inr m', r')"
    using sample_rewrap by (auto simp: sample_password_def sample_new_password_def)
  obtain mj where "meta_to_json sample m' = Some mj"
    by (simp add: meta_to_json_def sample_def sample_print_def)
  from mem.reliable_change_password [OF sample_deps_laws sample_session_meta sample_device_reliable rw this]
  obtain s1 where run: "change_master_password sample memory_storage
      (str ''correct horse battery staple'') (str ''a new phrase beyond the looking glass'')
      (sample_device, js_idle (cv_unlocked sample_created) (cv_metadata sample_created), 5)
      = (Inr (), (s1, js_idle (cv_unlocked sample_created) m', r'))"
    by blast
  have dev: "ms_values (memory_default\<lparr>ms_values := ms_values s1\<rparr>) = ms_values s1" by simp
  from client_password_change_keeps_vault [OF mem.lawful_storage_axioms sample_deps_laws
      sample_pointer_fits sample_metadata_fits sample_session_meta sample_recoverable run
      reborn_reliable dev] run
  show ?thesis by auto
qed

section \<open>Creating\<close>

text \<open>C36: A vault created in the browser opens again. After a successful \<open>createSession\<close> on a
  device without a second slot, whose slot text is within the size limit that \<open>open\<close> enforces,
  \<open>openSession\<close> with the same password returns exactly the session that creation returned; and
  creation never succeeds where metadata is already stored.\<close>

theorem client_create_then_open:
  assumes "lawful_storage D vals reliable" and "deps_laws L" and "pointer_fits L" and "metadata_fits L"
    and "create_session L D pw now (s, r) = (Inr w, (s1, r1))" and "vals s SLOT_B_KEY = None"
    and "reliable s2" and "vals s2 = vals s1"
    and "\<forall>e. vals s1 SLOT_A_KEY = Some e \<longrightarrow> byte_len e \<le> MAX_SLOT_JSON_BYTES"
  shows "vals s META_KEY = None \<and> (\<exists>s3. open_session L D pw s2 = (Inr w, s3))"
proof -
  obtain cv mj sj pj where w: "w = js_idle (cv_unlocked cv) (cv_metadata cv)"
    and none: "vals s META_KEY = None"
    and mj: "meta_to_json L (cv_metadata cv) = Some mj" "byte_len mj \<le> MAX_METADATA_JSON_BYTES"
    and sj: "slot_to_json L (cv_initial_slot cv) = Some sj"
    and vs: "vals s1 = (vals s)(slot_key A \<mapsto> sj, META_KEY \<mapsto> mj, ACTIVE_SLOT_KEY \<mapsto> pj)"
    and ex: "\<exists>t r0. create_vault L (as_bytes pw) kdf_config_default t r0 = (Inr cv, r1)"
    by (rule lawful_storage.create_session_Inr [OF assms(1,2,4,5)])
  from ex obtain t r0 where cv: "create_vault L (as_bytes pw) kdf_config_default t r0 = (Inr cv, r1)"
    by blast
  have "byte_len sj \<le> MAX_SLOT_JSON_BYTES" using assms(9) by (simp add: vs)
  from initial_recoverable [where vs = "vals s", OF assms(2) cv sj this mj assms(6)]
  have rec: "recoverable L (cv_metadata cv) (vals s2) (cv_unlocked cv) {uv_container (cv_unlocked cv)}"
    by (simp add: assms(8) vs del: slot_key.simps)
  obtain s3 where "open_session L D pw s2 = (Inr (js_idle (cv_unlocked cv) (cv_metadata cv)), s3)"
    by (rule lawful_storage.open_session_exact [OF assms(1,7,3) rec created_opens [OF assms(2) cv]])
  with none show ?thesis by (simp add: w)
qed

lemma sample_slot_size:
  "slot_to_json sample (cv_initial_slot sample_created) = Some e \<Longrightarrow> byte_len e \<le> MAX_SLOT_JSON_BYTES"
  using sample_initialize
  by (cases rule: mem.initialize_cases) (auto elim: mem.initial_writes_Inr)

lemma sample_create_session:
  obtains w s1 where "create_session sample memory_storage (str ''correct horse battery staple'')
      (f64_of_nat 100) (memory_default, 0) = (Inr w, (s1, 5))"
    and "memory_reliable s1"
    and "\<forall>e. ms_values s1 SLOT_A_KEY = Some e \<longrightarrow> byte_len e \<le> MAX_SLOT_JSON_BYTES"
proof -
  obtain cb where cb: "bridge_create sample sample_password 100 0 = (Inr cb, 5)"
    by (rule sample_bridge_create)
  obtain cv mj sj pj where cv: "create_vault sample sample_password kdf_config_default 100 0 = (Inr cv, 5)"
    and sj: "slot_to_json sample (cv_initial_slot cv) = Some sj"
    and cb': "cb = \<lparr>cb_session = idle_session (cv_unlocked cv) (cv_metadata cv), cb_metadata_json = mj,
      cb_slot_key = slot_key (es_slot (cv_initial_slot cv)), cb_slot_json = sj,
      cb_active_pointer_json = pj\<rparr>"
    by (rule bridge_create_Inr [OF sample_deps_laws cb])
  have size: "byte_len sj \<le> MAX_SLOT_JSON_BYTES"
    using cv sj sample_created sample_slot_size by simp
  have A: "es_slot (cv_initial_slot cv) = A" by (rule create_vault_slot [OF sample_deps_laws cv])
  have "parse_timestamp (f64_of_nat 100) = Inr (of_nat 100)"
    by (rule parse_timestamp_of_nat) simp
  then have create: "wasm_create sample (str ''correct horse battery staple'') (f64_of_nat 100) 0
      = (Inr (wasm_create_bundle_new cb), 5)"
    using cb by (simp add: wasm_create_def bindE_apply map_errE_apply sample_password_def)
  let ?s1 = "memory_default\<lparr>ms_values := [SLOT_A_KEY \<mapsto> sj, META_KEY \<mapsto> mj, ACTIVE_SLOT_KEY \<mapsto> pj]\<rparr>"
  have allowed: "SLOT_A_KEY \<in> set ALLOWED_SLOT_KEYS" by (simp add: ALLOWED_SLOT_KEYS_def)
  have "persist_created memory_storage mj SLOT_A_KEY sj pj memory_default = (Inr (), ?s1)"
    using allowed by (simp add: persist_created_def bindE_apply map_errE_apply memory_set_def memory_default_def)
  moreover have "ds_get memory_storage META_KEY memory_default = (Inr None, memory_default)"
    by (simp add: memory_get_def memory_default_def)
  ultimately have "create_session sample memory_storage (str ''correct horse battery staple'')
      (f64_of_nat 100) (memory_default, 0) = (Inr \<lparr>wv_inner = cb_session cb\<rparr>, (?s1, 5))"
    using create A
    by (simp add: create_session_def map_errE_apply wasm_slot_key_def wasm_slot_json_def
        wasm_metadata_json_def wasm_active_pointer_json_def create_take_session_def
        wasm_create_bundle_inner_def wasm_create_bundle_new_def cb')
  moreover have "memory_reliable ?s1" by (rule reborn_reliable)
  ultimately show ?thesis using that [of "\<lparr>wv_inner = cb_session cb\<rparr>" ?s1] size by simp
qed

lemma client_create_then_open_witness:
  "\<exists>w s1 s3. create_session sample memory_storage (str ''correct horse battery staple'')
       (f64_of_nat 100) (memory_default, 0) = (Inr w, (s1, 5)) \<and>
     open_session sample memory_storage (str ''correct horse battery staple'') s1 = (Inr w, s3)"
proof -
  obtain w s1 where run: "create_session sample memory_storage (str ''correct horse battery staple'')
      (f64_of_nat 100) (memory_default, 0) = (Inr w, (s1, 5))"
    and s1: "memory_reliable s1"
    and size: "\<forall>e. ms_values s1 SLOT_A_KEY = Some e \<longrightarrow> byte_len e \<le> MAX_SLOT_JSON_BYTES"
    by (rule sample_create_session)
  from client_create_then_open [OF mem.lawful_storage_axioms sample_deps_laws sample_pointer_fits
      sample_metadata_fits run memory_default_values s1 refl size] run
  show ?thesis by blast
qed

end
