(* ===== verification/Vault_Limits.thy ===== *)
theory Vault_Limits
  imports Session_Properties
begin

text \<open>
  Limits and panics. The limits of the format hold in every session, weak or excessive parameters
  of the key derivation are refused before any key is derived, and no operation unwinds, whatever
  the device returns and whatever a client passes.
\<close>

section \<open>Panic freedom of the repository\<close>

lemma read_optional_json_no_panic: "no_panic (fst (read_optional_json D f k n s))"
  by (auto simp: read_optional_json_def map_errE_apply map_err_def
      intro!: no_panic_bindE split: option.splits prod.splits sum.splits)

lemma read_required_json_no_panic: "no_panic (fst (read_required_json D f k n s))"
  by (auto simp: read_required_json_def read_optional_json_no_panic intro!: no_panic_bindE)

lemma write_json_verified_no_panic: "no_panic (fst (write_json_verified D f k x n s))"
  by (auto simp: write_json_verified_def map_errE_apply map_err_def
      intro!: no_panic_bindE split: prod.splits sum.splits)

lemma skip_err_no_panic: "no_panic r \<Longrightarrow> no_panic (skip_err r)"
  by (auto simp: skip_err_def no_panic_def split: sum.splits vault_error.splits)

lemma skip_errE_no_panic: "no_panic (fst (m s)) \<Longrightarrow> no_panic (fst (skip_errE m s))"
  by (auto simp: skip_errE_def skip_err_no_panic split: prod.splits)

lemma read_optional_json_from:
  "read_optional_json D f k n s = (Inr (Some x), s') \<Longrightarrow> \<exists>e. f e = Some x"
  by (auto simp: read_optional_json_def bindE_Inr split: option.splits if_splits)

lemma read_candidates_no_panic: "no_panic (fst (read_candidates L D i ks s))"
proof (induction ks arbitrary: s)
  case (Cons k ks)
  obtain side key where k: "k = (side, key)" by fastforce
  show ?case unfolding k read_candidates.simps Let_def
    by (auto intro!: no_panic_bindE skip_errE_no_panic read_optional_json_no_panic Cons.IH)
qed simp

lemma read_candidates_wf:
  "read_candidates L D i ks s = (Inr cs, s') \<Longrightarrow> list_all wf_slot cs"
proof (induction ks arbitrary: s cs)
  case (Cons k ks)
  obtain side key where k: "k = (side, key)" by fastforce
  from Cons.prems obtain got t more where rest: "read_candidates L D i ks t = (Inr more, s')"
    and got: "skip_errE (read_optional_json D (slot_from_json L) key MAX_SLOT_JSON_BYTES) s = (Inr got, t)"
    and cs: "cs = (case got of
              Some (Some slot) \<Rightarrow>
                if es_slot slot \<noteq> side \<or> \<not> is_ok (slot_validate slot i) then [] else [slot]
            | _ \<Rightarrow> []) @ more"
    by (auto simp: k bindE_Inr Let_def)
  have "wf_slot slot" if "got = Some (Some slot)" for slot
    using got that by (auto simp: skip_errE_apply skip_err_Inr eq_commute [of "Inr _"]
        dest!: read_optional_json_from slot_from_json_wf)
  then show ?case using Cons.IH [OF rest] by (auto simp: cs split: option.splits if_splits)
qed simp

lemma open_vault_no_panic: "no_panic (fst (open_vault L D pw s))"
proof -
  have meta: "wf_meta m"
    if "read_required_json D (meta_from_json L) META_KEY MAX_METADATA_JSON_BYTES s = (Inr m, s')" for m s'
    using that by (auto simp: read_required_json_def bindE_Inr
        dest!: read_optional_json_from meta_from_json_wf)
  have dec: "no_panic (decrypt_candidates L dek m cs)"
    if "read_candidates L D i ks s1 = (Inr cs, s2)" for dek m cs i ks s1 s2
    using read_candidates_wf [OF that] by (simp add: decrypt_candidates_eq)
  have sel: "no_panic (select_candidate p cs)" for p cs
    by (simp add: select_candidate_def split: list.splits)
  show ?thesis
    unfolding open_vault_def Let_def read_pointer_def
    by (auto simp del: read_candidates.simps simp: unwrap_dek_no_panic wf_meta_def sel dec
        intro!: no_panic_bindE read_required_json_no_panic skip_errE_no_panic
          read_optional_json_no_panic read_candidates_no_panic write_json_verified_no_panic
        dest!: meta)
qed

lemma device_call_no_panic: "no_panic (fst (map_errE Storage m t))"
  by (auto simp: map_errE_apply map_err_def split: prod.splits sum.splits)

lemma pointer_validate_no_panic [simp]: "no_panic (pointer_validate p)"
  by (simp add: pointer_validate_def)

lemma repository_no_panic:
  "no_panic (fst (initialize L D created s))"
  "wf_vault v \<Longrightarrow> no_panic (fst (save L' D (s, v, r)))"
  "no_panic (fst (clear_device_storage D s))"
proof -
  note steps = device_call_no_panic write_json_verified_no_panic read_required_json_no_panic
  show "no_panic (fst (initialize L D created s))"
    by (auto simp: initialize_def intro!: no_panic_bindE steps)
  have clear: "no_panic (fst (clear_keys D ks t))" for ks t
    by (induction ks arbitrary: t) (auto intro!: no_panic_bindE steps)
  then show "no_panic (fst (clear_device_storage D s))" by (simp only: clear_device_storage_def)
  show "no_panic (fst (save L' D (s, v, r)))" if v: "wf_vault v"
  proof -
    have stored: "wf_slot stored"
      if "read_required_json D (slot_from_json L') k n t = (Inr stored, t')" for k n stored t t'
      using that by (auto simp: read_required_json_def bindE_Inr dest!: read_optional_json_from slot_from_json_wf)
    have store: "no_panic (fst (store_slot L' D v side g slot t))" for side g slot t
      by (auto simp: store_slot_def verify_next_slot_no_panic dest!: stored intro!: no_panic_bindE steps)
    show ?thesis
    proof (cases "checked_add (generation_of v) 1")
      case (Some g)
      obtain enc r1 where enc: "encrypt_for_slot_at_generation L' v (slot_other (uv_persisted_slot v)) g r = (enc, r1)"
        by fastforce
      show ?thesis
      proof (cases enc)
        case (Inl e)
        then show ?thesis using encrypt_for_slot_no_panic(1) [OF v, of L' "slot_other (uv_persisted_slot v)" g r]
          by (simp add: save_def Let_def Some enc)
      next
        case (Inr slot)
        obtain out s1 where out: "store_slot L' D v (slot_other (uv_persisted_slot v)) g slot s = (out, s1)"
          by fastforce
        have "no_panic (fst (commit_verified_slot L' v stored))" if "out = Inr stored" for stored
          using out that by (auto simp: store_slot_def bindE_Inr commit_verified_slot_def split: sum.splits)
        then show ?thesis
          using store [of "slot_other (uv_persisted_slot v)" g slot s]
          by (cases out) (auto simp: save_def Let_def Some enc Inr out split: prod.splits)
      qed
    qed (simp add: save_def Let_def)
  qed
qed

lemma vault_no_panic:
  "wf_meta m \<Longrightarrow> wf_slot slot \<Longrightarrow> no_panic (unlock_vault L pw m slot)"
  "wf_slot slot \<Longrightarrow> no_panic (verify_next_slot L v slot) \<and> no_panic (fst (commit_verified_slot L v slot))"
  using verify_next_slot_no_panic [of slot L v]
  by (auto simp: unlock_vault_no_panic commit_verified_slot_def split: sum.splits)

section \<open>Panic freedom of a session\<close>

lemma no_panicD: "p = (Inl (Panic m), s) \<Longrightarrow> \<not> no_panic (fst p)"
  by simp

lemma entry_operations_no_panic:
  "add_entry L n now (v, r) \<noteq> (Inl (Panic m), s)"
  "update_entry u now v \<noteq> (Inl (Panic m), v')"
  "delete_entry i now v \<noteq> (Inl (Panic m), v')"
proof -
  have fields: "validate_entry_fields t s d \<noteq> Inl (Panic m)" for t s d
    by (auto dest: validate_entry_fields_err)
  have id: "generate_unique_entry_id L v r \<noteq> (Inl (Panic m), r')" for r'
    by (auto simp: generate_unique_entry_id_def dest: generate_entry_id_loop_err)
  show "add_entry L n now (v, r) \<noteq> (Inl (Panic m), s)"
    using fields id by (cases s) (auto simp: add_entry_Inl split: sum.splits if_splits)
  show "update_entry u now v \<noteq> (Inl (Panic m), v')"
    using fields by (auto simp: update_entry_Inl split: sum.splits)
  show "delete_entry i now v \<noteq> (Inl (Panic m), v')" by (simp add: delete_entry_Inl)
qed

lemma edit_no_panic:
  assumes "edits c" and "bridge_step L c (b, r) = (Inl (Vault (Panic m)), (b', r'))"
  shows False
  using assms
  by (cases c) (auto simp: entry_operations_no_panic bridge_add_entry_def bridge_update_entry_def bridge_delete_entry_def
      on_vault_def parse_entry_id_def map_err_def ensure_mutable_def reply_with_def
      split: sum.splits prod.splits option.splits if_splits)

lemma protocol_Vault:
  "protocol c (Inl (Vault e)) p p' \<Longrightarrow>
     edits c \<or> c = PrepareSave \<or> (\<exists>cur new. c = PreparePasswordChange cur new)"
  by (auto elim: protocol.cases)

lemma step_no_panic:
  assumes L: "deps_laws L" and b: "session_ok L b"
  shows "bridge_step L c (b, r) \<noteq> (Inl (Vault (Panic m)), (b', r'))"
proof
  assume step: "bridge_step L c (b, r) = (Inl (Vault (Panic m)), (b', r'))"
  have "protocol c (Inl (Vault (Panic m))) (phase_of b) (phase_of b')"
    using step_follows [OF L b step] by (simp add: follows_def)
  then consider "edits c" | "c = PrepareSave" | cur new where "c = PreparePasswordChange cur new"
    using protocol_Vault by blast
  then show False
  proof cases
    case 1
    then show False using step by (rule edit_no_panic)
  next
    case 2
    have v: "vb_vault b = Some v \<Longrightarrow> wf_vault v" for v using b by (simp add: session_ok_def)
    then show False using step 2
      by (auto dest!: no_panicD simp: encrypt_for_slot_no_panic prepare_save_def ensure_mutable_def vault_ref_def reply_with_def Let_def
          and_then_Inl split: prod.splits sum.splits option.splits if_splits)
  next
    case (3 cur new)
    have m: "vb_metadata b = Some m \<Longrightarrow> wf_meta m" for m
      using b by (auto simp: session_ok_def session_meta_def split: option.splits)
    then show False using step 3
      by (auto dest!: no_panicD simp: rewrap_vault_key_no_panic prepare_password_change_def ensure_mutable_def vault_ref_def reply_with_def
          and_then_Inl and_then_Inr split: prod.splits sum.splits option.splits if_splits)
  qed
qed

lemma entries_no_panic:
  "no_panic (fst (add_entry L n now (v, r)))" "no_panic (fst (update_entry u now v))"
  "no_panic (fst (delete_entry i now v))"
  using entry_operations_no_panic
  by (cases "add_entry L n now (v, r)", cases "update_entry u now v", cases "delete_entry i now v";
      fastforce simp: no_panic_def split: sum.splits vault_error.splits)+

text \<open>Creating and opening a session, and its queries.\<close>

lemma bridge_create_no_panic:
  "rng_laws L \<Longrightarrow> fst (bridge_create L pw now r) \<noteq> Inl (Vault (Panic msg))"
  using create_vault_no_panic [of L pw kdf_config_default now r]
  by (auto simp: bridge_create_def bindE_apply map_errE_apply map_err_def no_panic_def ok_or_def lift_def ret_def
      split: prod.splits sum.splits option.splits vault_error.splits)

lemma bridge_open_no_panic: "bridge_open L pw snapshot \<noteq> Inl (Vault (Panic msg))"
proof -
  obtain res s' where o: "open_vault L memory_storage pw (snapshot_storage snapshot) = (res, s')" by fastforce
  have "no_panic res" using open_vault_no_panic [of L memory_storage pw "snapshot_storage snapshot"] o by simp
  then show ?thesis
    by (cases res) (auto simp: bridge_open_eq o and_then_Inl ok_or_def split: option.splits)
qed

lemma queries_no_panic:
  "list_entries_json K b \<noteq> Inl (Vault (Panic msg))" "get_entry_json K t b \<noteq> Inl (Vault (Panic msg))"
  "get_entry_details_json K t b \<noteq> Inl (Vault (Panic msg))" "get_entry_secret K t b \<noteq> Inl (Vault (Panic msg))"
proof -
  have "bridge_entry K t b \<noteq> Inl (Vault (Panic msg))"
    by (auto simp: bridge_entry_def and_then_Inl parse_entry_id_def map_err_def vault_ref_def split: sum.splits)
  then show "list_entries_json K b \<noteq> Inl (Vault (Panic msg))" "get_entry_json K t b \<noteq> Inl (Vault (Panic msg))"
    "get_entry_details_json K t b \<noteq> Inl (Vault (Panic msg))" "get_entry_secret K t b \<noteq> Inl (Vault (Panic msg))"
    by (auto simp: list_entries_json_def get_entry_json_def get_entry_details_json_def get_entry_secret_def
        and_then_Inl vault_ref_def)
qed

text \<open>C16: Nothing panics. In the core: creating a vault, unlocking it, changing its password, its three
  entry operations, encrypting it for a slot, verifying and committing a slot, and the four methods of the
  repository that run on a device, \<open>initialize\<close>, \<open>open\<close>, \<open>save\<close> and \<open>clear_device_storage\<close>, return a
  result for every password, every time, every random source and every device with whatever contents. In
  the browser: so do creating and opening a session, every call and every query on a session that a client
  can hold. The panics that the source can express (an index out of range, a slice of another length, an
  \<open>expect\<close>) are unreachable. Values that Rust types by their length are assumed to have it (\<open>wf_meta\<close>,
  \<open>wf_slot\<close>), and an unlocked vault to be well formed, as every one that a client can get is.\<close>

theorem no_operation_panics:
  assumes "deps_laws L"
  shows "no_panic (fst (create_vault L pw config now r)) \<and>
    (\<forall>m slot. wf_meta m \<and> wf_slot slot \<longrightarrow> no_panic (unlock_vault L pw m slot)) \<and>
    (\<forall>m v. wf_meta m \<longrightarrow> no_panic (fst (rewrap_vault_key L pw new m v config r))) \<and>
    no_panic (fst (add_entry L n now (v, r))) \<and> no_panic (fst (update_entry u now v)) \<and>
    no_panic (fst (delete_entry i now v)) \<and>
    (\<forall>v side. wf_vault v \<longrightarrow> no_panic (fst (encrypt_for_slot L v side r))) \<and>
    (\<forall>v slot. wf_slot slot \<longrightarrow>
       no_panic (verify_next_slot L v slot) \<and> no_panic (fst (commit_verified_slot L v slot))) \<and>
    no_panic (fst (initialize L D created s)) \<and> no_panic (fst (open_vault L D pw s)) \<and>
    (\<forall>v. wf_vault v \<longrightarrow> no_panic (fst (save L D (s, v, r)))) \<and>
    no_panic (fst (clear_device_storage D s)) \<and>
    (\<forall>m. fst (bridge_create L pw now r) \<noteq> Inl (Vault (Panic m)) \<and>
       bridge_open L pw snapshot \<noteq> Inl (Vault (Panic m)) \<and>
       (\<forall>b c. reachable_session L b \<longrightarrow> fst (bridge_step L c (b, r)) \<noteq> Inl (Vault (Panic m))) \<and>
       (\<forall>b. list_entries_json K b \<noteq> Inl (Vault (Panic m)) \<and> get_entry_json K t b \<noteq> Inl (Vault (Panic m)) \<and>
          get_entry_details_json K t b \<noteq> Inl (Vault (Panic m)) \<and> get_entry_secret K t b \<noteq> Inl (Vault (Panic m))))"
proof -
  have rng: "rng_laws L" using assms by (simp add: deps_laws_def)
  have step: "fst (bridge_step L c (b, r)) \<noteq> Inl (Vault (Panic m))" if "reachable_session L b" for b c m
    using step_no_panic [OF assms reachable_ok [OF assms that]] by (metis prod.collapse)
  show ?thesis
    by (intro conjI allI impI)
      (simp_all add: create_vault_no_panic bridge_create_no_panic rng step vault_no_panic rewrap_vault_key_no_panic
        entries_no_panic encrypt_for_slot_no_panic repository_no_panic open_vault_no_panic bridge_open_no_panic
        queries_no_panic)
qed

lemma no_operation_panics_witness:
  "no_panic (fst (open_vault sample memory_storage (as_bytes (str ''not the password'')) sample_device)) \<and>
     no_panic (fst (save sample memory_storage (sample_device, cv_unlocked sample_created, 5))) \<and>
     fst (bridge_step sample PrepareSave (sample_session, 5)) \<noteq> Inl (Vault (Panic ''bytes''))"
  using no_operation_panics [OF sample_deps_laws, where D = memory_storage and r = 5
      and pw = "as_bytes (str ''not the password'')" and s = sample_device] sample_reachable sample_created_facts(1)
  by blast

section \<open>Limits\<close>

text \<open>C39: The limits of the format hold at every moment. In every session a client can hold there are
  at most 10000 entries with distinct identifiers of 16 bytes; every title has 1 to 200
  characters, every secret 1 to 4096 bytes, every description at most 2000 characters, and every
  entry lies between the creation and the last change of the vault.\<close>

theorem session_limits:
  assumes "deps_laws L" and "reachable_session L b" and "vb_vault b = Some v"
  shows "length (entries_of v) \<le> 10000 \<and> distinct (map ve_id (entries_of v)) \<and>
    (\<forall>e \<in> set (entries_of v). length (entry_id_as_bytes (ve_id e)) = 16 \<and>
       length (ve_title e) \<in> {1..200} \<and> byte_len (ve_secret e) \<in> {1..4096} \<and>
       (case ve_description e of None \<Rightarrow> True | Some d \<Rightarrow> length d \<le> 2000) \<and>
       vc_created_at (uv_container v) \<le> ve_created_at e \<and> ve_created_at e \<le> ve_updated_at e \<and>
       ve_updated_at e \<le> vc_updated_at (uv_container v))"
proof -
  have "wf_vault v" using reachable_ok [OF assms(1,2)] assms(3) by (simp add: session_ok_def)
  note facts = wf_vault_facts [OF this]
  have "length (entry_id_as_bytes i) = 16" if "wf_entry_id i" for i
    using that by (cases i) (simp add: wf_entry_id_def)
  with facts show ?thesis
    by (auto simp: MAX_ENTRIES_def entry_ok_def entry_fields_ok_def entry_in_timeline_def
        chars_count_def MAX_TITLE_CHARS_def MAX_SECRET_BYTES_def MAX_DESCRIPTION_CHARS_def
        split: option.split)
qed

lemma session_limits_witness:
  "\<exists>e. entries_of (fst (snd (add_entry sample sample_entry 200 (cv_unlocked sample_created, 5)))) = [e] \<and>
     length (entry_id_as_bytes (ve_id e)) = 16 \<and> byte_len (ve_secret e) \<le> 4096"
proof -
  obtain i v where add: "add_entry sample sample_entry 200 (cv_unlocked sample_created, 5) = (Inr i, (v, 6))"
    by (rule sample_add)
  have one: "length (entries_of (fst (snd (add_entry sample sample_entry 200 (cv_unlocked sample_created, 5))))) = 1"
    by code_simp
  have "bridge_step sample (AddEntry (str ''Mail'') (str ''hunter2'') None 200) (sample_session, 5) =
      (Inr (Text (entry_id_to_base64url sample i)),
       (idle_session v (cv_metadata sample_created), 6))"
    using add by (simp add: bridge_add_entry_def ensure_mutable_def sample_entry_def reply_with_def)
  from reach_step [OF sample_reachable this]
  have "reachable_session sample (idle_session v (cv_metadata sample_created))" .
  from session_limits [OF sample_deps_laws this, of v] one add show ?thesis
    by (auto simp: length_Suc_conv)
qed

text \<open>Weak or excessive key derivation parameters never derive a key. Parameters outside the
  limits (memory from 19456 to 262144 KiB, 1 to 10 passes, 1 to 4 lanes, a salt of 16 to 64 bytes,
  32 bytes of output) are refused as invalid before Argon2 is called, so metadata that names them
  unlocks nothing and no vault is created with them.\<close>

theorem kdf_parameters_bounded:
  "(kp_memory_kib k \<in> {19456..262144} \<and> kp_iterations k \<in> {1..10} \<and> kp_parallelism k \<in> {1..4} \<and>
     eb_len (kp_salt k) \<in> {16..64} \<and> kp_output_bytes k = 32 \<or>
    (\<exists>msg. derive_kek L pw i k = Inl (InvalidKdfParameters msg)) \<and>
    (\<exists>e. unlock_vault L pw (m\<lparr>vm_kdf := k\<rparr>) slot = Inl e)) \<and>
   (kc_memory_kib config \<in> {19456..262144} \<and> kc_iterations config \<in> {1..10} \<and>
     kc_parallelism config \<in> {1..4} \<or>
    (\<exists>e. fst (create_vault L' pw config now r) = Inl e))"
proof (intro conjI)
  have bad: "(\<exists>msg. derive_kek L pw i k = Inl (InvalidKdfParameters msg)) \<and>
      (\<exists>e. unlock_vault L pw (m\<lparr>vm_kdf := k\<rparr>) slot = Inl e)" if outside: "\<not> kdf_in_bounds k"
  proof -
    obtain e where e: "kdf_validate k = Inl e"
      using outside kdf_validate_ok [of k] by (cases "kdf_validate k") auto
    moreover from e obtain msg where "e = InvalidKdfParameters msg" by (auto dest: kdf_validate_err)
    moreover have "unlock_vault L pw (m\<lparr>vm_kdf := k\<rparr>) slot \<noteq> Inr v" for v
      using outside by (auto simp: unlock_vault_Inr meta_validate_ok)
    ultimately show ?thesis
      by (cases "unlock_vault L pw (m\<lparr>vm_kdf := k\<rparr>) slot") (auto simp: derive_kek_def)
  qed
  then show "kp_memory_kib k \<in> {19456..262144} \<and> kp_iterations k \<in> {1..10} \<and> kp_parallelism k \<in> {1..4} \<and>
     eb_len (kp_salt k) \<in> {16..64} \<and> kp_output_bytes k = 32 \<or>
    (\<exists>msg. derive_kek L pw i k = Inl (InvalidKdfParameters msg)) \<and>
    (\<exists>e. unlock_vault L pw (m\<lparr>vm_kdf := k\<rparr>) slot = Inl e)"
    by (auto simp: kdf_in_bounds_def OUTPUT_BYTES_def)
  show "kc_memory_kib config \<in> {19456..262144} \<and> kc_iterations config \<in> {1..10} \<and>
     kc_parallelism config \<in> {1..4} \<or> (\<exists>e. fst (create_vault L' pw config now r) = Inl e)"
  proof (cases "create_vault L' pw config now r")
    case (Pair res r')
    then show ?thesis
      by (cases res) (auto elim!: create_vault_Inr simp: kdf_in_bounds_def kdf_from_config_def)
  qed
qed

end
