(* ===== verification/Redaction.thy ===== *)
theory Redaction
  imports Vault
begin

text \<open>
  What the core lets out of its values besides its operations: the hand-written \<open>Debug\<close> impls of
  \<open>model.rs\<close> and \<open>vault.rs\<close>, and the \<open>Drop\<close> impls that erase the texts of an entry. An impl of \<open>Debug\<close>
  is the tree of calls on the formatter's builders; the text that is printed is a function of it. The
  package \<open>zeroize\<close> is not under \<open>src/\<close>: its method on a \<open>String\<close> is a parameter. The last section
  is \<open>BrowserCryptoRng\<close> of \<open>wasm.rs\<close>, over the package \<open>getrandom\<close>.
\<close>

section \<open>Debug output\<close>

datatype debug =
    Debug_str rstring
  | Debug_int nat
  | Debug_bool bool
  | Debug_unit string
  | Debug_tuple string "debug list"
  | Debug_struct string "(string \<times> debug) list"
  | Debug_non_exhaustive string "(string \<times> debug) list"

definition debug_vault_id :: "'z base64_lib_scheme \<Rightarrow> vault_id \<Rightarrow> debug" where
  "debug_vault_id L i = Debug_tuple ''VaultId'' [Debug_str (encode_base64url L (vault_id_as_bytes i))]"

definition debug_entry_id :: "'z base64_lib_scheme \<Rightarrow> entry_id \<Rightarrow> debug" where
  "debug_entry_id L i = Debug_tuple ''EntryId'' [Debug_str (encode_base64url L (entry_id_as_bytes i))]"

definition eb_is_empty :: "encoded_bytes \<Rightarrow> bool" where
  "eb_is_empty b = (as_slice b = [])"

definition debug_encoded_bytes :: "encoded_bytes \<Rightarrow> debug" where
  "debug_encoded_bytes b =
     Debug_non_exhaustive ''EncodedBytes'' [(''decoded_len'', Debug_int (length (as_slice b)))]"

text \<open>The derived impl of a fieldless enum prints its variant.\<close>

definition debug_slot_id :: "slot_id \<Rightarrow> debug" where
  "debug_slot_id s = Debug_unit (case s of A \<Rightarrow> ''A'' | B \<Rightarrow> ''B'')"

definition debug_vault_entry :: "'z base64_lib_scheme \<Rightarrow> vault_entry \<Rightarrow> debug" where
  "debug_vault_entry L e =
     Debug_struct ''VaultEntry''
       [(''id'', debug_entry_id L (ve_id e)),
        (''title_chars'', Debug_int (chars_count (ve_title e))),
        (''secret'', Debug_str (str ''[REDACTED]'')),
        (''has_description'', Debug_bool (ve_description e \<noteq> None)),
        (''created_at'', Debug_int (unat (ve_created_at e))),
        (''updated_at'', Debug_int (unat (ve_updated_at e)))]"

definition debug_vault_container :: "'z base64_lib_scheme \<Rightarrow> vault_container \<Rightarrow> debug" where
  "debug_vault_container L c =
     Debug_struct ''VaultContainerV1''
       [(''format'', Debug_str (vc_format c)),
        (''version'', Debug_int (unat (vc_version c))),
        (''vault_id'', debug_vault_id L (vc_vault_id c)),
        (''generation'', Debug_int (unat (vc_generation c))),
        (''created_at'', Debug_int (unat (vc_created_at c))),
        (''updated_at'', Debug_int (unat (vc_updated_at c))),
        (''entry_count'', Debug_int (length (vc_entries c)))]"

definition debug_unlocked_vault :: "'z base64_lib_scheme \<Rightarrow> unlocked_vault \<Rightarrow> debug" where
  "debug_unlocked_vault L v =
     Debug_struct ''UnlockedVault''
       [(''container'', debug_vault_container L (uv_container v)),
        (''dek'', Debug_str (str ''[REDACTED]'')),
        (''persisted_slot'', debug_slot_id (uv_persisted_slot v))]"

text \<open>What the output of a session and of an entry is made of.\<close>

lemma encode_base64url_inject:
  "base64_laws L \<Longrightarrow> encode_base64url L x = encode_base64url L y \<longleftrightarrow> x = y"
  unfolding base64_laws_def encode_base64url_def by (metis option.inject)

lemma debug_id_inject:
  assumes "base64_laws L"
  shows "debug_vault_id L i = debug_vault_id L j \<longleftrightarrow> i = j"
    and "debug_entry_id L k = debug_entry_id L n \<longleftrightarrow> k = n"
  by (cases i; cases j; simp add: debug_vault_id_def encode_base64url_inject [OF assms])
    (cases k; cases n; simp add: debug_entry_id_def encode_base64url_inject [OF assms])

lemma debug_slot_inject: "debug_slot_id s = debug_slot_id t \<longleftrightarrow> s = t"
  by (cases s; cases t) (simp_all add: debug_slot_id_def)

text \<open>C40: Debug output is redacted. The output of an unlocked session determines, and is determined
  by, its format, identifier, generation, times, number of entries and slot: the data key and
  everything in the entries have no influence on it. The output of an entry determines, and is
  determined by, its identifier, its times, the number of characters of its title and whether it
  has a description; that of encoded bytes shows their number.\<close>

theorem debug_output_is_redacted:
  assumes "base64_laws L"
  shows "(debug_unlocked_vault L v = debug_unlocked_vault L w \<longleftrightarrow>
      (uv_container v)\<lparr>vc_entries := []\<rparr> = (uv_container w)\<lparr>vc_entries := []\<rparr> \<and>
      length (vc_entries (uv_container v)) = length (vc_entries (uv_container w)) \<and>
      uv_persisted_slot v = uv_persisted_slot w) \<and>
    (debug_vault_entry L e = debug_vault_entry L f \<longleftrightarrow>
      ve_id e = ve_id f \<and> ve_created_at e = ve_created_at f \<and> ve_updated_at e = ve_updated_at f \<and>
      chars_count (ve_title e) = chars_count (ve_title f) \<and>
      (ve_description e = None \<longleftrightarrow> ve_description f = None)) \<and>
    (debug_encoded_bytes a = debug_encoded_bytes b \<longleftrightarrow> eb_len a = eb_len b)"
proof (intro conjI)
  have unat: "unat x = unat y \<longleftrightarrow> x = y" for x y :: "'w::len word"
    by (simp add: word_unat_eq_iff)
  note ids = debug_id_inject [OF assms] debug_slot_inject unat
  show "debug_unlocked_vault L v = debug_unlocked_vault L w \<longleftrightarrow>
      (uv_container v)\<lparr>vc_entries := []\<rparr> = (uv_container w)\<lparr>vc_entries := []\<rparr> \<and>
      length (vc_entries (uv_container v)) = length (vc_entries (uv_container w)) \<and>
      uv_persisted_slot v = uv_persisted_slot w"
    by (cases "uv_container v"; cases "uv_container w")
      (auto simp: debug_unlocked_vault_def debug_vault_container_def ids)
  show "debug_vault_entry L e = debug_vault_entry L f \<longleftrightarrow>
      ve_id e = ve_id f \<and> ve_created_at e = ve_created_at f \<and> ve_updated_at e = ve_updated_at f \<and>
      chars_count (ve_title e) = chars_count (ve_title f) \<and>
      (ve_description e = None \<longleftrightarrow> ve_description f = None)"
    by (auto simp: debug_vault_entry_def ids)
  show "debug_encoded_bytes a = debug_encoded_bytes b \<longleftrightarrow> eb_len a = eb_len b"
    by (simp add: debug_encoded_bytes_def eb_len_def)
qed

lemma debug_output_is_redacted_witness:
  "debug_unlocked_vault sample (cv_unlocked sample_created)
     = debug_unlocked_vault sample ((cv_unlocked sample_created)\<lparr>uv_dek := []\<rparr>) \<and>
   debug_vault_entry sample \<lparr>ve_id = EntryId [1], ve_title = str ''Mail'', ve_secret = str ''hunter2'',
       ve_description = None, ve_created_at = 1, ve_updated_at = 2\<rparr>
     \<noteq> debug_vault_entry sample \<lparr>ve_id = EntryId [1], ve_title = str ''Mails'', ve_secret = str ''hunter2'',
       ve_description = None, ve_created_at = 1, ve_updated_at = 2\<rparr>"
proof -
  have "base64_laws sample" using sample_codec_laws by (simp add: codec_laws_def)
  note redacted = debug_output_is_redacted [OF this]
  show ?thesis by (simp add: redacted str_def chars_count_def)
qed

section \<open>Dropping an entry\<close>

definition drop_vault_entry :: "(rstring \<Rightarrow> rstring) \<Rightarrow> vault_entry \<Rightarrow> vault_entry" where
  "drop_vault_entry zeroize e =
     e\<lparr>ve_title := zeroize (ve_title e), ve_secret := zeroize (ve_secret e),
       ve_description := map_option zeroize (ve_description e)\<rparr>"

definition drop_new_vault_entry :: "(rstring \<Rightarrow> rstring) \<Rightarrow> new_vault_entry \<Rightarrow> new_vault_entry" where
  "drop_new_vault_entry zeroize e =
     e\<lparr>ne_title := zeroize (ne_title e), ne_secret := zeroize (ne_secret e),
       ne_description := map_option zeroize (ne_description e)\<rparr>"

definition drop_update_vault_entry ::
  "(rstring \<Rightarrow> rstring) \<Rightarrow> update_vault_entry \<Rightarrow> update_vault_entry" where
  "drop_update_vault_entry zeroize e =
     e\<lparr>ue_title := zeroize (ue_title e), ue_secret := zeroize (ue_secret e),
       ue_description := map_option zeroize (ue_description e)\<rparr>"

text \<open>With a \<open>zeroize\<close> that clears the string, no text of an entry is left, and only the presence of a
  description distinguishes two dropped inputs.\<close>

lemma drop_clears:
  assumes "\<And>s. zeroize s = []"
  shows "ve_title (drop_vault_entry zeroize e) = []" and "ve_secret (drop_vault_entry zeroize e) = []"
    and "ve_description (drop_vault_entry zeroize e) \<in> {None, Some []}"
    and "drop_new_vault_entry zeroize n = drop_new_vault_entry zeroize n' \<longleftrightarrow>
      (ne_description n = None \<longleftrightarrow> ne_description n' = None)"
    and "drop_update_vault_entry zeroize u = drop_update_vault_entry zeroize u' \<longleftrightarrow>
      ue_id u = ue_id u' \<and> (ue_description u = None \<longleftrightarrow> ue_description u' = None)"
proof -
  have none: "map_option zeroize x = (if x = None then None else Some [])" for x
    by (cases x) (simp_all add: assms)
  show "ve_title (drop_vault_entry zeroize e) = []" and "ve_secret (drop_vault_entry zeroize e) = []"
    and "ve_description (drop_vault_entry zeroize e) \<in> {None, Some []}"
    by (simp_all add: drop_vault_entry_def assms none)
  show "drop_new_vault_entry zeroize n = drop_new_vault_entry zeroize n' \<longleftrightarrow>
      (ne_description n = None \<longleftrightarrow> ne_description n' = None)"
    by (cases n; cases n') (auto simp: drop_new_vault_entry_def assms none)
  show "drop_update_vault_entry zeroize u = drop_update_vault_entry zeroize u' \<longleftrightarrow>
      ue_id u = ue_id u' \<and> (ue_description u = None \<longleftrightarrow> ue_description u' = None)"
    by (cases u; cases u') (auto simp: drop_update_vault_entry_def assms none)
qed

section \<open>The random source of the browser\<close>

record ('e, 'r) getrandom =
  getrandom_u32 :: "'r \<Rightarrow> ('e + u32) \<times> 'r"
  getrandom_u64 :: "'r \<Rightarrow> ('e + u64) \<times> 'r"
  getrandom_fill :: "nat \<Rightarrow> 'r \<Rightarrow> ('e + bytes) \<times> 'r"

definition browser_try_next_u32 :: "('e, 'r) getrandom \<Rightarrow> 'r \<Rightarrow> ('e + u32) \<times> 'r" where
  "browser_try_next_u32 G r = getrandom_u32 G r"

definition browser_try_next_u64 :: "('e, 'r) getrandom \<Rightarrow> 'r \<Rightarrow> ('e + u64) \<times> 'r" where
  "browser_try_next_u64 G r = getrandom_u64 G r"

definition browser_try_fill_bytes :: "('e, 'r) getrandom \<Rightarrow> nat \<Rightarrow> 'r \<Rightarrow> ('e + bytes) \<times> 'r" where
  "browser_try_fill_bytes G n r = getrandom_fill G n r"

text \<open>The parameters of the core with \<open>BrowserCryptoRng\<close> as the random source.\<close>

definition browser_deps :: "('e, 'r) getrandom \<Rightarrow> ('r, 'z) deps_scheme \<Rightarrow> ('r, 'z) deps_scheme" where
  "browser_deps G L = L\<lparr>rng_try_fill := (\<lambda>n r. case browser_try_fill_bytes G n r of
     (res, r') \<Rightarrow> (result_ok res, r'))\<rparr>"

lemma browser_deps_laws:
  assumes "deps_laws L" and "\<And>n r bs r'. getrandom_fill G n r = (Inr bs, r') \<Longrightarrow> length bs = n"
  shows "deps_laws (browser_deps G L)"
  using assms
  by (auto simp: browser_deps_def browser_try_fill_bytes_def deps_laws_def rng_laws_def codec_laws_def
      base64_laws_def crypto_laws_def result_ok_def split: prod.splits sum.splits)

end
