(* ===== verification/Js_Number.thy ===== *)
theory Js_Number
  imports Float64
begin

text \<open>
  What the web client uses of \<open>Number(value)\<close> on a text: white space around it is skipped, an empty
  text is zero, then come the literals with a prefix \<open>0x\<close>, \<open>0o\<close> or \<open>0b\<close>, a signed decimal literal with
  fraction and exponent, or \<open>Infinity\<close>; anything else is \<open>NaN\<close>. The value is rounded to the nearest
  number, which \<open>f64_of_ratio_nearest\<close> proves, and \<open>js_number_decimal\<close> is the round trip with decimal
  printing. The language lets an implementation drop digits after the twentieth; here none is dropped.
\<close>

section \<open>White space\<close>

text \<open>White space and line terminators of JavaScript: what \<open>trim\<close> removes and \<open>Number\<close> skips.\<close>

definition js_white_space :: "nat \<Rightarrow> bool" where
  "js_white_space ch \<longleftrightarrow>
     ch \<in> {9, 10, 11, 12, 13, 32, 160, 5760, 8232, 8233, 8239, 8287, 12288, 65279}
     \<or> 8192 \<le> ch \<and> ch \<le> 8202"

definition js_trim :: "rstring \<Rightarrow> rstring" where
  "js_trim s = rev (dropWhile js_white_space (rev (dropWhile js_white_space s)))"

section \<open>Rounding\<close>

text \<open>The number nearest to the ratio \<open>p / q\<close>, to the even one on a tie. \<open>spacing_exponent\<close> is the
  exponent of the distance of the numbers around a value of so many units.\<close>

definition spacing_exponent :: "nat \<Rightarrow> nat" where
  "spacing_exponent units = max 1 (floorlog 2 units - 53)"

definition nearest_even :: "nat \<Rightarrow> nat \<Rightarrow> nat" where
  "nearest_even n u =
     (let q = n div u; t = n mod u in
      if 2 * t < u \<or> 2 * t = u \<and> even q then q else Suc q)"

definition f64_infinity :: f64 where
  "f64_infinity = of_nat (2047 * 2 ^ 52)"

definition f64_nan :: f64 where
  "f64_nan = of_nat (2047 * 2 ^ 52 + 2 ^ 51)"

definition f64_of_ratio :: "nat \<Rightarrow> nat \<Rightarrow> f64" where
  "f64_of_ratio p q =
     (let e = spacing_exponent (p * f64_one div q);
          bits = (e - 1) * 2 ^ 52 + nearest_even (p * f64_one) (q * 2 ^ e)
      in if bits < 2047 * 2 ^ 52 then of_nat bits else f64_infinity)"

definition f64_negate :: "f64 \<Rightarrow> f64" where
  "f64_negate x = x + 2 ^ 63"

section \<open>\<open>Number\<close> of a text\<close>

text \<open>Digits of a base up to sixteen.\<close>

definition digit_value :: "nat \<Rightarrow> nat" where
  "digit_value ch =
     (if 48 \<le> ch \<and> ch \<le> 57 then ch - 48
      else if 97 \<le> ch \<and> ch \<le> 102 then ch - 87
      else if 65 \<le> ch \<and> ch \<le> 70 then ch - 55
      else 16)"

definition is_digit :: "nat \<Rightarrow> nat \<Rightarrow> bool" where
  "is_digit base ch \<longleftrightarrow> digit_value ch < base"

definition digits_value :: "nat \<Rightarrow> rstring \<Rightarrow> nat" where
  "digits_value base s = foldl (\<lambda>n ch. n * base + digit_value ch) 0 s"

definition all_digits :: "nat \<Rightarrow> rstring \<Rightarrow> nat option" where
  "all_digits base s =
     (if s \<noteq> [] \<and> list_all (is_digit base) s then Some (digits_value base s) else None)"

definition is_char :: "nat \<Rightarrow> string \<Rightarrow> bool" where
  "is_char ch cs \<longleftrightarrow> ch \<in> set (str cs)"

definition exponent_part :: "rstring \<Rightarrow> int option" where
  "exponent_part s =
     (case s of
        [] \<Rightarrow> Some 0
      | ch # cs \<Rightarrow>
          if \<not> is_char ch ''eE'' then None
          else
            (case cs of
               [] \<Rightarrow> None
             | sign # ds \<Rightarrow>
                 if is_char sign ''+'' then map_option int (all_digits 10 ds)
                 else if is_char sign ''-'' then map_option (\<lambda>n. - int n) (all_digits 10 ds)
                 else map_option int (all_digits 10 cs)))"

text \<open>The mathematical value of an unsigned decimal literal, as a number and a power of ten.\<close>

definition decimal_literal :: "rstring \<Rightarrow> (nat \<times> int) option" where
  "decimal_literal s =
     (let whole = takeWhile (is_digit 10) s; rest = dropWhile (is_digit 10) s;
          point = (case rest of [] \<Rightarrow> False | ch # _ \<Rightarrow> is_char ch ''.'');
          part = (if point then takeWhile (is_digit 10) (tl rest) else []);
          rest' = (if point then dropWhile (is_digit 10) (tl rest) else rest)
      in if whole = [] \<and> part = [] then None
         else map_option (\<lambda>e. (digits_value 10 (whole @ part), e - int (length part)))
                (exponent_part rest'))"

definition f64_of_decimal :: "nat \<times> int \<Rightarrow> f64" where
  "f64_of_decimal = (\<lambda>(n, e).
     if 0 \<le> e then f64_of_ratio (n * 10 ^ nat e) 1 else f64_of_ratio n (10 ^ nat (- e)))"

definition unsigned_number :: "rstring \<Rightarrow> f64" where
  "unsigned_number s =
     (if s = str ''Infinity'' then f64_infinity
      else (case decimal_literal s of None \<Rightarrow> f64_nan | Some x \<Rightarrow> f64_of_decimal x))"

definition radix_number :: "nat \<Rightarrow> rstring \<Rightarrow> f64" where
  "radix_number base s =
     (case all_digits base s of None \<Rightarrow> f64_nan | Some n \<Rightarrow> f64_of_ratio n 1)"

definition signed_number :: "rstring \<Rightarrow> f64" where
  "signed_number s =
     (case s of
        [] \<Rightarrow> 0
      | ch # cs \<Rightarrow>
          if is_char ch ''+'' then unsigned_number cs
          else if is_char ch ''-'' then
            (let x = unsigned_number cs in if f64_is_nan x then x else f64_negate x)
          else unsigned_number s)"

definition js_number :: "rstring \<Rightarrow> f64" where
  "js_number text =
     (let s = js_trim text in
      if 2 \<le> length s \<and> is_char (s ! 0) ''0'' \<and> is_char (s ! 1) ''xX'' then radix_number 16 (drop 2 s)
      else if 2 \<le> length s \<and> is_char (s ! 0) ''0'' \<and> is_char (s ! 1) ''oO'' then radix_number 8 (drop 2 s)
      else if 2 \<le> length s \<and> is_char (s ! 0) ''0'' \<and> is_char (s ! 1) ''bB'' then radix_number 2 (drop 2 s)
      else signed_number s)"

section \<open>Rounding is to the nearest number\<close>

lemma nearest_even_cases:
  obtains "nearest_even n u = n div u" and "2 * (n mod u) \<le> u"
  | "nearest_even n u = Suc (n div u)" and "u \<le> 2 * (n mod u)"
  by (cases "2 * (n mod u) < u \<or> 2 * (n mod u) = u \<and> even (n div u)")
    (auto simp: nearest_even_def Let_def)

lemma nearest_even_exact: "0 < u \<Longrightarrow> nearest_even (k * u) u = k"
  by (simp add: nearest_even_def)

lemma nearest_even_multiple:
  fixes n u k :: nat
  assumes "0 < u"
  shows "\<bar>int (nearest_even n u * u) - int n\<bar> \<le> \<bar>int (k * u) - int n\<bar>"
proof -
  define q t where "q = n div u" and "t = n mod u"
  have n: "int n = int (q * u) + int t" and t: "t < u"
    using assms by (simp_all add: q_def t_def flip: of_nat_add of_nat_mult)
  have "q * u < n + u" using n t by linarith
  have suc: "int (Suc q * u) = int (q * u) + int u" by simp
  have near: "\<bar>int (k * u) - int n\<bar> \<ge> min (int t) (int u - int t)"
  proof (cases "k \<le> q")
    case True
    then have "int (k * u) \<le> int (q * u)" by (simp only: of_nat_le_iff mult_le_mono1)
    with n t show ?thesis by linarith
  next
    case False
    then have "int (Suc q * u) \<le> int (k * u)" by (simp only: of_nat_le_iff mult_le_mono1)
    with n t suc show ?thesis by linarith
  qed
  show ?thesis
  proof (cases rule: nearest_even_cases [of n u])
    case 1
    then have "int (nearest_even n u * u) = int (q * u)" "2 * t \<le> u" by (simp_all add: q_def t_def)
    with near n show ?thesis by linarith
  next
    case 2
    then have "int (nearest_even n u * u) = int (Suc q * u)" "u \<le> 2 * t" by (simp_all add: q_def t_def)
    with near n suc t show ?thesis by linarith
  qed
qed

text \<open>A number is a multiple of the spacing, or below the values that have this spacing.\<close>

lemma f64_units_grid:
  assumes "1 \<le> e"
  shows "2 ^ e dvd f64_units x \<or> 1 < e \<and> f64_units x \<le> 2 ^ (52 + e)"
proof (cases "f64_exponent x < e \<and> 1 < e")
  case True
  have "f64_units x \<le> 2 ^ (52 + e)"
  proof (cases "f64_exponent x = 0")
    case True
    then have "f64_units x < 2 ^ 52 * 2" using f64_fraction_less [of x] by (simp add: f64_units_def)
    also have "\<dots> \<le> (2 :: nat) ^ (52 + e)" using assms power_increasing [of 53 "52 + e" "2 :: nat"] by simp
    finally show ?thesis by simp
  next
    case False
    then have "f64_units x \<le> 2 ^ 53 * 2 ^ f64_exponent x"
      using f64_fraction_less [of x] by (simp add: f64_units_def)
    also have "\<dots> \<le> 2 ^ (52 + e)"
      unfolding power_add [symmetric] using True by (intro power_increasing) simp_all
    finally show ?thesis .
  qed
  with True show ?thesis by simp
next
  case False
  then consider "e = 1" | "e \<le> f64_exponent x" using assms by linarith
  then show ?thesis
  proof cases
    case 1
    then show ?thesis by (cases "f64_exponent x") (simp_all add: f64_units_def)
  next
    case 2
    then have "(2 :: nat) ^ e dvd 2 ^ f64_exponent x" by (rule le_imp_power_dvd)
    with 2 assms show ?thesis by (simp add: f64_units_def)
  qed
qed

text \<open>What the bit pattern of a rounded value means.\<close>

lemma f64_of_bits:
  assumes e: "1 \<le> e" and m: "m \<le> 2 ^ 53" and lo: "e = 1 \<or> 2 ^ 52 \<le> m"
    and fin: "(e - 1) * 2 ^ 52 + m < 2047 * 2 ^ 52"
  shows "\<not> f64_sign (of_nat ((e - 1) * 2 ^ 52 + m))" and "f64_is_finite (of_nat ((e - 1) * 2 ^ 52 + m))"
    and "f64_units (of_nat ((e - 1) * 2 ^ 52 + m)) = m * 2 ^ e"
proof -
  have "\<exists>a f. of_nat ((e - 1) * 2 ^ 52 + m) = f64_make a f \<and> a < 2047 \<and> f < 2 ^ 52 \<and>
      (if a = 0 then f * 2 else (2 ^ 52 + f) * 2 ^ a) = m * 2 ^ e"
  proof -
    consider "m < 2 ^ 52" | "2 ^ 52 \<le> m" "m < 2 ^ 53" | "m = 2 ^ 53" using m by linarith
    then show ?thesis
    proof cases
      case 1
      with lo have "e = 1" by simp
      with 1 show ?thesis by (intro exI [of _ 0] exI [of _ m]) (simp add: f64_make_def)
    next
      case 2
      then have "(e - 1) * 2 ^ 52 + m = e * 2 ^ 52 + (m - 2 ^ 52)" using e by (cases e) simp_all
      moreover have "e < 2047" using fin 2 e by (cases e) simp_all
      ultimately show ?thesis using 2 e
        by (intro exI [of _ e] exI [of _ "m - 2 ^ 52"]) (simp add: f64_make_def)
    next
      case 3
      then have "(e - 1) * 2 ^ 52 + m = Suc e * 2 ^ 52" using e by (cases e) simp_all
      moreover have "Suc e < 2047" using fin 3 e by (cases e) simp_all
      ultimately show ?thesis using 3
        by (intro exI [of _ "Suc e"] exI [of _ 0]) (simp add: f64_make_def)
    qed
  qed
  then obtain a f where x: "of_nat ((e - 1) * 2 ^ 52 + m) = f64_make a f" and a: "a < 2047" and f: "f < 2 ^ 52"
    and u: "(if a = 0 then f * 2 else (2 ^ 52 + f) * 2 ^ a) = m * 2 ^ e" by blast
  have a': "a < 2 ^ 11" using a by simp
  show "\<not> f64_sign (of_nat ((e - 1) * 2 ^ 52 + m))" and "f64_is_finite (of_nat ((e - 1) * 2 ^ 52 + m))"
    and "f64_units (of_nat ((e - 1) * 2 ^ 52 + m)) = m * 2 ^ e"
    unfolding x using a u by (simp_all only: f64_make [OF a' f] f64_is_finite_def f64_units_def) simp_all
qed

lemma spacing_exponent_bounds:
  shows "1 \<le> spacing_exponent v" and "v < 2 ^ 53 * 2 ^ spacing_exponent v"
    and "spacing_exponent v = 1 \<or> 2 ^ 52 * 2 ^ spacing_exponent v \<le> v"
proof -
  let ?l = "floorlog 2 v" and ?e = "spacing_exponent v"
  have hi: "v < 2 ^ ?l"
    using floorlog_bounds [of v 2] by (cases "v = 0") (simp_all add: floorlog_def)
  show "1 \<le> ?e" by (simp add: spacing_exponent_def)
  have "(2 :: nat) ^ ?l \<le> 2 ^ (53 + ?e)" by (intro power_increasing) (simp_all add: spacing_exponent_def)
  with hi show "v < 2 ^ 53 * 2 ^ ?e" by (simp add: power_add)
  show "?e = 1 \<or> 2 ^ 52 * 2 ^ ?e \<le> v"
  proof (cases "?e = 1")
    case False
    then have l: "?l = 53 + ?e" by (auto simp: spacing_exponent_def)
    then have "v \<noteq> 0" by (cases "v = 0") (simp_all add: floorlog_def)
    then have "2 ^ (?l - 1) \<le> v" using floorlog_bounds [of v 2] by simp
    with l show ?thesis by (simp add: power_add)
  qed simp
qed

lemma f64_of_ratio_units:
  fixes p q :: nat
  defines "e \<equiv> spacing_exponent (p * f64_one div q)"
  defines "m \<equiv> nearest_even (p * f64_one) (q * 2 ^ e)"
  assumes q: "0 < q" and fin: "f64_is_finite (f64_of_ratio p q)"
  shows "\<not> f64_sign (f64_of_ratio p q)" and "f64_units (f64_of_ratio p q) = m * 2 ^ e"
    and "e = 1 \<or> 2 ^ 52 * (q * 2 ^ e) \<le> p * f64_one"
proof -
  let ?n = "p * f64_one"
  have inf: "\<not> f64_is_finite f64_infinity"
    by (simp add: f64_infinity_def f64_is_finite_def f64_exponent_def unat_of_nat)
  have "?n div q < 2 ^ 53 * 2 ^ e" unfolding e_def by (rule spacing_exponent_bounds)
  then have "?n < 2 ^ 53 * 2 ^ e * q" using q by (simp add: div_less_iff_less_mult)
  then have "?n div (q * 2 ^ e) < 2 ^ 53" using q by (simp add: div_less_iff_less_mult ac_simps)
  then have m: "m \<le> 2 ^ 53" unfolding m_def by (cases rule: nearest_even_cases [of ?n "q * 2 ^ e"]) simp_all
  have lo: "e = 1 \<or> 2 ^ 52 * 2 ^ e \<le> ?n div q" unfolding e_def by (rule spacing_exponent_bounds)
  then show big: "e = 1 \<or> 2 ^ 52 * (q * 2 ^ e) \<le> ?n"
    using q by (simp add: less_eq_div_iff_mult_less_eq ac_simps)
  then have "e = 1 \<or> 2 ^ 52 \<le> ?n div (q * 2 ^ e)"
    using q by (simp add: less_eq_div_iff_mult_less_eq)
  then have lo': "e = 1 \<or> 2 ^ 52 \<le> m"
    unfolding m_def by (cases rule: nearest_even_cases [of ?n "q * 2 ^ e"]) auto
  have ratio: "f64_of_ratio p q =
      (if (e - 1) * 2 ^ 52 + m < 2047 * 2 ^ 52 then of_nat ((e - 1) * 2 ^ 52 + m) else f64_infinity)"
    by (simp only: f64_of_ratio_def Let_def e_def m_def)
  then have less: "(e - 1) * 2 ^ 52 + m < 2047 * 2 ^ 52" using fin inf by (auto split: if_splits)
  have e1: "1 \<le> e" unfolding e_def by (rule spacing_exponent_bounds)
  have r: "f64_of_ratio p q = of_nat ((e - 1) * 2 ^ 52 + m)" using ratio less by (simp only: if_True)
  show "\<not> f64_sign (f64_of_ratio p q)" and "f64_units (f64_of_ratio p q) = m * 2 ^ e"
    unfolding r by (rule f64_of_bits [OF e1 m lo' less])+
qed

lemma f64_of_ratio_nearest:
  assumes q: "0 < q" and fin: "f64_is_finite (f64_of_ratio p q)"
  shows "\<bar>int (f64_units (f64_of_ratio p q) * q) - int (p * f64_one)\<bar>
    \<le> \<bar>int (f64_units y * q) - int (p * f64_one)\<bar>"
proof -
  define n e where "n = p * f64_one" and "e = spacing_exponent (n div q)"
  define m where "m = nearest_even n (q * 2 ^ e)"
  note r = f64_of_ratio_units [OF q fin, folded n_def, folded e_def, folded m_def]
  have near: "\<bar>int (m * (q * 2 ^ e)) - int n\<bar> \<le> \<bar>int (k * (q * 2 ^ e)) - int n\<bar>" for k
    unfolding m_def using q by (intro nearest_even_multiple) simp
  have "1 \<le> e" unfolding e_def by (rule spacing_exponent_bounds)
  from f64_units_grid [OF this, of y] have "\<bar>int (m * (q * 2 ^ e)) - int n\<bar> \<le> \<bar>int (f64_units y * q) - int n\<bar>"
  proof
    assume "2 ^ e dvd f64_units y"
    then obtain k where "f64_units y = 2 ^ e * k" by blast
    then have "f64_units y * q = k * (q * 2 ^ e)" by (simp add: ac_simps)
    with near [of k] show ?thesis by (simp only:)
  next
    assume y: "1 < e \<and> f64_units y \<le> 2 ^ (52 + e)"
    then have big: "2 ^ 52 * (q * 2 ^ e) \<le> n" using r(3) by simp
    have "f64_units y * q \<le> 2 ^ 52 * (q * 2 ^ e)" using y mult_le_mono1 [of "f64_units y" "2 ^ (52 + e)" q]
      by (simp add: power_add ac_simps)
    with big near [of "2 ^ 52"] show ?thesis by linarith
  qed
  then show ?thesis by (simp add: r(2) n_def ac_simps)
qed

section \<open>Natural numbers\<close>

lemma f64_of_ratio_nat:
  assumes "n < 2 ^ 53"
  shows "f64_of_ratio n 1 = f64_of_nat n"
proof -
  define e where "e = spacing_exponent (n * f64_one)"
  define m where "m = nearest_even (n * f64_one) (2 ^ e)"
  have "n * f64_one < 2 ^ 53 * f64_one" using assms by (simp add: f64_one_def)
  then have "n * f64_one < 2 ^ (53 + 1075)" by (simp only: f64_one_def power_add)
  have e1: "1 \<le> e" and lo: "e = 1 \<or> 2 ^ 52 * 2 ^ e \<le> n * f64_one"
    unfolding e_def by (rule spacing_exponent_bounds)+
  have e: "e \<le> 1075"
  proof (rule ccontr)
    assume "\<not> e \<le> 1075"
    then have "(2 :: nat) ^ (53 + 1075) \<le> 2 ^ (52 + e)" by (intro power_increasing) simp_all
    also have "\<dots> \<le> n * f64_one" using lo \<open>\<not> e \<le> 1075\<close> by (simp add: power_add)
    finally show False using \<open>n * f64_one < 2 ^ (53 + 1075)\<close> by simp
  qed
  have "f64_one = 2 ^ (1075 - e) * 2 ^ e" using e by (simp add: f64_one_def flip: power_add)
  then have k: "n * f64_one = n * 2 ^ (1075 - e) * 2 ^ e" by simp
  then have m: "m * 2 ^ e = n * f64_one" by (simp only: m_def k) (simp add: nearest_even_exact)
  have hi: "n * f64_one < 2 ^ 53 * 2 ^ e" unfolding e_def by (rule spacing_exponent_bounds)
  then have "m * 2 ^ e < 2 ^ 53 * 2 ^ e" by (simp only: m)
  then have m53: "m < 2 ^ 53" by simp
  have "(e - 1) * 2 ^ 52 + m \<le> 1074 * 2 ^ 52 + 2 ^ 53" using e m53 by (intro add_mono mult_le_mono1) simp_all
  then have less: "(e - 1) * 2 ^ 52 + m < 2047 * 2 ^ 52" by simp
  have lo': "e = 1 \<or> 2 ^ 52 \<le> m" using lo m by (metis mult_le_cancel2 zero_less_numeral zero_less_power)
  have "f64_of_ratio n 1 = of_nat ((e - 1) * 2 ^ 52 + m)"
    using less by (simp add: f64_of_ratio_def Let_def e_def m_def)
  with f64_of_bits [OF e1 less_imp_le [OF m53] lo' less] m assms show ?thesis
    by (simp add: f64_of_nat_unique)
qed

lemma digit_char: "d < 10 \<Longrightarrow> digit_value (48 + d) = d" "d < 10 \<Longrightarrow> is_digit 10 (48 + d)"
  by (simp_all add: is_digit_def digit_value_def)

lemma decimal_digits: "list_all (is_digit 10) (decimal n)"
proof (induction n rule: decimal.induct)
  case (1 n)
  then show ?case by (subst decimal.simps) (simp add: digit_char)
qed

lemma digits_value_append:
  "digits_value b (s @ [ch]) = digits_value b s * b + digit_value ch"
  by (simp add: digits_value_def)

lemma digits_value_decimal: "digits_value 10 (decimal n) = n"
proof (induction n rule: decimal.induct)
  case (1 n)
  show ?case
  proof (cases "n < 10")
    case True
    then show ?thesis by (simp add: decimal.simps [of n] digits_value_def digit_char)
  next
    case False
    with 1 show ?thesis
      by (subst decimal.simps) (simp add: digits_value_append digit_char)
  qed
qed

lemma decimal_literal_digits:
  assumes "s \<noteq> []" and "list_all (is_digit 10) s"
  shows "decimal_literal s = Some (digits_value 10 s, 0)"
proof -
  have all: "takeWhile (is_digit 10) s = s" "dropWhile (is_digit 10) s = []"
    using assms(2) by (simp_all add: list_all_iff)
  show ?thesis using assms(1) by (simp add: decimal_literal_def exponent_part_def Let_def all)
qed

lemma js_trim_digits: "list_all (is_digit 10) s \<Longrightarrow> js_trim s = s"
proof -
  assume s: "list_all (is_digit 10) s"
  have "\<not> js_white_space ch" if "is_digit 10 ch" for ch
    using that by (auto simp: is_digit_def digit_value_def js_white_space_def split: if_splits)
  then have "dropWhile js_white_space t = t" if "list_all (is_digit 10) t" for t
    using that by (cases t) auto
  with s show ?thesis by (simp add: js_trim_def list_all_rev)
qed

text \<open>Printing a natural and reading it as a number.\<close>

lemma js_number_decimal:
  assumes "n < 2 ^ 53"
  shows "js_number (decimal n) = f64_of_nat n"
proof -
  obtain d ds where d: "decimal n = d # ds" "48 \<le> d" "d \<le> 57" using decimal_hd by blast
  have dig: "list_all (is_digit 10) (d # ds)" using decimal_digits [of n] by (simp add: d)
  have "\<not> is_char ch ''xX''" "\<not> is_char ch ''oO''" "\<not> is_char ch ''bB''" if "is_digit 10 ch" for ch
    using that by (auto simp: is_digit_def digit_value_def is_char_def str_def split: if_splits)
  then have prefix: "\<not> (is_char ((d # ds) ! 1) ''xX'')" "\<not> (is_char ((d # ds) ! 1) ''oO'')"
    "\<not> (is_char ((d # ds) ! 1) ''bB'')" if "2 \<le> length (d # ds)"
    using dig that by (cases ds; simp)+
  have sign: "\<not> is_char d ''+''" "\<not> is_char d ''-''" and inf: "d # ds \<noteq> str ''Infinity''"
    using d by (auto simp: is_char_def str_def)
  have "js_number (decimal n) = signed_number (d # ds)"
    using prefix js_trim_digits [OF dig] unfolding d(1) by (auto simp: js_number_def Let_def)
  also have "\<dots> = f64_of_decimal (digits_value 10 (decimal n), 0)"
    using sign inf decimal_literal_digits [OF _ dig] by (simp add: signed_number_def unsigned_number_def d)
  also have "\<dots> = f64_of_nat n"
    using f64_of_ratio_nat [OF assms] by (simp add: f64_of_decimal_def digits_value_decimal)
  finally show ?thesis .
qed

end
