(* ===== verification/Controller.thy ===== *)
theory Controller
  imports Persistence Rust_Order Js_Number
begin

text \<open>
  The controller of the web client, \<open>VaultAppController\<close> of \<open>web/src/app-controller.js\<close>, with the
  check of the session timeout of \<open>web/src/session-preferences.js\<close>. It owns the session, the state
  that the screens show and the deadline of the automatic lock. Every value that \<open>this.now()\<close>
  returns is an argument, in the order of the calls. A method that awaits the storage threads the
  devices and the random source and runs to its end (\<open>Interleaving\<close> adds what the page does meanwhile); the listeners of \<open>setState\<close> only get copies
  of the state and are left out. The handle of a session that the controller locks and drops is
  dropped here.
\<close>

section \<open>The session timeout\<close>

definition DEFAULT_SESSION_TIMEOUT_MINUTES :: int where
  "DEFAULT_SESSION_TIMEOUT_MINUTES = 5"

definition MIN_SESSION_TIMEOUT_MINUTES :: int where
  "MIN_SESSION_TIMEOUT_MINUTES = 1"

definition MAX_SESSION_TIMEOUT_MINUTES :: int where
  "MAX_SESSION_TIMEOUT_MINUTES = 1440"

definition MINUTE_MS :: int where
  "MINUTE_MS = 60000"

text \<open>The errors that reach the user interface: those of the client, the controller's own, the
  \<open>RangeError\<close> of the timeout and the \<open>SyntaxError\<close> of \<open>JSON.parse\<close>.\<close>

datatype app_error = Client client_error | App string | Range_error | Syntax_error

text \<open>On a number; \<open>Number(value)\<close> is then the value itself.\<close>

definition normalize_session_timeout_minutes :: "f64 \<Rightarrow> app_error + int" where
  "normalize_session_timeout_minutes value =
     (if \<not> f64_is_integer value
         \<or> f64_int value < MIN_SESSION_TIMEOUT_MINUTES \<or> f64_int value > MAX_SESSION_TIMEOUT_MINUTES
      then Inl Range_error else Inr (f64_int value))"

section \<open>State\<close>

text \<open>What \<open>JSON.parse\<close> makes of the three texts that a session prints: more functions of the
  parameter record. A timestamp is then a number, given by its value.\<close>

record js_entry =
  je_id :: rstring
  je_title :: rstring
  je_created_at :: int
  je_updated_at :: int

record js_details = js_entry +
  jd_description :: "rstring option"

record js_record = js_details +
  jr_secret :: rstring

record 'r ui_deps = "'r bridge_deps" +
  json_parse_entries :: "rstring \<Rightarrow> js_entry list option"
  json_parse_details :: "rstring \<Rightarrow> js_details option"
  json_parse_record :: "rstring \<Rightarrow> js_record option"

record app_state =
  as_screen :: string
  as_entries :: "js_entry list"
  as_selected_id :: "rstring option"
  as_editing_id :: "rstring option"

record controller =
  ct_session :: "wasm_vault_session option"
  ct_session_expires_at :: "int option"
  ct_last_session_timestamp :: "int option"
  ct_session_timeout_minutes :: int
  ct_state :: app_state

definition controller_new :: "f64 \<Rightarrow> app_error + controller" where
  "controller_new session_timeout_minutes =
     and_then (normalize_session_timeout_minutes session_timeout_minutes) (\<lambda>minutes.
     Inr \<lparr>ct_session = None, ct_session_expires_at = None, ct_last_session_timestamp = None,
          ct_session_timeout_minutes = minutes,
          ct_state = \<lparr>as_screen = ''loading'', as_entries = [], as_selected_id = None,
                      as_editing_id = None\<rparr>\<rparr>)"

text \<open>\<open>setState\<close>: the patch is a function on the state.\<close>

definition set_state :: "(app_state \<Rightarrow> app_state) \<Rightarrow> controller \<Rightarrow> controller" where
  "set_state patch c = c\<lparr>ct_state := patch (ct_state c)\<rparr>"

text \<open>The patch of most calls: a screen with nothing selected.\<close>

abbreviation screen_only :: "string \<Rightarrow> app_state \<Rightarrow> app_state" where
  "screen_only screen \<equiv> \<lambda>st. st\<lparr>as_screen := screen, as_selected_id := None, as_editing_id := None\<rparr>"

section \<open>Locking and time\<close>

definition app_lock :: "controller \<Rightarrow> controller" where
  "app_lock c = set_state (\<lambda>st. (screen_only ''locked'' st)\<lparr>as_entries := []\<rparr>)
     (c\<lparr>ct_session := None, ct_session_expires_at := None, ct_last_session_timestamp := None\<rparr>)"

definition session_timeout_milliseconds :: "controller \<Rightarrow> int" where
  "session_timeout_milliseconds c = ct_session_timeout_minutes c * MINUTE_MS"

definition observe_session_time :: "f64 \<Rightarrow> controller \<Rightarrow> bool \<times> controller" where
  "observe_session_time now c =
     (if \<not> f64_is_safe_integer now
         \<or> (case ct_last_session_timestamp c of None \<Rightarrow> False | Some seen \<Rightarrow> f64_int now < seen)
      then (False, app_lock c)
      else (True, c\<lparr>ct_last_session_timestamp := Some (f64_int now)\<rparr>))"

text \<open>\<open>touchSession\<close> and \<open>deactivate\<close> have the same body.\<close>

definition touch_session :: "f64 \<Rightarrow> controller \<Rightarrow> int option \<times> controller" where
  "touch_session now c =
     (if ct_session c = None then (None, c)
      else
        (case observe_session_time now c of
           (False, c') \<Rightarrow> (None, c')
         | (True, c') \<Rightarrow>
             let expires = f64_add_int (f64_int now) (session_timeout_milliseconds c') in
             (Some expires, c'\<lparr>ct_session_expires_at := Some expires\<rparr>)))"

definition deactivate :: "f64 \<Rightarrow> controller \<Rightarrow> int option \<times> controller" where
  "deactivate now c =
     (if ct_session c = None then (None, c)
      else
        (case observe_session_time now c of
           (False, c') \<Rightarrow> (None, c')
         | (True, c') \<Rightarrow>
             let expires = f64_add_int (f64_int now) (session_timeout_milliseconds c') in
             (Some expires, c'\<lparr>ct_session_expires_at := Some expires\<rparr>)))"

definition expire_authentication :: "f64 \<Rightarrow> controller \<Rightarrow> bool \<times> controller" where
  "expire_authentication now c =
     (if ct_session c = None then (False, c)
      else
        (case observe_session_time now c of
           (False, c') \<Rightarrow> (True, c')
         | (True, c') \<Rightarrow>
             (case ct_session_expires_at c' of
                None \<Rightarrow> (False, c')
              | Some expires \<Rightarrow>
                  if f64_int now < expires then (False, c') else (True, app_lock c'))))"

definition resume :: "f64 \<Rightarrow> controller \<Rightarrow> controller" where
  "resume now c =
     (if ct_session c = None then c
      else
        (case expire_authentication now c of
           (True, c') \<Rightarrow> c'
         | (False, c') \<Rightarrow> snd (touch_session now c')))"

definition authentication_deadline :: "controller \<Rightarrow> int option" where
  "authentication_deadline c = (if ct_session c = None then None else ct_session_expires_at c)"

definition set_session_timeout_minutes ::
  "f64 \<Rightarrow> f64 \<Rightarrow> controller \<Rightarrow> (app_error + int) \<times> controller" where
  "set_session_timeout_minutes minutes now c =
     (case normalize_session_timeout_minutes minutes of
        Inl e \<Rightarrow> (Inl e, c)
      | Inr n \<Rightarrow> (Inr n, snd (touch_session now (c\<lparr>ct_session_timeout_minutes := n\<rparr>))))"

section \<open>The session on the screens\<close>

definition require_session :: "controller \<Rightarrow> app_error + wasm_vault_session" where
  "require_session c =
     (case ct_session c of
        None \<Rightarrow> Inl (App ''locked'')
      | Some w \<Rightarrow> if wasm_is_locked w then Inl (App ''locked'') else Inr w)"

text \<open>\<open>right.updatedAt - left.updatedAt\<close> of two numbers has the sign of their comparison.\<close>

definition newest_first :: "js_entry \<Rightarrow> js_entry \<Rightarrow> ordering" where
  "newest_first left right = cmp (je_updated_at right) (je_updated_at left)"

definition client_call :: "js_value + 'a \<Rightarrow> app_error + 'a" where
  "client_call r = map_err (\<lambda>e. Client (Session e)) r"

definition json_parse :: "'a option \<Rightarrow> app_error + 'a" where
  "json_parse parsed = ok_or Syntax_error parsed"

definition refresh_entries ::
  "('r, 'z) ui_deps_scheme \<Rightarrow> controller \<Rightarrow> (app_error + unit) \<times> controller" where
  "refresh_entries L c =
     (case and_then (require_session c) (\<lambda>session.
           and_then (client_call (wasm_list_entries_json L session)) (\<lambda>text.
           json_parse (json_parse_entries L text))) of
        Inl e \<Rightarrow> (Inl e, c)
      | Inr entries \<Rightarrow>
          (Inr (), c\<lparr>ct_state := (ct_state c)\<lparr>as_entries := sort_by newest_first entries\<rparr>\<rparr>))"

definition show_vault ::
  "('r, 'z) ui_deps_scheme \<Rightarrow> controller \<Rightarrow> (app_error + unit) \<times> controller" where
  "show_vault L c =
     (case refresh_entries L c of
        (Inl e, c') \<Rightarrow> (Inl e, c')
      | (Inr _, c') \<Rightarrow> (Inr (), set_state (screen_only ''vault'') c'))"

definition activate_session ::
  "('r, 'z) ui_deps_scheme \<Rightarrow> wasm_vault_session \<Rightarrow> f64 \<Rightarrow> controller
     \<Rightarrow> (app_error + unit) \<times> controller" where
  "activate_session L session now c =
     show_vault L (snd (touch_session now
       (c\<lparr>ct_session := Some session, ct_last_session_timestamp := None\<rparr>)))"

definition navigate :: "string \<Rightarrow> controller \<Rightarrow> (app_error + unit) \<times> controller" where
  "navigate screen c =
     (if screen \<in> set [''vault'', ''settings'', ''change-password'', ''destroy''] then
        (case require_session c of
           Inl e \<Rightarrow> (Inl e, c)
         | Inr _ \<Rightarrow> (Inr (), set_state (\<lambda>st. st\<lparr>as_screen := screen\<rparr>) c))
      else (Inr (), set_state (\<lambda>st. st\<lparr>as_screen := screen\<rparr>) c))"

definition open_entry ::
  "('r, 'z) ui_deps_scheme \<Rightarrow> rstring \<Rightarrow> controller \<Rightarrow> (app_error + js_details) \<times> controller" where
  "open_entry L eid c =
     (case and_then (require_session c) (\<lambda>session.
           and_then (client_call (wasm_get_entry_details_json L eid session)) (\<lambda>text.
           json_parse (json_parse_details L text))) of
        Inl e \<Rightarrow> (Inl e, c)
      | Inr details \<Rightarrow>
          (Inr details, set_state (\<lambda>st. st\<lparr>as_screen := ''detail'', as_selected_id := Some eid,
             as_editing_id := None\<rparr>) c))"

definition begin_edit ::
  "('r, 'z) ui_deps_scheme \<Rightarrow> rstring option \<Rightarrow> controller
     \<Rightarrow> (app_error + js_record option) \<times> controller" where
  "begin_edit L eid c =
     (case and_then (require_session c) (\<lambda>session.
           case eid of
             None \<Rightarrow> Inr None
           | Some i \<Rightarrow>
               and_then (client_call (wasm_get_entry_json L i session)) (\<lambda>text.
               and_then (json_parse (json_parse_record L text)) (\<lambda>entry. Inr (Some entry)))) of
        Inl e \<Rightarrow> (Inl e, c)
      | Inr entry \<Rightarrow>
          (Inr entry, set_state (\<lambda>st. st\<lparr>as_screen := ''edit'', as_editing_id := eid,
             as_selected_id := eid\<rparr>) c))"

text \<open>\<open>!this.state.selectedId\<close>: null and the empty string are falsy.\<close>

definition selected_entry :: "controller \<Rightarrow> app_error + rstring" where
  "selected_entry c =
     (case as_selected_id (ct_state c) of
        Some (x # xs) \<Rightarrow> Inr (x # xs)
      | _ \<Rightarrow> Inl (App ''entry_not_selected''))"

definition get_selected_details :: "('r, 'z) ui_deps_scheme \<Rightarrow> controller \<Rightarrow> app_error + js_details" where
  "get_selected_details L c =
     and_then (require_session c) (\<lambda>session.
     and_then (selected_entry c) (\<lambda>eid.
     and_then (client_call (wasm_get_entry_details_json L eid session)) (\<lambda>text.
     json_parse (json_parse_details L text))))"

definition get_selected_secret :: "('r, 'z) ui_deps_scheme \<Rightarrow> controller \<Rightarrow> app_error + rstring" where
  "get_selected_secret L c =
     and_then (require_session c) (\<lambda>session.
     and_then (selected_entry c) (\<lambda>eid. client_call (wasm_get_entry_secret L eid session)))"

definition get_editing_entry ::
  "('r, 'z) ui_deps_scheme \<Rightarrow> controller \<Rightarrow> app_error + js_record option" where
  "get_editing_entry L c =
     and_then (require_session c) (\<lambda>session.
     case as_editing_id (ct_state c) of
       None \<Rightarrow> Inr None
     | Some eid \<Rightarrow>
         and_then (client_call (wasm_get_entry_json L eid session)) (\<lambda>text.
         and_then (json_parse (json_parse_record L text)) (\<lambda>entry. Inr (Some entry))))"

section \<open>Methods that wait for the storage\<close>

text \<open>\<open>async initialize()\<close>, on the device and the secure storage, if there is one.\<close>

definition app_initialize ::
  "'s device_storage \<Rightarrow> 't device_storage option
     \<Rightarrow> ('s \<times> 't \<times> controller, app_error, app_state) eff" where
  "app_initialize D secure = (\<lambda>(s, t, c).
     case clear_legacy_authentication_state D secure (s, t) of
       (s1, t1) \<Rightarrow>
         (case inspect_state D s1 of
            (Inl e, s2) \<Rightarrow> (Inl (Client e), (s2, t1, c))
          | (Inr status, s2) \<Rightarrow>
              let screen = if status = ''uninitialized'' then ''onboarding'' else ''locked'';
                  c' = set_state (\<lambda>st. (screen_only screen st)\<lparr>as_entries := []\<rparr>) c
              in (Inr (ct_state c'), (s2, t1, c'))))"

definition app_create ::
  "('r, 'z) ui_deps_scheme \<Rightarrow> 's device_storage \<Rightarrow> rstring \<Rightarrow> f64 \<Rightarrow> f64
     \<Rightarrow> ('s \<times> controller \<times> 'r, app_error, unit) eff" where
  "app_create L D master_password now activated = (\<lambda>(s, c, r).
     case create_session L D master_password now (s, r) of
       (Inl e, (s', r')) \<Rightarrow> (Inl (Client e), (s', c, r'))
     | (Inr session, (s', r')) \<Rightarrow>
         (case activate_session L session activated c of (res, c') \<Rightarrow> (res, (s', c', r'))))"

definition app_unlock ::
  "('r, 'z) ui_deps_scheme \<Rightarrow> 's device_storage \<Rightarrow> rstring \<Rightarrow> f64
     \<Rightarrow> ('s \<times> controller \<times> 'r, app_error, unit) eff" where
  "app_unlock L D master_password activated = (\<lambda>(s, c, r).
     case open_session L D master_password s of
       (Inl e, s') \<Rightarrow> (Inl (Client e), (s', c, r))
     | (Inr session, s') \<Rightarrow>
         (case activate_session L session activated c of (res, c') \<Rightarrow> (res, (s', c', r))))"

text \<open>The code of an error: the string that the session throws, or the property \<open>code\<close>. The codes of
  the storage adapter are those of \<open>storage.js\<close>; the controller compares with two others.\<close>

fun client_error_code :: "client_error \<Rightarrow> rstring option" where
  "client_error_code (Session e) = Some e"
| "client_error_code (Persistence code) = Some (str code)"
| "client_error_code (Device _) = None"

definition keeps_session :: "client_error \<Rightarrow> bool" where
  "keeps_session e \<longleftrightarrow>
     client_error_code e \<in> {Some (str ''cannot_open_vault''), Some (str ''invalid_master_password'')}"

definition app_change_master_password ::
  "('r, 'z) ui_deps_scheme \<Rightarrow> 's device_storage \<Rightarrow> rstring \<Rightarrow> rstring \<Rightarrow> f64
     \<Rightarrow> ('s \<times> controller \<times> 'r, app_error, unit) eff" where
  "app_change_master_password L D current_master_password new_master_password now = (\<lambda>(s, c, r).
     case require_session c of
       Inl e \<Rightarrow> (Inl e, (s, c, r))
     | Inr session \<Rightarrow>
         (case change_master_password L D current_master_password new_master_password (s, session, r) of
            (Inr _, (s', session', r')) \<Rightarrow>
              (Inr (), (s', set_state (\<lambda>st. st\<lparr>as_screen := ''settings''\<rparr>)
                 (snd (touch_session now (c\<lparr>ct_session := Some session'\<rparr>))), r'))
          | (Inl e, (s', session', r')) \<Rightarrow>
              let c' = c\<lparr>ct_session := Some session'\<rparr> in
              (Inl (Client e), (s', if keeps_session e then c' else app_lock c', r'))))"

text \<open>\<open>description.trim() === ""\<close>: nothing but white space.\<close>

definition normalized_description :: "rstring \<Rightarrow> rstring option" where
  "normalized_description description =
     (if list_all js_white_space description then None else Some description)"

text \<open>The rest of the \<open>try\<close> blocks of \<open>saveEntry\<close> and \<open>deleteSelected\<close>, and their \<open>catch\<close>: the
  session after the edit is saved and shown, any failure locks.\<close>

definition save_edited ::
  "('r, 'z) ui_deps_scheme \<Rightarrow> 's device_storage \<Rightarrow> js_value + 'a \<Rightarrow> wasm_vault_session
     \<Rightarrow> ('s \<times> controller \<times> 'r, app_error, unit) eff" where
  "save_edited L D edit session = (\<lambda>(s, c, r).
     let c1 = c\<lparr>ct_session := Some session\<rparr> in
     case edit of
       Inl e \<Rightarrow> (Inl (Client (Session e)), (s, app_lock c1, r))
     | Inr _ \<Rightarrow>
         (case save_session L D (s, session, r) of
            (Inl e, (s', session', r')) \<Rightarrow>
              (Inl (Client e), (s', app_lock (c1\<lparr>ct_session := Some session'\<rparr>), r'))
          | (Inr _, (s', session', r')) \<Rightarrow>
              (case refresh_entries L (c1\<lparr>ct_session := Some session'\<rparr>) of
                 (Inl e, c2) \<Rightarrow> (Inl e, (s', app_lock c2, r'))
               | (Inr _, c2) \<Rightarrow> (Inr (), (s', set_state (screen_only ''vault'') c2, r')))))"

definition app_save_entry ::
  "('r, 'z) ui_deps_scheme \<Rightarrow> 's device_storage \<Rightarrow> rstring \<Rightarrow> rstring \<Rightarrow> rstring \<Rightarrow> f64
     \<Rightarrow> ('s \<times> controller \<times> 'r, app_error, unit) eff" where
  "app_save_entry L D title secret description now = (\<lambda>(s, c, r).
     case require_session c of
       Inl e \<Rightarrow> (Inl e, (s, c, r))
     | Inr session \<Rightarrow>
         (case as_editing_id (ct_state c) of
            None \<Rightarrow>
              (case wasm_add_entry L title secret (normalized_description description) now (session, r) of
                 (res, (session', r')) \<Rightarrow> save_edited L D res session' (s, c, r'))
          | Some eid \<Rightarrow>
              (case wasm_update_entry L eid title secret (normalized_description description) now session of
                 (res, session') \<Rightarrow> save_edited L D res session' (s, c, r))))"

definition app_delete_selected ::
  "('r, 'z) ui_deps_scheme \<Rightarrow> 's device_storage \<Rightarrow> f64
     \<Rightarrow> ('s \<times> controller \<times> 'r, app_error, unit) eff" where
  "app_delete_selected L D now = (\<lambda>(s, c, r).
     case and_then (require_session c) (\<lambda>session.
          and_then (selected_entry c) (\<lambda>eid. Inr (session, eid))) of
       Inl e \<Rightarrow> (Inl e, (s, c, r))
     | Inr (session, eid) \<Rightarrow>
         (case wasm_delete_entry L eid now session of
            (res, session') \<Rightarrow> save_edited L D res session' (s, c, r)))"

definition app_destroy ::
  "'s device_storage \<Rightarrow> 't device_storage option
     \<Rightarrow> ('s \<times> 't \<times> controller, app_error, unit) eff" where
  "app_destroy D secure = (\<lambda>(s, t, c).
     case destroy_session D secure (s, t, ct_session c) of
       (Inl e, (s', t', session')) \<Rightarrow> (Inl (Client e), (s', t', c\<lparr>ct_session := session'\<rparr>))
     | (Inr _, (s', t', _)) \<Rightarrow>
         (Inr (), (s', t', set_state (\<lambda>st. (screen_only ''onboarding'' st)\<lparr>as_entries := []\<rparr>)
            (c\<lparr>ct_session := None, ct_session_expires_at := None,
               ct_last_session_timestamp := None\<rparr>))))"

end
