(* ===== verification/Client_Sessions.thy ===== *)
theory Client_Sessions
  imports Client_Recovery
begin

text \<open>
  What the methods of the client do to the session, on any device, lawful or not. Between two
  methods a session is \<open>live\<close>: unlocked, well formed and with no operation pending; every
  method that gets a live session ends with one, or with a locked one.
\<close>

section \<open>Live sessions\<close>

definition live :: "wasm_vault_session \<Rightarrow> bool" where
  "live w \<longleftrightarrow> (\<exists>v m. w = js_idle v m \<and> wf_vault v \<and> session_meta v m)"

lemma liveI [intro]: "wf_vault v \<Longrightarrow> session_meta v m \<Longrightarrow> live (js_idle v m)"
  by (auto simp: live_def)

lemma liveE:
  assumes "live w"
  obtains v m where "w = js_idle v m" and "wf_vault v" and "session_meta v m"
  using assms by (auto simp: live_def)

lemma live_not_locked: "live w \<Longrightarrow> \<not> wasm_is_locked w"
  by (auto simp: live_def wasm_is_locked_def is_locked_def)

lemma locked_is_locked [simp]: "wasm_is_locked (wasm_lock w)"
  by (simp add: wasm_is_locked_def is_locked_def)

section \<open>Edits\<close>

text \<open>An edit of a live session changes nothing but its entries and its clock.\<close>

lemma wasm_edit_idle:
  assumes L: "deps_laws L" and v: "wf_vault v" and c: "edits c"
    and run: "bridge_step L c (idle_session v m, r) = (res, (b', r'))"
  shows "\<exists>v'. b' = idle_session v' m \<and> edited v v'"
proof -
  have "rng_laws L" using L by (simp add: deps_laws_def)
  from edit_idle [OF this v c run] show ?thesis by metis
qed

lemma edited_refl: "wf_vault v \<Longrightarrow> edited v v"
  by (simp add: edited_def)

lemma wasm_add_entry_idle:
  assumes "deps_laws L" and "wf_vault v"
    and "wasm_add_entry L title secret description now (js_idle v m, r) = (res, (w', r'))"
  shows "\<exists>v'. w' = js_idle v' m \<and> edited v v'"
proof (cases "parse_timestamp now")
  case (Inr t)
  obtain res0 b where "bridge_add_entry L title secret description t (idle_session v m, r) = (res0, (b, r'))"
    and "w' = \<lparr>wv_inner = b\<rparr>"
    using assms(3) Inr by (auto simp: wasm_add_entry_def split: prod.splits)
  then show ?thesis
    using wasm_edit_idle [OF assms(1,2), of "AddEntry title secret description t" m r]
    by (cases res0) (simp_all add: reply_with_def)
qed (use assms edited_refl in \<open>auto simp: wasm_add_entry_def\<close>)

lemma wasm_update_entry_idle:
  assumes "deps_laws L" and "wf_vault v"
    and "wasm_update_entry L eid title secret description now (js_idle v m) = (res, w')"
  shows "\<exists>v'. w' = js_idle v' m \<and> edited v v'"
proof (cases "parse_timestamp now")
  case (Inr t)
  obtain res0 b where "bridge_update_entry L eid title secret description t (idle_session v m) = (res0, b)"
    and "w' = \<lparr>wv_inner = b\<rparr>"
    using assms(3) Inr by (auto simp: wasm_update_entry_def split: prod.splits)
  then show ?thesis
    using wasm_edit_idle [OF assms(1,2), of "UpdateEntry eid title secret description t" m undefined]
    by (cases res0) (simp_all add: reply_with_def)
qed (use assms edited_refl in \<open>auto simp: wasm_update_entry_def\<close>)

lemma wasm_delete_entry_idle:
  assumes "deps_laws L" and "wf_vault v" and "wasm_delete_entry L eid now (js_idle v m) = (res, w')"
  shows "\<exists>v'. w' = js_idle v' m \<and> edited v v'"
proof (cases "parse_timestamp now")
  case (Inr t)
  obtain res0 b where "bridge_delete_entry L eid t (idle_session v m) = (res0, b)"
    and "w' = \<lparr>wv_inner = b\<rparr>"
    using assms(3) Inr by (auto simp: wasm_delete_entry_def split: prod.splits)
  then show ?thesis
    using wasm_edit_idle [OF assms(1,2), of "DeleteEntry eid t" m undefined]
    by (cases res0) (simp_all add: reply_with_def)
qed (use assms edited_refl in \<open>auto simp: wasm_delete_entry_def\<close>)

lemma edited_live: "session_meta v m \<Longrightarrow> edited v v' \<Longrightarrow> live (js_idle v' m)"
  using edited_meta by (auto simp: edited_def)

section \<open>Saving\<close>

lemma write_back_session: "write_back D k j e (s, w) = (res, (s', w')) \<Longrightarrow> w' = w"
  by (cases res) (auto simp: write_back_def bindE_Inr bindE_Inl on_device_Inl)

lemma wasm_verify_any:
  "wasm_verify_pending_slot L t (js_saving v m p) = (res, w') \<Longrightarrow>
     \<exists>k. w' = js_saving v m (p\<lparr>ps_slot_verified := k\<rparr>)"
  by (cases p) (auto simp: wasm_verify_pending_slot_def verify_pending_slot_def
      split: if_splits option.splits sum.splits)

lemma wasm_commit_any:
  assumes L: "deps_laws L" and p: "pending_ok L v p"
    and run: "wasm_commit_pending_save L t (js_saving v m p) = (res, w')"
  shows "(\<exists>e. res = Inl e) \<and> w' = js_saving v m p \<or> res = Inr () \<and> w' = js_idle (next_vault v) m"
proof (cases "ps_slot_verified p \<and> t = ps_active_pointer_json p")
  case True
  then show ?thesis using run wasm_commit_saving [OF L p] by simp
next
  case False
  then show ?thesis using run
    by (auto simp: wasm_commit_pending_save_def commit_pending_save_def split: if_splits)
qed

lemma write_save_any:
  assumes L: "deps_laws L" and p: "pending_ok L v p"
    and run: "write_save L D h (s, js_saving v m p) = (res, (s', w'))"
  shows "(\<exists>e k. res = Inl e \<and> w' = js_saving v m (p\<lparr>ps_slot_verified := k\<rparr>)) \<or>
    res = Inr () \<and> w' = js_idle (next_vault v) m"
proof -
  let ?p = "\<lambda>k. p\<lparr>ps_slot_verified := k\<rparr>"
  have p0: "p = ?p (ps_slot_verified p)" by simp
  obtain r1 s1 where 1: "write_back D (save_bundle_slot_key h) (save_bundle_slot_json h)
      (Persistence ''missing_slot_readback'') (s, js_saving v m p) = (r1, (s1, js_saving v m p))"
    by (metis surj_pair write_back_session)
  show ?thesis
  proof (cases r1)
    case (Inl e)
    with 1 run have "res = Inl e" "w' = js_saving v m p" by (simp_all add: write_save_eq bindE_apply)
    then show ?thesis using p0 by metis
  next
    case (Inr x)
    obtain r2 k where 2: "wasm_verify_pending_slot L x (js_saving v m p) = (r2, js_saving v m (?p k))"
      by (metis surj_pair wasm_verify_any)
    obtain r3 s3 where 3: "write_back D ACTIVE_SLOT_KEY (save_bundle_active_pointer_json h)
        (Persistence ''missing_pointer_readback'') (s1, js_saving v m (?p k)) = (r3, (s3, js_saving v m (?p k)))"
      by (metis surj_pair write_back_session)
    show ?thesis
      using run 1 2 3 Inr
      by (cases r2; cases r3)
        (auto simp: write_save_eq bindE_apply on_session_def split: prod.splits sum.splits
          dest!: wasm_commit_any [OF L pending_verified [OF p]])
  qed
qed

lemma save_session_any:
  assumes L: "deps_laws L" and v: "wf_vault v"
    and run: "save_session L D (s, js_idle v m, r) = (res, (s', w', r'))"
  shows "(\<exists>e. res = Inl e) \<and> w' = js_idle v m \<or> res = Inr () \<and> w' = js_idle (next_vault v) m"
proof -
  obtain res0 w1 r1 where prep: "wasm_prepare_save L (js_idle v m, r) = (res0, (w1, r1))"
    by (metis surj_pair)
  from L v prep show ?thesis
  proof (cases rule: wasm_prepare_save_idle)
    case (failed e)
    with run prep show ?thesis by (auto simp: save_session_def)
  next
    case (prepared p)
    obtain res1 s1 w2 where body: "write_save L D (handed_out v p) (s, js_saving v m p) = (res1, (s1, w2))"
      by (metis surj_pair)
    have "save_session L D (s, js_idle v m, r) =
        (res1, (s1, case res1 of Inl _ \<Rightarrow> wasm_cancel_pending_save w2 | Inr _ \<Rightarrow> w2, r1))"
      using prep prepared(1,2) body
      by (simp add: save_session_def on_error_def handed_simps(1) split: sum.split)
    with write_save_any [OF L prepared(3) body] run show ?thesis by auto
  qed
qed

section \<open>Changing the password\<close>

lemma change_password_any:
  assumes L: "deps_laws L" and m: "session_meta v m"
    and run: "change_master_password L D cur new (s, js_idle v m, r) = (res, (s', w', r'))"
  shows "(\<exists>e. res = Inl e) \<and> w' = js_idle v m \<or>
    (\<exists>m'. res = Inr () \<and> w' = js_idle v m' \<and> session_meta v m')"
proof -
  obtain res0 b r0 where prep: "prepare_password_change L (as_bytes cur) (as_bytes new) (idle_session v m, r)
      = (res0, (b, r0))"
    by (metis surj_pair)
  from L m prep show ?thesis
  proof (cases rule: prepare_password_idle)
    case (failed e)
    with run prep show ?thesis
      by (auto simp: change_master_password_def wasm_prepare_password_change_def)
  next
    case (prepared c)
    have meta: "session_meta v (pc_metadata c)" using prepared(2) by (simp add: change_ok_def)
    obtain r1 s1 where b: "write_back D META_KEY (pc_metadata_json c)
        (Persistence ''missing_metadata_readback'') (s, js_rekeying v m c) = (r1, (s1, js_rekeying v m c))"
      by (metis surj_pair write_back_session)
    obtain res1 s2 w1 where body: "write_password_change L D (pc_metadata_json c) (s, js_rekeying v m c)
        = (res1, (s2, w1))"
      by (metis surj_pair)
    have "(res, (s', w', r')) = (res1, (s2, case res1 of Inl _ \<Rightarrow> wasm_cancel_password_change w1
        | Inr _ \<Rightarrow> w1, r0))"
      using run prep prepared(1,3) body
      by (auto simp: change_master_password_def wasm_prepare_password_change_def on_error_def
          split: sum.splits)
    moreover have "case res1 of
        Inl _ \<Rightarrow> wasm_cancel_password_change w1 = js_idle v m
      | Inr _ \<Rightarrow> w1 = js_idle v (pc_metadata c)"
    proof (cases r1)
      case (Inl e)
      with body b show ?thesis
        by (auto simp: write_password_change_eq bindE_apply wasm_cancel_password_change_def
            cancel_password_change_def)
    next
      case (Inr x)
      with body b show ?thesis
        by (cases "x = pc_metadata_json c")
          (auto simp: write_password_change_eq bindE_apply on_session_def wasm_commit_password_change_def
            commit_password_rekeying [OF L prepared(2)] wasm_cancel_password_change_def
            cancel_password_change_def)
    qed
    ultimately show ?thesis using meta by (cases res1) auto
  qed
qed

section \<open>Creating and opening\<close>

lemma create_session_live:
  assumes L: "deps_laws L" and run: "create_session L D pw now (s, r) = (Inr w, (s', r'))"
  shows "live w"
proof -
  from run obtain handed where create: "wasm_create L pw now r = (Inr handed, r')"
    and take: "create_take_session handed = Inr w"
    by (auto simp: create_session_def map_errE_apply map_err_def and_then_Inr
        split: prod.splits sum.splits if_splits)
  from create obtain t r0 cb where cb: "bridge_create L (as_bytes pw) t r0 = (Inr cb, r')"
    and handed: "handed = wasm_create_bundle_new cb"
    by (auto simp: wasm_create_def bindE_Inr)
  obtain v m where "cb_session cb = idle_session v m" "wf_vault v" "session_meta v m"
    by (rule bridge_create_Inr [OF L cb]) simp
  with take show ?thesis by (auto simp: handed create_take_session_def wasm_create_bundle_new_def)
qed

lemma open_session_live:
  assumes "open_session L D pw s = (Inr w, s')"
  shows "live w"
proof -
  from assms obtain snap :: storage_snapshot and opened where "wasm_open L pw (ss_metadata_json snap) (ss_slot_a_json snap)
      (ss_slot_b_json snap) (ss_active_pointer_json snap) = Inr opened"
    and take: "open_take_session opened = Inr w"
    by (auto simp: open_session_def bindE_Inr split: option.splits)
  then obtain x ob where ob: "bridge_open L (as_bytes pw) x = Inr ob" and opened: "opened = wasm_open_bundle_new ob"
    by (auto simp: wasm_open_def and_then_Inr)
  obtain v m where "ob_session ob = idle_session v m" "wf_vault v" "session_meta v m"
    by (rule bridge_open_Inr [OF ob]) simp
  with take show ?thesis by (auto simp: opened open_take_session_def wasm_open_bundle_new_def)
qed

end
