(* ===== verification/Controller_Machine.thy ===== *)
theory Controller_Machine
  imports Controller Client_Sessions Simulation
begin

text \<open>
  The controller as a state machine. \<open>app_inv\<close> is its invariant: a session comes with a running
  deadline and with exactly its own entries on the screen, and without a session nothing of a vault
  is left. \<open>autolock\<close> is the abstract timer of the automatic lock, which every method follows,
  whatever the devices and the random source do.
\<close>

section \<open>What the screens show\<close>

definition js_entry_of :: "entry_summary \<Rightarrow> js_entry" where
  "js_entry_of s =
     \<lparr>je_id = sm_id s, je_title = sm_title s,
      je_created_at = int (f64_round (unat (sm_created_at s))),
      je_updated_at = int (f64_round (unat (sm_updated_at s)))\<rparr>"

text \<open>\<open>serde_json\<close> prints every list of summaries, and \<open>JSON.parse\<close> reads that text back.\<close>

definition ui_laws :: "('r, 'z) ui_deps_scheme \<Rightarrow> bool" where
  "ui_laws L \<longleftrightarrow>
     (\<forall>ss. \<exists>text. json_summaries_ser L ss = Some text \<and>
        json_parse_entries L text = Some (map js_entry_of ss))"

definition shown_entries :: "'z base64_lib_scheme \<Rightarrow> unlocked_vault \<Rightarrow> js_entry list" where
  "shown_entries L v = sort_by newest_first (map (js_entry_of \<circ> summary_of L) (entries_of v))"

interpretation newest: comparison newest_first
  by unfold_locales (auto simp: newest_first_def)

lemma refresh_live:
  assumes "ui_laws L" and "ct_session c = Some (js_idle v m)"
  shows "refresh_entries L c = (Inr (), c\<lparr>ct_state := (ct_state c)\<lparr>as_entries := shown_entries L v\<rparr>\<rparr>)"
proof -
  obtain printed where "json_summaries_ser L (map (summary_of L) (entries_of v)) = Some printed"
    "json_parse_entries L printed = Some (map js_entry_of (map (summary_of L) (entries_of v)))"
    using assms(1) unfolding ui_laws_def by blast
  then show ?thesis
    using assms(2)
    by (simp add: refresh_entries_def require_session_def wasm_is_locked_def is_locked_def client_call_def
        wasm_list_entries_json_def list_entries_json_def vault_ref_def json_parse_def shown_entries_def)
qed

lemma refresh_no_session: "ct_session c = None \<Longrightarrow> refresh_entries L c = (Inl (App ''locked''), c)"
  by (simp add: refresh_entries_def require_session_def)

lemma require_session_Inr:
  "require_session c = Inr w \<longleftrightarrow> ct_session c = Some w \<and> \<not> wasm_is_locked w"
  by (auto simp: require_session_def split: option.splits)

section \<open>The timer\<close>

type_synonym timer = "(int \<times> int) option"

text \<open>A running timer holds the last time it has seen and its deadline. Seeing a time that is no
  time, or an earlier one, stops it.\<close>

definition observed :: "f64 \<Rightarrow> timer \<Rightarrow> timer" where
  "observed now \<tau> =
     (case \<tau> of
        None \<Rightarrow> None
      | Some (l, e) \<Rightarrow> if f64_is_safe_integer now \<and> l \<le> f64_int now then Some (f64_int now, e) else None)"

definition started :: "int \<Rightarrow> f64 \<Rightarrow> timer" where
  "started n now =
     (if f64_is_safe_integer now then Some (f64_int now, f64_add_int (f64_int now) (n * MINUTE_MS)) else None)"

definition extended :: "int \<Rightarrow> f64 \<Rightarrow> timer \<Rightarrow> timer" where
  "extended n now \<tau> = (if observed now \<tau> = None then None else started n now)"

definition expired :: "f64 \<Rightarrow> timer \<Rightarrow> timer" where
  "expired now \<tau> =
     (case observed now \<tau> of None \<Rightarrow> None | Some (l, e) \<Rightarrow> if l < e then Some (l, e) else None)"

definition timer_of :: "controller \<Rightarrow> timer" where
  "timer_of c =
     (if ct_session c = None then None
      else case (ct_last_session_timestamp c, ct_session_expires_at c) of
        (Some l, Some e) \<Rightarrow> Some (l, e) | _ \<Rightarrow> None)"

definition timer_ok :: "timer \<Rightarrow> bool" where
  "timer_ok \<tau> \<longleftrightarrow> (case \<tau> of None \<Rightarrow> False | Some (l, e) \<Rightarrow> l < e \<and> e \<le> l + 86400001)"

lemma started_ok: "1 \<le> n \<Longrightarrow> n \<le> 1440 \<Longrightarrow> started n now = Some \<tau> \<Longrightarrow> timer_ok (Some \<tau>)"
  using f64_add_int_bounds [of "f64_int now" "n * MINUTE_MS"]
  by (auto simp: started_def timer_ok_def MINUTE_MS_def split: if_splits)

section \<open>The invariant\<close>

definition app_inv :: "('r, 'z) ui_deps_scheme \<Rightarrow> controller \<Rightarrow> bool" where
  "app_inv L c \<longleftrightarrow>
     1 \<le> ct_session_timeout_minutes c \<and> ct_session_timeout_minutes c \<le> 1440 \<and>
     (case ct_session c of
        None \<Rightarrow>
          ct_session_expires_at c = None \<and> ct_last_session_timestamp c = None \<and>
          as_entries (ct_state c) = [] \<and> as_selected_id (ct_state c) = None \<and>
          as_editing_id (ct_state c) = None \<and>
          as_screen (ct_state c) \<notin> {''vault'', ''change-password'', ''destroy''}
      | Some w \<Rightarrow>
          timer_ok (timer_of c) \<and>
          (wasm_is_locked w \<or>
           (\<exists>v m. w = js_idle v m \<and> wf_vault v \<and> session_meta v m \<and>
              as_entries (ct_state c) = shown_entries L v)))"

section \<open>Every method\<close>

text \<open>The controller \<open>c'\<close> is well formed, with the timeout of \<open>c\<close> and the given timer.\<close>

definition moves :: "('r, 'z) ui_deps_scheme \<Rightarrow> controller \<Rightarrow> controller \<Rightarrow> timer \<Rightarrow> bool" where
  "moves L c c' \<tau> \<longleftrightarrow>
     app_inv L c' \<and> ct_session_timeout_minutes c' = ct_session_timeout_minutes c \<and> timer_of c' = \<tau>"

lemma timer_simps [simp]:
  "timer_of (c\<lparr>ct_state := x\<rparr>) = timer_of c"
  "timer_of (c\<lparr>ct_session_timeout_minutes := n\<rparr>) = timer_of c"
  "timer_of (set_state p c) = timer_of c"
  by (simp_all add: timer_of_def set_state_def)

lemma app_lock_moves: "app_inv L c \<Longrightarrow> moves L c (app_lock c) None"
  by (simp add: moves_def app_inv_def app_lock_def set_state_def timer_of_def)

lemma same_moves: "app_inv L c \<Longrightarrow> moves L c c (timer_of c)"
  by (simp add: moves_def)

text \<open>The timer of a controller with a session.\<close>

lemma timer_running:
  assumes "app_inv L c" and "ct_session c = Some w"
  obtains l e where "ct_last_session_timestamp c = Some l" and "ct_session_expires_at c = Some e"
    and "timer_of c = Some (l, e)" and "l < e"
  using assms
  by (auto simp: app_inv_def timer_ok_def timer_of_def split: option.splits)

lemma timer_stopped: "app_inv L c \<Longrightarrow> ct_session c = None \<longleftrightarrow> timer_of c = None"
  by (cases "ct_session c") (auto simp: timer_of_def elim: timer_running)

text \<open>Setting the last timestamp and the deadline of a running timer.\<close>

lemma app_inv_timer:
  assumes "app_inv L c" and "ct_session c = Some w" and "timer_ok (Some (l, e))"
  shows "moves L c (c\<lparr>ct_last_session_timestamp := Some l, ct_session_expires_at := Some e\<rparr>) (Some (l, e))"
  using assms by (simp add: moves_def app_inv_def timer_of_def)

lemma observe_cases:
  assumes "app_inv L c" and "ct_session c = Some w" and "observe_session_time now c = (b, c')"
  obtains (stopped) "\<not> b" and "c' = app_lock c" and "observed now (timer_of c) = None"
  | (seen) e where "b" and "c' = c\<lparr>ct_last_session_timestamp := Some (f64_int now)\<rparr>"
      and "ct_session_expires_at c = Some e" and "f64_is_safe_integer now"
      and "observed now (timer_of c) = Some (f64_int now, e)"
proof -
  obtain l e where t: "ct_last_session_timestamp c = Some l" "ct_session_expires_at c = Some e"
    "timer_of c = Some (l, e)"
    using assms(1,2) by (rule timer_running)
  then show ?thesis
    using assms(3) stopped seen [of e]
    by (auto simp: observe_session_time_def observed_def not_less split: if_splits)
qed

lemma touch_moves:
  assumes c: "app_inv L c" and run: "touch_session now c = (res, c')"
  shows "moves L c c' (extended (ct_session_timeout_minutes c) now (timer_of c))"
    and "ct_session c' = None \<or> ct_session c' = ct_session c \<and> ct_state c' = ct_state c"
proof -
  let ?n = "ct_session_timeout_minutes c"
  have "moves L c c' (extended ?n now (timer_of c)) \<and>
      (ct_session c' = None \<or> ct_session c' = ct_session c \<and> ct_state c' = ct_state c)"
  proof (cases "ct_session c")
    case None
    then show ?thesis using run same_moves [OF c] timer_stopped [OF c]
      by (auto simp: touch_session_def extended_def observed_def)
  next
    case (Some w)
    obtain b c1 where o: "observe_session_time now c = (b, c1)" by fastforce
    from c Some o show ?thesis
    proof (cases rule: observe_cases)
      case stopped
      then show ?thesis using run Some o app_lock_moves [OF c]
        by (auto simp: touch_session_def extended_def app_lock_def set_state_def)
    next
      case (seen e)
      let ?e = "f64_add_int (f64_int now) (?n * MINUTE_MS)"
      have st: "started ?n now = Some (f64_int now, ?e)" using seen(4) by (simp add: started_def)
      have "timer_ok (Some (f64_int now, ?e))" using started_ok [OF _ _ st] c by (simp add: app_inv_def)
      from app_inv_timer [OF c Some this] show ?thesis
        using run Some o seen st
        by (auto simp: touch_session_def extended_def session_timeout_milliseconds_def Let_def)
    qed
  qed
  then show "moves L c c' (extended ?n now (timer_of c))"
    and "ct_session c' = None \<or> ct_session c' = ct_session c \<and> ct_state c' = ct_state c" by blast+
qed

lemma deactivate_touch: "deactivate = touch_session"
  by (simp add: fun_eq_iff deactivate_def touch_session_def)

lemma expire_moves:
  assumes c: "app_inv L c" and run: "expire_authentication now c = (b, c')"
  shows "moves L c c' (expired now (timer_of c))"
    and "ct_session c \<noteq> None \<Longrightarrow> b \<longleftrightarrow> expired now (timer_of c) = None"
proof -
  have "moves L c c' (expired now (timer_of c)) \<and>
      (ct_session c \<noteq> None \<longrightarrow> b = (expired now (timer_of c) = None))"
  proof (cases "ct_session c")
    case None
    then show ?thesis using run same_moves [OF c] timer_stopped [OF c]
      by (simp add: expire_authentication_def expired_def observed_def)
  next
    case (Some w)
    obtain b1 c1 where o: "observe_session_time now c = (b1, c1)" by fastforce
    from c Some o show ?thesis
    proof (cases rule: observe_cases)
      case stopped
      then show ?thesis using run Some o app_lock_moves [OF c]
        by (auto simp: expire_authentication_def expired_def)
    next
      case (seen e)
      have lock: "app_lock c1 = app_lock c" by (simp add: seen(2) app_lock_def set_state_def)
      show ?thesis
      proof (cases "f64_int now < e")
        case True
        have keep: "c\<lparr>ct_last_session_timestamp := x, ct_session_expires_at := Some e\<rparr>
            = c\<lparr>ct_last_session_timestamp := x\<rparr>" for x
          using seen(3) by (cases c) simp
        have "e \<le> f64_int now + 86400001"
          using c Some seen(3,5)
          by (auto simp: app_inv_def timer_ok_def timer_of_def observed_def split: option.splits if_splits)
        with True have "timer_ok (Some (f64_int now, e))" by (simp add: timer_ok_def)
        from app_inv_timer [OF c Some this] show ?thesis
          using run Some o seen True keep by (auto simp: expire_authentication_def expired_def)
      next
        case False
        then show ?thesis using run Some o seen app_lock_moves [OF c] lock
          by (auto simp: expire_authentication_def expired_def)
      qed
    qed
  qed
  then show "moves L c c' (expired now (timer_of c))"
    and "ct_session c \<noteq> None \<Longrightarrow> b \<longleftrightarrow> expired now (timer_of c) = None" by blast+
qed

lemma resume_moves:
  assumes c: "app_inv L c"
  shows "moves L c (resume now c) (extended (ct_session_timeout_minutes c) now (expired now (timer_of c)))"
proof (cases "ct_session c")
  case None
  then show ?thesis using same_moves [OF c] timer_stopped [OF c]
    by (simp add: resume_def extended_def expired_def observed_def)
next
  case (Some w)
  obtain b c1 where e: "expire_authentication now c = (b, c1)" by fastforce
  note m = expire_moves [OF c e]
  show ?thesis
  proof (cases b)
    case True
    then show ?thesis using e m Some by (simp add: resume_def extended_def observed_def)
  next
    case False
    obtain x c2 where t: "touch_session now c1 = (x, c2)" by fastforce
    have c1: "app_inv L c1" using m(1) by (simp add: moves_def)
    have "resume now c = c2" using False e t Some by (simp add: resume_def)
    with touch_moves(1) [OF c1 t] m(1) show ?thesis by (simp add: moves_def)
  qed
qed

lemma set_timeout_moves:
  assumes c: "app_inv L c" and run: "set_session_timeout_minutes minutes now c = (res, c')"
  shows "case res of
      Inl _ \<Rightarrow> c' = c
    | Inr n \<Rightarrow> n = f64_int minutes \<and> 1 \<le> n \<and> n \<le> 1440 \<and> app_inv L c' \<and>
        ct_session_timeout_minutes c' = n \<and> timer_of c' = extended n now (timer_of c)"
proof (cases "normalize_session_timeout_minutes minutes")
  case (Inl e)
  with run have "res = Inl e" "c' = c" by (simp_all add: set_session_timeout_minutes_def)
  then show ?thesis by simp
next
  case (Inr n)
  then have n: "n = f64_int minutes" "1 \<le> n" "n \<le> 1440"
    by (auto simp: normalize_session_timeout_minutes_def MIN_SESSION_TIMEOUT_MINUTES_def
        MAX_SESSION_TIMEOUT_MINUTES_def split: if_splits)
  let ?c = "c\<lparr>ct_session_timeout_minutes := n\<rparr>"
  have c1: "app_inv L ?c" using c n by (auto simp: app_inv_def split: option.splits)
  obtain x c2 where t: "touch_session now ?c = (x, c2)" by fastforce
  have "res = Inr n" "c' = c2" using run Inr t by (simp_all add: set_session_timeout_minutes_def)
  with touch_moves(1) [OF c1 t] n show ?thesis by (simp add: moves_def)
qed

text \<open>Activation of a live session.\<close>

lemma activate_moves:
  assumes ui: "ui_laws L" and c: "app_inv L c" and w: "live w"
    and run: "activate_session L w now c = (res, c')"
  shows "case res of
      Inl _ \<Rightarrow> moves L c c' None
    | Inr _ \<Rightarrow> moves L c c' (started (ct_session_timeout_minutes c) now) \<and> f64_is_safe_integer now"
proof -
  let ?n = "ct_session_timeout_minutes c"
  let ?c = "c\<lparr>ct_session := Some w, ct_last_session_timestamp := None\<rparr>"
  obtain v m where v: "w = js_idle v m" "wf_vault v" "session_meta v m" using w by (rule liveE)
  show ?thesis
  proof (cases "f64_is_safe_integer now")
    case False
    then have t: "snd (touch_session now ?c) = app_lock c"
      by (simp add: touch_session_def observe_session_time_def app_lock_def set_state_def)
    have "ct_session (app_lock c) = None" by (simp add: app_lock_def set_state_def)
    then show ?thesis using run app_lock_moves [OF c] t
      by (auto simp: activate_session_def show_vault_def refresh_no_session)
  next
    case True
    define e where "e = f64_add_int (f64_int now) (?n * MINUTE_MS)"
    have st: "started ?n now = Some (f64_int now, e)" using True by (simp add: started_def e_def)
    then have ok: "timer_ok (Some (f64_int now, e))" using started_ok c by (auto simp: app_inv_def)
    define c1 where "c1 = ?c\<lparr>ct_last_session_timestamp := Some (f64_int now), ct_session_expires_at := Some e\<rparr>"
    have t: "snd (touch_session now ?c) = c1"
      using True by (simp add: touch_session_def observe_session_time_def Let_def e_def c1_def
          session_timeout_milliseconds_def)
    have "ct_session c1 = Some (js_idle v m)" by (simp add: c1_def v)
    from refresh_live [OF ui this]
    have "res = Inr ()" and c': "c' = set_state (screen_only ''vault'')
        (c1\<lparr>ct_state := (ct_state c1)\<lparr>as_entries := shown_entries L v\<rparr>\<rparr>)"
      using run t by (simp_all add: activate_session_def show_vault_def)
    moreover have "moves L c c' (Some (f64_int now, e))"
      using c ok v by (auto simp: moves_def app_inv_def c' c1_def set_state_def timer_of_def)
    ultimately show ?thesis using st True by simp
  qed
qed

text \<open>A call that only changes what a screen selects, which needs a session.\<close>

lemma select_moves:
  assumes "app_inv L c" and "ct_session c = Some w" and "\<And>st. as_entries (p st) = as_entries st"
  shows "moves L c (set_state p c) (timer_of c)"
  using assms by (simp add: moves_def app_inv_def set_state_def)

lemma navigate_moves:
  assumes "app_inv L c" and "navigate screen c = (res, c')"
  shows "moves L c c' (timer_of c)"
proof (cases "ct_session c")
  case None
  then show ?thesis using assms
    by (auto simp: navigate_def require_session_def moves_def app_inv_def set_state_def split: if_splits)
next
  case (Some w)
  have "c' = c \<or> c' = set_state (\<lambda>st. st\<lparr>as_screen := screen\<rparr>) c"
    using assms(2) by (auto simp: navigate_def split: if_splits sum.splits)
  then show ?thesis
    using same_moves [OF assms(1)] select_moves [OF assms(1) Some] by auto
qed

lemma open_entry_moves:
  assumes "app_inv L c" and "open_entry L eid c = (res, c')"
  shows "moves L c c' (timer_of c)"
proof (cases res)
  case (Inl e)
  then show ?thesis using assms same_moves by (auto simp: open_entry_def split: sum.splits)
next
  case (Inr d)
  then obtain w where w: "ct_session c = Some w" and c': "c' = set_state (\<lambda>st. st\<lparr>as_screen := ''detail'',
      as_selected_id := Some eid, as_editing_id := None\<rparr>) c"
    using assms(2) by (auto simp: open_entry_def and_then_Inr require_session_Inr split: sum.splits)
  show ?thesis unfolding c' by (rule select_moves [OF assms(1) w]) simp
qed

lemma begin_edit_moves:
  assumes "app_inv L c" and "begin_edit L eid c = (res, c')"
  shows "moves L c c' (timer_of c)"
proof (cases res)
  case (Inl e)
  then show ?thesis using assms same_moves by (auto simp: begin_edit_def split: sum.splits)
next
  case (Inr d)
  then obtain w where w: "ct_session c = Some w" and c': "c' = set_state (\<lambda>st. st\<lparr>as_screen := ''edit'',
      as_editing_id := eid, as_selected_id := eid\<rparr>) c"
    using assms(2) by (auto simp: begin_edit_def and_then_Inr require_session_Inr split: sum.splits)
  show ?thesis unfolding c' by (rule select_moves [OF assms(1) w]) simp
qed

text \<open>Replacing a live session by a live one, with its entries shown.\<close>

lemma session_moves:
  assumes "app_inv L c" and "ct_session c = Some w" and "wf_vault v" and "session_meta v m"
    and "as_entries (ct_state c') = shown_entries L v" and "ct_session c' = Some (js_idle v m)"
    and "timer_of c' = timer_of c" and "ct_session_timeout_minutes c' = ct_session_timeout_minutes c"
  shows "moves L c c' (timer_of c)"
proof -
  have "timer_ok (timer_of c)" and "1 \<le> ct_session_timeout_minutes c" "ct_session_timeout_minutes c \<le> 1440"
    using assms(1,2) by (simp_all add: app_inv_def)
  with assms(3-8) show ?thesis by (auto simp: moves_def app_inv_def)
qed

lemma require_live:
  assumes "app_inv L c" and "require_session c = Inr w"
  obtains v m where "ct_session c = Some w" and "w = js_idle v m" and "wf_vault v" and "session_meta v m"
    and "as_entries (ct_state c) = shown_entries L v"
  using assms by (auto simp: require_session_Inr app_inv_def)

lemma change_password_moves:
  assumes L: "deps_laws L" and c: "app_inv L c"
    and run: "app_change_master_password L D cur new now (s, c, r) = (res, (s', c', r'))"
  shows "case res of
      Inl _ \<Rightarrow> moves L c c' (timer_of c) \<or> moves L c c' None
    | Inr _ \<Rightarrow> timer_of c \<noteq> None \<and> moves L c c' (extended (ct_session_timeout_minutes c) now (timer_of c))"
proof (cases "require_session c")
  case (Inl e)
  then show ?thesis using run same_moves [OF c] by (auto simp: app_change_master_password_def)
next
  case (Inr w)
  obtain v m where w: "ct_session c = Some w" "w = js_idle v m" "wf_vault v" "session_meta v m"
    "as_entries (ct_state c) = shown_entries L v"
    by (rule require_live [OF c Inr])
  obtain res0 s1 w1 r1 where change: "change_master_password L D cur new (s, w, r) = (res0, (s1, w1, r1))"
    by (metis surj_pair)
  from change_password_any [OF L w(4) change [unfolded w(2)]] obtain m' where w1: "w1 = js_idle v m'"
    and m': "session_meta v m'"
    using w(4) by blast
  let ?c = "c\<lparr>ct_session := Some w1\<rparr>"
  have timer: "timer_of ?c = timer_of c" using w(1) by (simp add: timer_of_def)
  have c1: "moves L c ?c (timer_of c)"
    by (rule session_moves [OF c w(1,3) m']) (simp_all add: w(5) w1 timer [unfolded w1])
  then have inv: "app_inv L ?c" by (simp add: moves_def)
  show ?thesis
  proof (cases res0)
    case (Inl e)
    have "moves L c (app_lock ?c) None" using app_lock_moves [OF inv] by (simp add: moves_def)
    with c1 show ?thesis
      using run Inr change Inl by (auto simp: app_change_master_password_def Let_def split: if_splits)
  next
    case (Inr u)
    obtain x c2 where t: "touch_session now ?c = (x, c2)" by fastforce
    note moved = touch_moves [OF inv t]
    have "app_inv L (set_state (\<lambda>st. st\<lparr>as_screen := ''settings''\<rparr>) c2)"
      using moved by (auto simp: moves_def app_inv_def set_state_def split: option.splits)
    moreover have "timer_of c \<noteq> None" using w(1) timer_stopped [OF c] by simp
    ultimately show ?thesis
      using run \<open>require_session c = Inr w\<close> change Inr t moved timer
      by (auto simp: app_change_master_password_def moves_def set_state_def)
  qed
qed

text \<open>The settings screen is the exception of \<open>app_inv\<close>: a change of the password that succeeds when the
  clock has stepped back locks the application and then shows the settings, without a session.\<close>

lemma settings_without_session:
  assumes "require_session c = Inr w" and "ct_last_session_timestamp c = Some l" and "f64_int now < l"
    and "change_master_password L D cur new (s, w, r) = (Inr (), (s', w', r'))"
  shows "\<exists>c'. app_change_master_password L D cur new now (s, c, r) = (Inr (), (s', c', r')) \<and>
    ct_session c' = None \<and> as_screen (ct_state c') = ''settings''"
  using assms
  by (simp add: app_change_master_password_def touch_session_def observe_session_time_def app_lock_def
      set_state_def)

lemma save_edited_moves:
  assumes L: "deps_laws L" "ui_laws L" and c: "app_inv L c" and old: "ct_session c = Some old"
    and w: "live w" and run: "save_edited L D edit w (s, c, r) = (res, (s', c', r'))"
  shows "case res of Inl _ \<Rightarrow> moves L c c' None | Inr _ \<Rightarrow> moves L c c' (timer_of c)"
proof -
  have lock: "moves L c (app_lock x) None" if "ct_session_timeout_minutes x = ct_session_timeout_minutes c" for x
    using that c by (simp add: moves_def app_inv_def app_lock_def set_state_def timer_of_def)
  obtain v m where v: "w = js_idle v m" "wf_vault v" "session_meta v m" using w by (rule liveE)
  show ?thesis
  proof (cases edit)
    case (Inl e)
    then show ?thesis using run lock by (auto simp: save_edited_def)
  next
    case (Inr u)
    obtain res0 s1 w1 r1 where save: "save_session L D (s, w, r) = (res0, (s1, w1, r1))" by (metis surj_pair)
    show ?thesis
    proof (cases res0)
      case (Inl e)
      then show ?thesis using run save \<open>edit = Inr u\<close> lock by (auto simp: save_edited_def Let_def)
    next
      case (Inr u')
      then have w1: "w1 = js_idle (next_vault v) m"
        using save_session_any [OF L(1) v(2) save [unfolded v(1)]] by auto
      have v1: "wf_vault (next_vault v)" "session_meta (next_vault v) m"
        using v(2,3) by (simp_all add: wf_vault_def session_meta_def next_container_def vault_id_of_def)
      let ?c = "c\<lparr>ct_session := Some w1\<rparr>"
      have "ct_session ?c = Some (js_idle (next_vault v) m)" by (simp add: w1)
      from refresh_live [OF L(2) this]
      have "res = Inr ()" and c': "c' = set_state (screen_only ''vault'')
          (?c\<lparr>ct_state := (ct_state ?c)\<lparr>as_entries := shown_entries L (next_vault v)\<rparr>\<rparr>)"
        using run save \<open>edit = Inr u\<close> Inr by (simp_all add: save_edited_def)
      moreover have "moves L c c' (timer_of c)"
        by (rule session_moves [OF c old v1])
          (simp_all add: c' w1 set_state_def timer_of_def old)
      ultimately show ?thesis by simp
    qed
  qed
qed

text \<open>What \<open>saveEntry\<close> does to the session before it saves: a new entry or a change of one.\<close>

definition entry_edit ::
  "('r, 'z) deps_scheme \<Rightarrow> rstring option \<Rightarrow> rstring \<Rightarrow> rstring \<Rightarrow> rstring option \<Rightarrow> f64
     \<Rightarrow> wasm_vault_session \<times> 'r \<Rightarrow> (js_value + unit) \<times> wasm_vault_session \<times> 'r" where
  "entry_edit L editing title secret description now = (\<lambda>(w, r).
     case editing of
       None \<Rightarrow> (case wasm_add_entry L title secret description now (w, r) of
         (res, w', r') \<Rightarrow> (map_sum id (\<lambda>_. ()) res, w', r'))
     | Some eid \<Rightarrow> (case wasm_update_entry L eid title secret description now w of (res, w') \<Rightarrow> (res, w', r)))"

lemma save_edited_ended: "save_edited L D (map_sum id (\<lambda>_. ()) res) w = save_edited L D res w"
  by (cases res) (simp_all add: save_edited_def fun_eq_iff Let_def)

lemma app_save_entry_edit:
  assumes "require_session c = Inr w"
    and "entry_edit L (as_editing_id (ct_state c)) title secret (normalized_description description) now (w, r)
      = (res, w', r')"
  shows "app_save_entry L D title secret description now (s, c, r) = save_edited L D res w' (s, c, r')"
  using assms
  by (auto simp: app_save_entry_def entry_edit_def save_edited_ended split: option.splits prod.splits)

lemma entry_edit_idle:
  assumes "deps_laws L" and "wf_vault v"
    and "entry_edit L editing title secret description now (js_idle v m, r) = (res, w', r')"
  shows "\<exists>v'. w' = js_idle v' m \<and> edited v v'"
  using assms(3) wasm_add_entry_idle [OF assms(1,2)] wasm_update_entry_idle [OF assms(1,2)]
  by (auto simp: entry_edit_def split: option.splits prod.splits)

lemma save_entry_moves:
  assumes L: "deps_laws L" "ui_laws L" and c: "app_inv L c"
    and run: "app_save_entry L D title secret description now (s, c, r) = (res, (s', c', r'))"
  shows "case res of
      Inl _ \<Rightarrow> moves L c c' (timer_of c) \<or> moves L c c' None
    | Inr _ \<Rightarrow> timer_of c \<noteq> None \<and> moves L c c' (timer_of c)"
proof (cases "require_session c")
  case (Inl e)
  then show ?thesis using run same_moves [OF c] by (auto simp: app_save_entry_def)
next
  case (Inr w)
  obtain v m where w: "ct_session c = Some w" "w = js_idle v m" "wf_vault v" "session_meta v m"
    by (rule require_live [OF c Inr])
  obtain r0 w1 r1 where edit: "entry_edit L (as_editing_id (ct_state c)) title secret
      (normalized_description description) now (w, r) = (r0, w1, r1)"
    by (metis surj_pair)
  have "live w1" using entry_edit_idle [OF L(1) w(3) edit [unfolded w(2)]] edited_live [OF w(4)] by blast
  moreover have "save_edited L D r0 w1 (s, c, r1) = (res, (s', c', r'))"
    using run by (simp add: app_save_entry_edit [OF Inr edit])
  ultimately have "case res of Inl _ \<Rightarrow> moves L c c' None | Inr _ \<Rightarrow> moves L c c' (timer_of c)"
    by (rule save_edited_moves [OF L c w(1)])
  moreover have "timer_of c \<noteq> None" using timer_stopped [OF c] w(1) by simp
  ultimately show ?thesis by (cases res) auto
qed

lemma delete_selected_moves:
  assumes L: "deps_laws L" "ui_laws L" and c: "app_inv L c"
    and run: "app_delete_selected L D now (s, c, r) = (res, (s', c', r'))"
  shows "case res of
      Inl _ \<Rightarrow> moves L c c' (timer_of c) \<or> moves L c c' None
    | Inr _ \<Rightarrow> timer_of c \<noteq> None \<and> moves L c c' (timer_of c)"
proof (cases "and_then (require_session c) (\<lambda>w. and_then (selected_entry c) (\<lambda>eid. Inr (w, eid)))")
  case (Inl e)
  then show ?thesis using run same_moves [OF c] by (auto simp: app_delete_selected_def)
next
  case (Inr p)
  then obtain w eid where p: "p = (w, eid)" and req: "require_session c = Inr w" by (auto simp: and_then_Inr)
  obtain v m where w: "ct_session c = Some w" "w = js_idle v m" "wf_vault v" "session_meta v m"
    by (rule require_live [OF c req])
  obtain r0 w1 where del: "wasm_delete_entry L eid now w = (r0, w1)" by fastforce
  have "live w1" using wasm_delete_entry_idle [OF L(1) w(3) del [unfolded w(2)]] edited_live [OF w(4)] by blast
  moreover have "save_edited L D r0 w1 (s, c, r) = (res, (s', c', r'))"
    using run Inr p del by (simp add: app_delete_selected_def)
  ultimately have "case res of Inl _ \<Rightarrow> moves L c c' None | Inr _ \<Rightarrow> moves L c c' (timer_of c)"
    by (rule save_edited_moves [OF L c w(1)])
  moreover have "timer_of c \<noteq> None" using timer_stopped [OF c] w(1) by simp
  ultimately show ?thesis by (cases res) auto
qed

lemma destroy_session_locks:
  "destroy_session D secure (s, t, session) = (res, (s', t', session')) \<Longrightarrow> session' = map_option wasm_lock session"
  by (auto simp: destroy_session_def Let_def split: option.splits prod.splits sum.splits)

lemma destroy_moves:
  assumes c: "app_inv L c" and run: "app_destroy D secure (s, t, c) = (res, (s', t', c'))"
  shows "case res of Inl _ \<Rightarrow> moves L c c' (timer_of c) | Inr _ \<Rightarrow> moves L c c' None"
proof -
  obtain res0 s1 t1 w1 where d: "destroy_session D secure (s, t, ct_session c) = (res0, (s1, t1, w1))"
    by (metis surj_pair)
  note w1 = destroy_session_locks [OF d]
  show ?thesis
  proof (cases res0)
    case (Inl e)
    then have "res = Inl (Client e)" "c' = c\<lparr>ct_session := map_option wasm_lock (ct_session c)\<rparr>"
      using run d w1 by (simp_all add: app_destroy_def)
    then show ?thesis using c
      by (cases "ct_session c") (simp_all add: moves_def app_inv_def timer_of_def)
  next
    case (Inr u)
    then show ?thesis using run d c
      by (auto simp: app_destroy_def moves_def app_inv_def timer_of_def set_state_def)
  qed
qed

lemma create_moves:
  assumes L: "deps_laws L" "ui_laws L" and c: "app_inv L c"
    and run: "app_create L D pw now activated (s, c, r) = (res, (s', c', r'))"
  shows "case res of
      Inl _ \<Rightarrow> moves L c c' (timer_of c) \<or> moves L c c' None
    | Inr _ \<Rightarrow> moves L c c' (started (ct_session_timeout_minutes c) activated) \<and> f64_is_safe_integer activated"
proof -
  obtain res0 s1 r1 where create: "create_session L D pw now (s, r) = (res0, (s1, r1))" by (metis surj_pair)
  show ?thesis
  proof (cases res0)
    case (Inl e)
    with run create same_moves [OF c] show ?thesis by (auto simp: app_create_def)
  next
    case (Inr w)
    then have "activate_session L w activated c = (res, c')"
      using run create by (auto simp: app_create_def split: prod.splits)
    from activate_moves [OF L(2) c create_session_live [OF L(1) create [unfolded Inr]] this]
    show ?thesis by (cases res) auto
  qed
qed

lemma unlock_moves:
  assumes L: "ui_laws L" and c: "app_inv L c"
    and run: "app_unlock L D pw activated (s, c, r) = (res, (s', c', r'))"
  shows "case res of
      Inl _ \<Rightarrow> moves L c c' (timer_of c) \<or> moves L c c' None
    | Inr _ \<Rightarrow> moves L c c' (started (ct_session_timeout_minutes c) activated) \<and> f64_is_safe_integer activated"
proof -
  obtain res0 s1 where o: "open_session L D pw s = (res0, s1)" by fastforce
  show ?thesis
  proof (cases res0)
    case (Inl e)
    with run o same_moves [OF c] show ?thesis by (auto simp: app_unlock_def)
  next
    case (Inr w)
    then have "activate_session L w activated c = (res, c')"
      using run o by (auto simp: app_unlock_def split: prod.splits)
    from activate_moves [OF L c open_session_live [OF o [unfolded Inr]] this]
    show ?thesis by (cases res) auto
  qed
qed

section \<open>The state machine\<close>

datatype app_command =
    AppCreate rstring f64 f64
  | AppUnlock rstring f64
  | AppLock
  | AppDeactivate f64
  | AppResume f64
  | AppTouch f64
  | AppExpire f64
  | AppChangePassword rstring rstring f64
  | AppNavigate string
  | AppOpenEntry rstring
  | AppBeginEdit "rstring option"
  | AppSaveEntry rstring rstring rstring f64
  | AppDeleteSelected f64
  | AppDestroy
  | AppSetTimeout f64 f64

type_synonym ('s, 't, 'r) app_world = "'s \<times> 't \<times> controller \<times> 'r"

text \<open>A command ends well or with an error; what else it returns is not part of the machine.\<close>

definition ended :: "'e + 'a \<Rightarrow> 'e + unit" where
  "ended res = map_sum id (\<lambda>_. ()) res"

lemma ended_simps [simp]: "ended (Inl e) = Inl e" "ended (Inr x) = Inr ()"
  by (simp_all add: ended_def)

fun app_step ::
  "('r, 'z) ui_deps_scheme \<Rightarrow> 's device_storage \<Rightarrow> 't device_storage option \<Rightarrow> app_command
     \<Rightarrow> ('s, 't, 'r) app_world \<Rightarrow> (app_error + unit) \<times> ('s, 't, 'r) app_world" where
  "app_step L D secure (AppCreate pw now activated) (s, t, c, r) =
     (case app_create L D pw now activated (s, c, r) of (res, (s', c', r')) \<Rightarrow> (res, (s', t, c', r')))"
| "app_step L D secure (AppUnlock pw activated) (s, t, c, r) =
     (case app_unlock L D pw activated (s, c, r) of (res, (s', c', r')) \<Rightarrow> (res, (s', t, c', r')))"
| "app_step L D secure AppLock (s, t, c, r) = (Inr (), (s, t, app_lock c, r))"
| "app_step L D secure (AppDeactivate now) (s, t, c, r) = (Inr (), (s, t, snd (deactivate now c), r))"
| "app_step L D secure (AppResume now) (s, t, c, r) = (Inr (), (s, t, resume now c, r))"
| "app_step L D secure (AppTouch now) (s, t, c, r) = (Inr (), (s, t, snd (touch_session now c), r))"
| "app_step L D secure (AppExpire now) (s, t, c, r) =
     (Inr (), (s, t, snd (expire_authentication now c), r))"
| "app_step L D secure (AppChangePassword cur new now) (s, t, c, r) =
     (case app_change_master_password L D cur new now (s, c, r) of
        (res, (s', c', r')) \<Rightarrow> (res, (s', t, c', r')))"
| "app_step L D secure (AppNavigate screen) (s, t, c, r) =
     (case navigate screen c of (res, c') \<Rightarrow> (res, (s, t, c', r)))"
| "app_step L D secure (AppOpenEntry eid) (s, t, c, r) =
     (case open_entry L eid c of (res, c') \<Rightarrow> (ended res, (s, t, c', r)))"
| "app_step L D secure (AppBeginEdit eid) (s, t, c, r) =
     (case begin_edit L eid c of (res, c') \<Rightarrow> (ended res, (s, t, c', r)))"
| "app_step L D secure (AppSaveEntry title secret description now) (s, t, c, r) =
     (case app_save_entry L D title secret description now (s, c, r) of
        (res, (s', c', r')) \<Rightarrow> (res, (s', t, c', r')))"
| "app_step L D secure (AppDeleteSelected now) (s, t, c, r) =
     (case app_delete_selected L D now (s, c, r) of (res, (s', c', r')) \<Rightarrow> (res, (s', t, c', r')))"
| "app_step L D secure AppDestroy (s, t, c, r) =
     (case app_destroy D secure (s, t, c) of (res, (s', t', c')) \<Rightarrow> (res, (s', t', c', r)))"
| "app_step L D secure (AppSetTimeout minutes now) (s, t, c, r) =
     (case set_session_timeout_minutes minutes now c of (res, c') \<Rightarrow> (ended res, (s, t, c', r)))"

text \<open>The abstract automatic lock: the timeout in minutes and the timer. An error may stop the timer
  where the method locks on failure, never start it or move its deadline.\<close>

fun autolock :: "app_command \<Rightarrow> app_error + unit \<Rightarrow> int \<times> timer \<Rightarrow> int \<times> timer \<Rightarrow> bool" where
  "autolock (AppCreate pw now activated) out (n, \<tau>) (n', \<tau>') \<longleftrightarrow> n' = n \<and>
     (if out = Inr () then \<tau>' \<noteq> None \<and> \<tau>' = started n activated else \<tau>' \<in> {\<tau>, None})"
| "autolock (AppUnlock pw activated) out (n, \<tau>) (n', \<tau>') \<longleftrightarrow> n' = n \<and>
     (if out = Inr () then \<tau>' \<noteq> None \<and> \<tau>' = started n activated else \<tau>' \<in> {\<tau>, None})"
| "autolock AppLock out (n, \<tau>) (n', \<tau>') \<longleftrightarrow> n' = n \<and> \<tau>' = None"
| "autolock (AppDeactivate now) out (n, \<tau>) (n', \<tau>') \<longleftrightarrow> n' = n \<and> \<tau>' = extended n now \<tau>"
| "autolock (AppResume now) out (n, \<tau>) (n', \<tau>') \<longleftrightarrow> n' = n \<and> \<tau>' = extended n now (expired now \<tau>)"
| "autolock (AppTouch now) out (n, \<tau>) (n', \<tau>') \<longleftrightarrow> n' = n \<and> \<tau>' = extended n now \<tau>"
| "autolock (AppExpire now) out (n, \<tau>) (n', \<tau>') \<longleftrightarrow> n' = n \<and> \<tau>' = expired now \<tau>"
| "autolock (AppChangePassword cur new now) out (n, \<tau>) (n', \<tau>') \<longleftrightarrow> n' = n \<and>
     (if out = Inr () then \<tau> \<noteq> None \<and> \<tau>' = extended n now \<tau> else \<tau>' \<in> {\<tau>, None})"
| "autolock (AppNavigate screen) out (n, \<tau>) (n', \<tau>') \<longleftrightarrow> n' = n \<and> \<tau>' = \<tau>"
| "autolock (AppOpenEntry eid) out (n, \<tau>) (n', \<tau>') \<longleftrightarrow> n' = n \<and> \<tau>' = \<tau>"
| "autolock (AppBeginEdit e) out (n, \<tau>) (n', \<tau>') \<longleftrightarrow> n' = n \<and> \<tau>' = \<tau>"
| "autolock (AppSaveEntry title secret description now) out (n, \<tau>) (n', \<tau>') \<longleftrightarrow> n' = n \<and>
     (if out = Inr () then \<tau> \<noteq> None \<and> \<tau>' = \<tau> else \<tau>' \<in> {\<tau>, None})"
| "autolock (AppDeleteSelected now) out (n, \<tau>) (n', \<tau>') \<longleftrightarrow> n' = n \<and>
     (if out = Inr () then \<tau> \<noteq> None \<and> \<tau>' = \<tau> else \<tau>' \<in> {\<tau>, None})"
| "autolock AppDestroy out (n, \<tau>) (n', \<tau>') \<longleftrightarrow> n' = n \<and> \<tau>' = (if out = Inr () then None else \<tau>)"
| "autolock (AppSetTimeout minutes now) out (n, \<tau>) (n', \<tau>') \<longleftrightarrow>
     (if out = Inr () then n' = f64_int minutes \<and> 1 \<le> n' \<and> n' \<le> 1440 \<and> \<tau>' = extended n' now \<tau>
      else n' = n \<and> \<tau>' = \<tau>)"

definition app_abs :: "('s, 't, 'r) app_world \<Rightarrow> int \<times> timer" where
  "app_abs = (\<lambda>(s, t, c, r). (ct_session_timeout_minutes c, timer_of c))"

definition app_world_inv :: "('r, 'z) ui_deps_scheme \<Rightarrow> ('s, 't, 'r) app_world \<Rightarrow> bool" where
  "app_world_inv L = (\<lambda>(s, t, c, r). deps_laws L \<and> ui_laws L \<and> app_inv L c)"

lemma movesD:
  "moves L c c' \<tau> \<Longrightarrow> app_inv L c'" "moves L c c' \<tau> \<Longrightarrow> ct_session_timeout_minutes c' = ct_session_timeout_minutes c"
  "moves L c c' \<tau> \<Longrightarrow> timer_of c' = \<tau>"
  by (simp_all add: moves_def)

lemma started_running: "f64_is_safe_integer now \<Longrightarrow> started n now \<noteq> None"
  by (simp add: started_def)

lemmas command_moves =
  create_moves unlock_moves change_password_moves save_entry_moves delete_selected_moves destroy_moves
  set_timeout_moves navigate_moves open_entry_moves begin_edit_moves

lemma app_step_moves:
  assumes L: "deps_laws L" "ui_laws L" and c: "app_inv L c"
    and step: "app_step L D secure cmd (s, t, c, r) = (out, (s', t', c', r'))"
  shows "app_inv L c'"
    and "autolock cmd out (ct_session_timeout_minutes c, timer_of c) (ct_session_timeout_minutes c', timer_of c')"
proof -
  have "app_inv L c' \<and>
    autolock cmd out (ct_session_timeout_minutes c, timer_of c) (ct_session_timeout_minutes c', timer_of c')"
  proof (cases cmd)
    case (AppCreate pw now activated)
    then have "app_create L D pw now activated (s, c, r) = (out, (s', c', r'))"
      using step by (auto split: prod.splits)
    from create_moves [OF L c this] AppCreate show ?thesis
      using started_running [of activated] by (cases out) (auto dest: movesD)
  next
    case (AppUnlock pw activated)
    then have "app_unlock L D pw activated (s, c, r) = (out, (s', c', r'))"
      using step by (auto split: prod.splits)
    from unlock_moves [OF L(2) c this] AppUnlock show ?thesis
      using started_running [of activated] by (cases out) (auto dest: movesD)
  next
    case AppLock
    with step app_lock_moves [OF c] show ?thesis by (auto dest: movesD)
  next
    case (AppDeactivate now)
    with step touch_moves(1) [OF c] show ?thesis
      by (cases "touch_session now c") (auto simp: deactivate_touch dest: movesD)
  next
    case (AppResume now)
    with step resume_moves [OF c, of now] show ?thesis by (auto dest: movesD)
  next
    case (AppTouch now)
    with step touch_moves(1) [OF c] show ?thesis by (cases "touch_session now c") (auto dest: movesD)
  next
    case (AppExpire now)
    with step expire_moves(1) [OF c] show ?thesis
      by (cases "expire_authentication now c") (auto dest: movesD)
  next
    case (AppChangePassword cur new now)
    then have "app_change_master_password L D cur new now (s, c, r) = (out, (s', c', r'))"
      using step by (auto split: prod.splits)
    from change_password_moves [OF L(1) c this] AppChangePassword show ?thesis
      by (cases out) (auto dest: movesD)
  next
    case (AppNavigate screen)
    with step navigate_moves [OF c] show ?thesis by (auto split: prod.splits dest: movesD)
  next
    case (AppOpenEntry eid)
    with step open_entry_moves [OF c] show ?thesis by (auto split: prod.splits dest: movesD)
  next
    case (AppBeginEdit eid)
    with step begin_edit_moves [OF c] show ?thesis by (auto split: prod.splits dest: movesD)
  next
    case (AppSaveEntry title secret description now)
    then have "app_save_entry L D title secret description now (s, c, r) = (out, (s', c', r'))"
      using step by (auto split: prod.splits)
    from save_entry_moves [OF L c this] AppSaveEntry show ?thesis by (cases out) (auto dest: movesD)
  next
    case (AppDeleteSelected now)
    then have "app_delete_selected L D now (s, c, r) = (out, (s', c', r'))"
      using step by (auto split: prod.splits)
    from delete_selected_moves [OF L c this] AppDeleteSelected show ?thesis
      by (cases out) (auto dest: movesD)
  next
    case AppDestroy
    then have "app_destroy D secure (s, t, c) = (out, (s', t', c'))"
      using step by (auto split: prod.splits)
    from destroy_moves [OF c this] AppDestroy show ?thesis by (cases out) (auto dest: movesD)
  next
    case (AppSetTimeout minutes now)
    then obtain res where "set_session_timeout_minutes minutes now c = (res, c')" "out = ended res"
      using step by (auto split: prod.splits)
    with set_timeout_moves [OF c this(1)] AppSetTimeout c show ?thesis by (cases res) auto
  qed
  then show "app_inv L c'" and "autolock cmd out (ct_session_timeout_minutes c, timer_of c)
      (ct_session_timeout_minutes c', timer_of c')" by blast+
qed

interpretation app: simulation "app_step L D secure" "app_world_inv L" app_abs autolock
  for L :: "('r, 'z) ui_deps_scheme" and D :: "'s device_storage" and secure :: "'t device_storage option"
  by unfold_locales (auto simp: app_world_inv_def app_abs_def dest: app_step_moves)
end
