(* ===== verification/Preferences.thy ===== *)
theory Preferences
  imports Controller
begin

text \<open>
  What the page keeps in \<open>localStorage\<close>: the session timeout of \<open>web/src/session-preferences.js\<close>, with
  the form of \<open>web/app.js\<close> that changes it, and the theme of \<open>web/src/theme.js\<close>. The local storage is
  a device like any other; that the browser may refuse to hand it out, or have none, is a case of
  its own.
\<close>

section \<open>The local storage of the page\<close>

text \<open>What \<open>globalThis.localStorage\<close> evaluates to: it throws, is null or undefined, or is there.\<close>

datatype 's local_storage = Blocked | Absent | Present "'s device_storage"

text \<open>The only error that leaves the functions below, next to those of the timeout check.\<close>

datatype preference_error = Security_error | Invalid_preference app_error

section \<open>The session timeout\<close>

definition SESSION_TIMEOUT_STORAGE_KEY :: key where
  "SESSION_TIMEOUT_STORAGE_KEY = str ''pocket-vault-session-timeout-minutes''"

text \<open>\<open>normalizeSessionTimeoutMinutes\<close> of a text.\<close>

definition normalize_timeout_text :: "rstring \<Rightarrow> app_error + int" where
  "normalize_timeout_text value = normalize_session_timeout_minutes (js_number value)"

text \<open>The default of the parameter is evaluated before the \<open>try\<close> block is entered; the call of
  \<open>getItem\<close> and the check are inside it.\<close>

definition load_session_timeout_minutes ::
  "'s local_storage \<Rightarrow> ('s, preference_error, int) eff" where
  "load_session_timeout_minutes storage s =
     (case storage of
        Blocked \<Rightarrow> (Inl Security_error, s)
      | Absent \<Rightarrow> (Inr DEFAULT_SESSION_TIMEOUT_MINUTES, s)
      | Present D \<Rightarrow>
          (case ds_get D SESSION_TIMEOUT_STORAGE_KEY s of
             (Inr (Some stored), s') \<Rightarrow>
               (Inr (case normalize_timeout_text stored of
                  Inl _ \<Rightarrow> DEFAULT_SESSION_TIMEOUT_MINUTES | Inr minutes \<Rightarrow> minutes), s')
           | (_, s') \<Rightarrow> (Inr DEFAULT_SESSION_TIMEOUT_MINUTES, s')))"

text \<open>On a number; a failing \<open>setItem\<close> is swallowed.\<close>

definition save_session_timeout_minutes ::
  "'s local_storage \<Rightarrow> f64 \<Rightarrow> ('s, preference_error, int) eff" where
  "save_session_timeout_minutes storage minutes s =
     (case storage of
        Blocked \<Rightarrow> (Inl Security_error, s)
      | _ \<Rightarrow>
          (case normalize_session_timeout_minutes minutes of
             Inl e \<Rightarrow> (Inl (Invalid_preference e), s)
           | Inr normalized \<Rightarrow>
               (Inr normalized,
                case storage of
                  Present D \<Rightarrow> snd (ds_set D SESSION_TIMEOUT_STORAGE_KEY (decimal (nat normalized)) s)
                | _ \<Rightarrow> s)))"

text \<open>\<open>applySessionTimeout\<close> of the page, on the text of the form if it has one: whether it was
  accepted. \<open>Number(undefined)\<close> is no number.\<close>

definition apply_session_timeout ::
  "'s local_storage \<Rightarrow> rstring option \<Rightarrow> f64 \<Rightarrow> ('s \<times> controller, preference_error, bool) eff" where
  "apply_session_timeout storage value now = (\<lambda>(s, c).
     let minutes = (case value of None \<Rightarrow> f64_nan | Some text \<Rightarrow> js_number text) in
     if \<not> f64_is_integer minutes
        \<or> f64_int minutes < MIN_SESSION_TIMEOUT_MINUTES \<or> f64_int minutes > MAX_SESSION_TIMEOUT_MINUTES
     then (Inr False, (s, c))
     else
       (case set_session_timeout_minutes minutes now c of
          (Inl e, c') \<Rightarrow> (Inl (Invalid_preference e), (s, c'))
        | (Inr _, c') \<Rightarrow>
            (case save_session_timeout_minutes storage minutes s of
               (Inl e, s') \<Rightarrow> (Inl e, (s', c'))
             | (Inr _, s') \<Rightarrow> (Inr True, (s', c')))))"

text \<open>\<open>new VaultAppController({ sessionTimeoutMinutes: loadSessionTimeoutMinutes() })\<close> of \<open>boot\<close>.\<close>

definition boot_controller :: "'s local_storage \<Rightarrow> ('s, preference_error, controller) eff" where
  "boot_controller storage =
     bindE (load_session_timeout_minutes storage) (\<lambda>minutes.
     lift (map_err Invalid_preference (controller_new (f64_of_nat (nat minutes)))))"

section \<open>The theme\<close>

datatype theme = Light | Dark

definition THEME_STORAGE_KEY :: key where
  "THEME_STORAGE_KEY = str ''pocket-vault-theme''"

fun theme_text :: "theme \<Rightarrow> rstring" where
  "theme_text Light = str ''light''"
| "theme_text Dark = str ''dark''"

text \<open>\<open>SUPPORTED_THEMES.has(value)\<close>, with the theme that it is.\<close>

definition supported_theme :: "rstring \<Rightarrow> theme option" where
  "supported_theme value =
     (if value = str ''light'' then Some Light else if value = str ''dark'' then Some Dark else None)"

text \<open>The variables of the module, and the theme that the document shows. \<open>th_query\<close> says whether there
  is a media query with a listener on it.\<close>

record theme_state =
  th_current :: theme
  th_manual :: bool
  th_query :: bool
  th_shown :: theme

definition read_stored_theme :: "'s local_storage \<Rightarrow> 's \<Rightarrow> theme option \<times> 's" where
  "read_stored_theme storage s =
     (case storage of
        Present D \<Rightarrow>
          (case ds_get D THEME_STORAGE_KEY s of
             (Inr (Some value), s') \<Rightarrow> (supported_theme value, s')
           | (_, s') \<Rightarrow> (None, s'))
      | _ \<Rightarrow> (None, s))"

definition write_stored_theme :: "'s local_storage \<Rightarrow> theme \<Rightarrow> 's \<Rightarrow> 's" where
  "write_stored_theme storage theme s =
     (case storage of
        Present D \<Rightarrow> snd (ds_set D THEME_STORAGE_KEY (theme_text theme) s)
      | _ \<Rightarrow> s)"

text \<open>The query of the system theme is missing or tells whether the system is dark.\<close>

definition theme_from_query :: "bool option \<Rightarrow> theme" where
  "theme_from_query query = (if query = Some True then Dark else Light)"

definition apply_theme :: "theme_state \<Rightarrow> theme_state" where
  "apply_theme th = th\<lparr>th_shown := th_current th\<rparr>"

definition initialize_theme :: "'s local_storage \<Rightarrow> bool option \<Rightarrow> 's \<Rightarrow> theme_state \<times> 's" where
  "initialize_theme storage query s =
     (case read_stored_theme storage s of
        (stored, s') \<Rightarrow>
          let current = (case stored of Some theme \<Rightarrow> theme | None \<Rightarrow> theme_from_query query) in
          (apply_theme \<lparr>th_current = current, th_manual = (stored \<noteq> None), th_query = (query \<noteq> None),
             th_shown = Light\<rparr>, s'))"

text \<open>The listener on the media query.\<close>

definition system_theme_changed :: "bool \<Rightarrow> theme_state \<Rightarrow> theme_state" where
  "system_theme_changed dark th =
     (if \<not> th_query th \<or> th_manual th then th
      else apply_theme (th\<lparr>th_current := (if dark then Dark else Light)\<rparr>))"

definition set_theme ::
  "'s local_storage \<Rightarrow> rstring \<Rightarrow> bool \<Rightarrow> theme_state \<times> 's \<Rightarrow> theme_state \<times> 's" where
  "set_theme storage theme persist = (\<lambda>(th, s).
     case supported_theme theme of
       None \<Rightarrow> (th, s)
     | Some current \<Rightarrow>
         let th' = th\<lparr>th_current := current\<rparr> in
         if persist
         then (apply_theme (th'\<lparr>th_manual := True\<rparr>), write_stored_theme storage current s)
         else (apply_theme th', s))"

definition toggle_theme :: "'s local_storage \<Rightarrow> bool \<Rightarrow> theme_state \<times> 's \<Rightarrow> theme_state \<times> 's" where
  "toggle_theme storage persist = (\<lambda>(th, s).
     set_theme storage (theme_text (if th_current th = Dark then Light else Dark)) persist (th, s))"

end
