(* ===== verification/App_Shell.thy ===== *)
theory App_Shell
  imports Controller_Machine Preferences
begin

text \<open>
  The page around the controller, as far as it keeps the promise of the automatic lock: the handlers
  of \<open>web/app.js\<close> for activity, for leaving and returning to the application, for the form of the
  timeout and for the actions of the screens, and the timer of the browser that they arm
  (\<open>scheduleAuthenticationExpiry\<close>). Every value of \<open>Date.now()\<close> is part of the event, in the order of
  the calls. A handler runs to its end; \<open>Interleaving\<close> has what happens at an await.
\<close>

section \<open>The timer of the browser\<close>

text \<open>The delay of \<open>setTimeout\<close> is converted to a signed number of 32 bits; a negative one is zero.\<close>

definition timeout_ms :: "int \<Rightarrow> int" where
  "timeout_ms delay = max 0 (sint (of_int delay :: 32 word))"

text \<open>\<open>appInactive\<close>, and the pending \<open>authenticationTimer\<close>: the time of the call and the delay.\<close>

record shell =
  sh_inactive :: bool
  sh_timer :: "(int \<times> int) option"

definition shell_start :: shell where
  "shell_start = \<lparr>sh_inactive = False, sh_timer = None\<rparr>"

definition schedule_authentication_expiry :: "f64 \<Rightarrow> controller \<Rightarrow> shell \<Rightarrow> shell" where
  "schedule_authentication_expiry now c sh =
     sh\<lparr>sh_timer := map_option
       (\<lambda>deadline. (f64_int now, timeout_ms (max 0 (f64_add_int deadline (- f64_int now)))))
       (authentication_deadline c)\<rparr>"

section \<open>Handlers\<close>

text \<open>The actions of the screens, each one method of the controller.\<close>

fun screen_action :: "app_command \<Rightarrow> bool" where
  "screen_action (AppDeactivate now) \<longleftrightarrow> False"
| "screen_action (AppResume now) \<longleftrightarrow> False"
| "screen_action (AppTouch now) \<longleftrightarrow> False"
| "screen_action (AppExpire now) \<longleftrightarrow> False"
| "screen_action (AppSetTimeout minutes now) \<longleftrightarrow> False"
| "screen_action _ \<longleftrightarrow> True"

datatype page_event =
    Activity f64 f64
  | Deactivated f64 f64
  | Activated bool f64 f64
  | Timer f64 f64
  | Timeout_form "rstring option" f64 f64
  | Action app_command f64

type_synonym ('s, 't, 'r, 'p) page_world = "('s, 't, 'r) app_world \<times> 'p \<times> shell"

text \<open>A method that ends well has called \<open>setState\<close> last, and so has one that has locked an open
  session; the listener of the page then arms the timer.\<close>

definition notified :: "'e + 'a \<Rightarrow> controller \<Rightarrow> controller \<Rightarrow> bool" where
  "notified out c c' \<longleftrightarrow> is_ok out \<or> ct_session c \<noteq> None \<and> ct_session c' = None"

fun page_event_step ::
  "('r, 'z) ui_deps_scheme \<Rightarrow> 's device_storage \<Rightarrow> 't device_storage option \<Rightarrow> 'p local_storage
     \<Rightarrow> page_event \<Rightarrow> ('s, 't, 'r, 'p) page_world \<Rightarrow> ('s, 't, 'r, 'p) page_world" where
  "page_event_step L D secure local (Activity now later) ((s, t, c, r), p, sh) =
     (if ct_session c = None \<or> sh_inactive sh then ((s, t, c, r), p, sh)
      else
        let c' = snd (touch_session now c)
        in ((s, t, c', r), p, schedule_authentication_expiry later c' sh))"
| "page_event_step L D secure local (Deactivated now later) ((s, t, c, r), p, sh) =
     (if sh_inactive sh then ((s, t, c, r), p, sh)
      else
        let c' = snd (deactivate now c)
        in ((s, t, c', r), p, schedule_authentication_expiry later c' (sh\<lparr>sh_inactive := True\<rparr>)))"
| "page_event_step L D secure local (Activated hidden now later) ((s, t, c, r), p, sh) =
     (if hidden then ((s, t, c, r), p, sh)
      else
        let c' = resume now c
        in ((s, t, c', r), p, schedule_authentication_expiry later c' (sh\<lparr>sh_inactive := False\<rparr>)))"
| "page_event_step L D secure local (Timer now later) ((s, t, c, r), p, sh) =
     (if sh_timer sh = None then ((s, t, c, r), p, sh)
      else
        (case expire_authentication now c of
           (gone, c') \<Rightarrow>
             ((s, t, c', r), p, schedule_authentication_expiry later c' (sh\<lparr>sh_timer := None\<rparr>))))"
| "page_event_step L D secure local (Timeout_form value now later) ((s, t, c, r), p, sh) =
     (case apply_session_timeout local value now (p, c) of
        (res, (p', c')) \<Rightarrow>
          ((s, t, c', r), p',
           if res = Inr True \<or> ct_session c \<noteq> None \<and> ct_session c' = None
           then schedule_authentication_expiry later c' sh else sh))"
| "page_event_step L D secure local (Action cmd later) ((s, t, c, r), p, sh) =
     (if \<not> screen_action cmd then ((s, t, c, r), p, sh)
      else
        (case app_step L D secure cmd (s, t, c, r) of
           (out, (s', t', c', r')) \<Rightarrow>
             ((s', t', c', r'), p,
              if notified out c c' then schedule_authentication_expiry later c' sh else sh)))"

definition page_run ::
  "('r, 'z) ui_deps_scheme \<Rightarrow> 's device_storage \<Rightarrow> 't device_storage option \<Rightarrow> 'p local_storage
     \<Rightarrow> page_event list \<Rightarrow> ('s, 't, 'r, 'p) page_world \<Rightarrow> ('s, 't, 'r, 'p) page_world" where
  "page_run L D secure local evs x = fold (page_event_step L D secure local) evs x"

section \<open>An open session has a timer\<close>

definition armed :: "controller \<Rightarrow> shell \<Rightarrow> bool" where
  "armed c sh \<longleftrightarrow>
     (case authentication_deadline c of
        None \<Rightarrow> sh_timer sh = None
      | Some e \<Rightarrow> \<exists>t0. sh_timer sh = Some (t0, timeout_ms (max 0 (f64_add_int e (- t0)))))"

definition page_inv :: "('r, 'z) ui_deps_scheme \<Rightarrow> ('s, 't, 'r, 'p) page_world \<Rightarrow> bool" where
  "page_inv L = (\<lambda>((s, t, c, r), p, sh). app_inv L c \<and> armed c sh)"

lemma armed_schedule [simp]: "armed c (schedule_authentication_expiry now c sh)"
  by (auto simp: armed_def schedule_authentication_expiry_def split: option.splits)

lemma deadline_timer: "app_inv L c \<Longrightarrow> authentication_deadline c = map_option snd (timer_of c)"
  by (cases "ct_session c") (auto simp: authentication_deadline_def timer_of_def elim: timer_running)

lemma armed_same_timer:
  assumes "app_inv L c" and "app_inv L c'" and "timer_of c' = timer_of c" and "armed c sh"
  shows "armed c' sh"
  using assms by (simp add: armed_def deadline_timer)

text \<open>Form of the timeout: the controller is well formed afterwards, and unless the timeout was
  accepted it is as before.\<close>

lemma apply_session_timeout_cases:
  assumes "local \<noteq> Blocked" and "apply_session_timeout local value now (p, c) = (res, (p', c'))"
  obtains "res = Inr False" and "p' = p" and "c' = c"
  | minutes n where "res = Inr True" and "set_session_timeout_minutes minutes now c = (Inr n, c')"
    and "minutes = (case value of None \<Rightarrow> f64_nan | Some text \<Rightarrow> js_number text)"
    and "save_session_timeout_minutes local minutes p = (Inr n, p')"
proof -
  define minutes where "minutes = (case value of None \<Rightarrow> f64_nan | Some text \<Rightarrow> js_number text)"
  show ?thesis
  proof (cases "normalize_session_timeout_minutes minutes")
    case (Inl e)
    with assms(2) that(1) show ?thesis
      by (auto simp: apply_session_timeout_def normalize_session_timeout_minutes_def minutes_def Let_def
          split: if_splits)
  next
    case (Inr n)
    then have ok: "\<not> (\<not> f64_is_integer minutes \<or> f64_int minutes < MIN_SESSION_TIMEOUT_MINUTES
        \<or> f64_int minutes > MAX_SESSION_TIMEOUT_MINUTES)"
      by (auto simp: normalize_session_timeout_minutes_def split: if_splits)
    obtain p1 where save: "save_session_timeout_minutes local minutes p = (Inr n, p1)"
      using Inr assms(1) by (cases local) (auto simp: save_session_timeout_minutes_def)
    obtain c1 where set: "set_session_timeout_minutes minutes now c = (Inr n, c1)"
      using Inr by (simp add: set_session_timeout_minutes_def)
    have "res = Inr True" "p' = p1" "c' = c1"
      using assms(2) ok by (simp_all add: apply_session_timeout_def save set flip: minutes_def)
    with save set minutes_def that(2) show ?thesis by blast
  qed
qed

lemma action_failed:
  assumes "autolock cmd (Inl e) (n, \<tau>) (n', \<tau>')" and "screen_action cmd"
  shows "\<tau>' = \<tau> \<or> \<tau>' = None"
  using assms by (cases cmd) (auto split: if_splits)

lemma page_event_step_inv:
  assumes L: "deps_laws L" "ui_laws L" and there: "local \<noteq> Blocked"
    and inv: "page_inv L ((s, t, c, r), p, sh)"
  shows "page_inv L (page_event_step L D secure local ev ((s, t, c, r), p, sh))"
proof -
  have c: "app_inv L c" and a: "armed c sh" using inv by (simp_all add: page_inv_def)
  have touch: "app_inv L (snd (touch_session now c))" for now
    using touch_moves(1) [OF c, of now] by (simp add: moves_def prod_eq_iff)
  show ?thesis
  proof (cases ev)
    case (Activity now later)
    with c a touch show ?thesis by (simp add: page_inv_def Let_def)
  next
    case (Deactivated now later)
    with c a touch show ?thesis by (simp add: page_inv_def Let_def deactivate_touch)
  next
    case (Activated hidden now later)
    with c a resume_moves [OF c, of now] show ?thesis by (simp add: page_inv_def Let_def moves_def)
  next
    case (Timer now later)
    obtain b c' where e: "expire_authentication now c = (b, c')" by fastforce
    with Timer c a expire_moves(1) [OF c e] show ?thesis by (simp add: page_inv_def moves_def)
  next
    case (Timeout_form entered now later)
    obtain res p' c' where run: "apply_session_timeout local entered now (p, c) = (res, (p', c'))"
      by (metis prod_cases3)
    from there run show ?thesis
    proof (cases rule: apply_session_timeout_cases)
      case 1
      with Timeout_form run c a show ?thesis by (simp add: page_inv_def)
    next
      case (2 minutes n)
      with set_timeout_moves [OF c 2(2)] Timeout_form run show ?thesis by (simp add: page_inv_def)
    qed
  next
    case (Action cmd later)
    obtain out s' t' c' r' where run: "app_step L D secure cmd (s, t, c, r) = (out, (s', t', c', r'))"
      by (metis prod_cases5)
    note step = app_step_moves [OF L c run]
    have "armed c' sh" if act: "screen_action cmd" and quiet: "\<not> notified out c c'"
    proof -
      obtain e where "out = Inl e" using quiet by (cases out) (auto simp: notified_def)
      then have "timer_of c' = timer_of c \<or> timer_of c' = None"
        using action_failed step(2) act by metis
      moreover have "timer_of c' = None \<Longrightarrow> timer_of c = None"
        using quiet timer_stopped [OF c] timer_stopped [OF step(1)] by (auto simp: notified_def)
      ultimately have "timer_of c' = timer_of c" by auto
      then show ?thesis by (rule armed_same_timer [OF c step(1) _ a])
    qed
    with Action run c a step(1) show ?thesis by (simp add: page_inv_def)
  qed
qed

lemma page_run_inv:
  assumes "deps_laws L" and "ui_laws L" and "local \<noteq> Blocked" and "page_inv L x"
  shows "page_inv L (page_run L D secure local evs x)"
  using assms(4)
proof (induction evs arbitrary: x)
  case (Cons ev evs)
  obtain s t c r p sh where x: "x = ((s, t, c, r), p, sh)" by (metis prod.collapse)
  have "page_inv L (page_event_step L D secure local ev x)"
    unfolding x by (rule page_event_step_inv [OF assms(1-3) Cons.prems [unfolded x]])
  from Cons.IH [OF this] show ?case by (simp add: page_run_def)
qed (simp add: page_run_def)

section \<open>What an armed timer does\<close>

lemma timeout_ms_small: "0 \<le> d \<Longrightarrow> d < 2 ^ 31 \<Longrightarrow> timeout_ms d = d"
  by (simp add: timeout_ms_def signed_of_int signed_take_bit_int_eq_self)

lemma armed_delay:
  assumes "app_inv L c" and "armed c sh" and "authentication_deadline c = Some e"
    and "ct_last_session_timestamp c = Some l" and "sh_timer sh = Some (t0, delay)" and "l \<le> t0"
  shows "delay = max 0 (e - t0)" and "delay \<le> 86400001"
proof -
  have "timer_of c = Some (l, e)"
    using assms(3,4) by (auto simp: timer_of_def authentication_deadline_def split: if_splits)
  with assms(1) have e: "e \<le> l + 86400001"
    by (auto simp: app_inv_def timer_ok_def timer_of_def split: option.splits if_splits)
  have "max 0 (f64_add_int e (- t0)) = max 0 (e - t0)"
  proof (cases "t0 \<le> e")
    case True
    with e assms(6) show ?thesis by (simp add: f64_add_int_exact)
  next
    case False
    then show ?thesis using f64_add_int_bounds(2) [of e "- t0"] by simp
  qed
  then have "delay = timeout_ms (max 0 (e - t0))"
    using assms(2,3,5) by (simp add: armed_def)
  also have "\<dots> = max 0 (e - t0)" using e assms(6) by (intro timeout_ms_small) simp_all
  finally show "delay = max 0 (e - t0)" .
  then show "delay \<le> 86400001" using e assms(6) by simp
qed

lemma late_timer_locks:
  assumes "app_inv L c" and "authentication_deadline c = Some e" and "e \<le> f64_int now \<or> \<not> f64_is_safe_integer now"
    and "sh_timer sh \<noteq> None"
    and "page_event_step L D secure local (Timer now later) ((s, t, c, r), p, sh) = ((s', t', c', r'), p', sh')"
  shows "ct_session c' = None" and "sh_timer sh' = None"
proof -
  obtain b c1 where x: "expire_authentication now c = (b, c1)" by fastforce
  then have c': "c' = c1" and sh': "sh' = schedule_authentication_expiry later c1 (sh\<lparr>sh_timer := None\<rparr>)"
    using assms(4,5) by auto
  obtain l where "timer_of c = Some (l, e)"
    using assms(2) deadline_timer [OF assms(1)] by auto
  then have "expired now (timer_of c) = None"
    using assms(3) by (auto simp: expired_def observed_def)
  then have "app_inv L c'" "timer_of c' = None"
    using expire_moves(1) [OF assms(1) x] by (simp_all add: c' moves_def)
  then show 1: "ct_session c' = None" using timer_stopped by blast
  show "sh_timer sh' = None"
    using 1 by (simp add: sh' c' schedule_authentication_expiry_def authentication_deadline_def)
qed

end
