(* ===== verification/Adapter.thy ===== *)
theory Adapter
  imports Storage
begin

text \<open>
  The storage adapter of \<open>web/src/storage.js\<close>: it turns the callback storage of the host into the
  storage interface of the client. A read waits for the first of callback, exception and timer; a
  write or removal is started and then polled for until the read-back is the wanted one, the
  callback has reported a failure or the deadline has passed. The host's storage is a parameter,
  and \<open>web/src/preview-runtime.js\<close> is one that the program ships.
\<close>

section \<open>Errors\<close>

record telegram_storage_error =
  te_code :: string
  te_operation :: string
  te_native_code :: "rstring option"

datatype adapter_error = Telegram telegram_storage_error | Type_error

definition telegram_error :: "string \<Rightarrow> string \<Rightarrow> telegram_storage_error" where
  "telegram_error code operation =
     \<lparr>te_code = code, te_operation = operation, te_native_code = None\<rparr>"

text \<open>An error that the host passes to a callback: its \<open>error\<close> and \<open>message\<close> properties as texts,
  where they are neither null nor undefined, and the text of the error itself.\<close>

record callback_error =
  ce_error :: "rstring option"
  ce_message :: "rstring option"
  ce_text :: rstring

definition native_code :: "callback_error \<Rightarrow> rstring" where
  "native_code e =
     (case ce_error e of
        Some text \<Rightarrow> text
      | None \<Rightarrow> (case ce_message e of Some text \<Rightarrow> text | None \<Rightarrow> ce_text e))"

text \<open>The part of \<open>toUpperCase\<close> that can produce a letter of \<open>UNSUPPORTED\<close>: the ASCII letters and
  the long s.\<close>

definition upper_char :: "nat \<Rightarrow> nat" where
  "upper_char c = (if 97 \<le> c \<and> c \<le> 122 then c - 32 else if c = 383 then 83 else c)"

definition normalize_callback_error :: "callback_error \<Rightarrow> string \<Rightarrow> telegram_storage_error" where
  "normalize_callback_error error operation =
     \<lparr>te_code = (if map upper_char (native_code error) = str ''UNSUPPORTED''
        then ''unsupported_storage'' else ''callback_error''),
      te_operation = operation, te_native_code = Some (native_code error)\<rparr>"

section \<open>The storage of the host\<close>

text \<open>
  What the program can see of the host. \<open>cs_has\<close> says that the storage is there and has a method.
  A read is followed until its timer fires: \<open>event\<close> lists what happens to it before that. A
  mutation either throws or not. Its callback may be called at any later time, so every operation
  also delivers the calls of the last mutation's callback that happen while it runs; \<open>Report\<close>
  holds the error and whether the confirmation was \<open>false\<close>.
\<close>

datatype js_item = Js_null | Js_string rstring | Js_other

datatype event = Answer "callback_error option" js_item | Call_threw

datatype report = Report "callback_error option" bool

record 'w callback_store =
  cs_has :: "string \<Rightarrow> bool"
  cs_get_item :: "key \<Rightarrow> 'w \<Rightarrow> (event list \<times> report list) \<times> 'w"
  cs_restore_item :: "key \<Rightarrow> 'w \<Rightarrow> (event list \<times> report list) \<times> 'w"
  cs_set_item :: "key \<Rightarrow> rstring \<Rightarrow> 'w \<Rightarrow> (bool \<times> report list) \<times> 'w"
  cs_remove_item :: "key \<Rightarrow> 'w \<Rightarrow> (bool \<times> report list) \<times> 'w"
  cs_delay :: "int \<Rightarrow> 'w \<Rightarrow> report list \<times> 'w"
  cs_now :: "'w \<Rightarrow> int"

section \<open>Reading\<close>

record adapter =
  ad_kind :: string
  ad_timeout_ms :: int

definition DEFAULT_TIMEOUT_MS :: int where
  "DEFAULT_TIMEOUT_MS = 10000"

definition VERIFY_INTERVAL_MS :: int where
  "VERIFY_INTERVAL_MS = 50"

definition telegram_device_adapter :: adapter where
  "telegram_device_adapter = \<lparr>ad_kind = ''device'', ad_timeout_ms = DEFAULT_TIMEOUT_MS\<rparr>"

definition telegram_secure_adapter :: adapter where
  "telegram_secure_adapter = \<lparr>ad_kind = ''secure'', ad_timeout_ms = DEFAULT_TIMEOUT_MS\<rparr>"

definition operation :: "adapter \<Rightarrow> string \<Rightarrow> string" where
  "operation a method = ad_kind a @ ''.'' @ method"

text \<open>The promise of \<open>invoke\<close>: the first event settles it, every later one finds it settled.\<close>

fun promise_step ::
  "string \<Rightarrow> (telegram_storage_error + js_item) option \<Rightarrow> event
     \<Rightarrow> (telegram_storage_error + js_item) option" where
  "promise_step op (Some settled) ev = Some settled"
| "promise_step op None (Answer (Some error) x) = Some (Inl (normalize_callback_error error op))"
| "promise_step op None (Answer None x) = Some (Inr x)"
| "promise_step op None Call_threw = Some (Inl (telegram_error ''call_failed'' op))"

text \<open>The first event always settles it, and only an answer without an error settles it well.\<close>

fun_cases promise_answerE: "promise_step op None ev = Some (Inr x)"

lemma promise_step_settles: "\<exists>r. promise_step op None ev = Some r"
  by (cases "(op, None :: (telegram_storage_error + js_item) option, ev)" rule: promise_step.cases) simp_all

definition invoke :: "string \<Rightarrow> event list \<Rightarrow> telegram_storage_error + js_item" where
  "invoke op evs =
     (case foldl (promise_step op) None evs of
        Some settled \<Rightarrow> settled
      | None \<Rightarrow> Inl (telegram_error ''timeout'' op))"

fun item_text :: "string \<Rightarrow> js_item \<Rightarrow> telegram_storage_error + rstring option" where
  "item_text op Js_null = Inr None"
| "item_text op (Js_string text) = Inr (Some text)"
| "item_text op Js_other = Inl (telegram_error ''invalid_response'' op)"

definition reading ::
  "'w callback_store \<Rightarrow> adapter \<Rightarrow> key \<Rightarrow> 'w
     \<Rightarrow> ((adapter_error + rstring option) \<times> report list) \<times> 'w" where
  "reading T a key w =
     (if key = [] then ((Inl Type_error, []), w)
      else if \<not> cs_has T ''getItem''
      then ((Inl (Telegram (telegram_error ''unsupported_storage'' (operation a ''getItem''))), []), w)
      else
        (case cs_get_item T key w of
           ((evs, reports), w') \<Rightarrow>
             ((map_err Telegram (and_then (invoke (operation a ''getItem'') evs)
                 (item_text (operation a ''getItem''))), reports), w')))"

definition get_existing ::
  "'w callback_store \<Rightarrow> adapter \<Rightarrow> key \<Rightarrow> ('w, adapter_error, rstring option) eff" where
  "get_existing T a key w = (case reading T a key w of ((res, _), w') \<Rightarrow> (res, w'))"

definition restore_explicitly ::
  "'w callback_store \<Rightarrow> adapter \<Rightarrow> key \<Rightarrow> ('w, adapter_error, rstring option) eff" where
  "restore_explicitly T a key w =
     (let op = operation a ''restoreItem'' in
      if key = [] then (Inl Type_error, w)
      else if ad_kind a \<noteq> ''secure''
      then (Inl (Telegram (telegram_error ''unsupported_operation'' op)), w)
      else if \<not> cs_has T ''restoreItem''
      then (Inl (Telegram (telegram_error ''unsupported_storage'' op)), w)
      else
        (case cs_restore_item T key w of
           ((evs, _), w') \<Rightarrow> (map_err Telegram (and_then (invoke op evs) (item_text op)), w')))"

section \<open>Writing and removing\<close>

text \<open>The callback of a mutation assigns \<open>callbackFailure\<close>; the last assignment stays.\<close>

fun note_report ::
  "string \<Rightarrow> string \<Rightarrow> telegram_storage_error option \<Rightarrow> report \<Rightarrow> telegram_storage_error option" where
  "note_report op code failure (Report (Some error) refused) = Some (normalize_callback_error error op)"
| "note_report op code failure (Report None True) = Some (telegram_error code op)"
| "note_report op code failure (Report None False) = failure"

text \<open>The loop of \<open>mutateAndVerify\<close>; \<open>expected\<close> is what \<open>verify\<close> compares the read-back with. The
  result \<open>None\<close> is a loop that never ends.\<close>

partial_function (option) poll ::
  "'w callback_store \<Rightarrow> adapter \<Rightarrow> key \<Rightarrow> rstring option \<Rightarrow> string \<Rightarrow> string \<Rightarrow> int
     \<Rightarrow> telegram_storage_error option \<Rightarrow> 'w \<Rightarrow> ((adapter_error + unit) \<times> 'w) option" where
  "poll T a key expected op code deadline failure w =
     (case reading T a key w of
        ((Inl e, reports), w1) \<Rightarrow> Some (Inl e, w1)
      | ((Inr got, reports), w1) \<Rightarrow>
          if got = expected then Some (Inr (), w1)
          else
            (case foldl (note_report op code) failure reports of
               Some e \<Rightarrow> Some (Inl (Telegram e), w1)
             | None \<Rightarrow>
                 (let remaining = deadline - cs_now T w1 in
                  if remaining \<le> 0 then Some (Inl (Telegram (telegram_error ''timeout'' op)), w1)
                  else
                    (case cs_delay T (min VERIFY_INTERVAL_MS remaining) w1 of
                       (reports, w2) \<Rightarrow>
                         poll T a key expected op code deadline
                           (foldl (note_report op code) None reports) w2))))"

definition mutate_and_verify ::
  "'w callback_store \<Rightarrow> adapter \<Rightarrow> string \<Rightarrow> ('w \<Rightarrow> (bool \<times> report list) \<times> 'w) \<Rightarrow> string \<Rightarrow> key
     \<Rightarrow> rstring option \<Rightarrow> 'w \<Rightarrow> ((adapter_error + unit) \<times> 'w) option" where
  "mutate_and_verify T a method start code key expected w =
     (let op = operation a method in
      if \<not> cs_has T method
      then Some (Inl (Telegram (telegram_error ''unsupported_storage'' op)), w)
      else
        (case start w of
           ((threw, reports), w1) \<Rightarrow>
             if threw then Some (Inl (Telegram (telegram_error ''call_failed'' op)), w1)
             else poll T a key expected op code (cs_now T w1 + ad_timeout_ms a)
                    (foldl (note_report op code) None reports) w1))"

definition set_verified ::
  "'w callback_store \<Rightarrow> adapter \<Rightarrow> key \<Rightarrow> rstring \<Rightarrow> 'w \<Rightarrow> ((adapter_error + unit) \<times> 'w) option" where
  "set_verified T a key value w =
     (if key = [] then Some (Inl Type_error, w)
      else mutate_and_verify T a ''setItem'' (cs_set_item T key value) ''write_not_confirmed''
             key (Some value) w)"

definition remove_verified ::
  "'w callback_store \<Rightarrow> adapter \<Rightarrow> key \<Rightarrow> 'w \<Rightarrow> ((adapter_error + unit) \<times> 'w) option" where
  "remove_verified T a key w =
     (if key = [] then Some (Inl Type_error, w)
      else mutate_and_verify T a ''removeItem'' (cs_remove_item T key) ''remove_not_confirmed''
             key None w)"

text \<open>The adapter as the device of the client. A call that never returns is a call after which
  nothing more happens, like a crash, so it counts as a failed one.\<close>

definition settle :: "storage_error \<Rightarrow> ('w \<Rightarrow> ((adapter_error + unit) \<times> 'w) option) \<Rightarrow> ('w, storage_error, unit) eff" where
  "settle e call w = (case call w of None \<Rightarrow> (Inl e, w) | Some (res, w') \<Rightarrow> (map_err (\<lambda>_. e) res, w'))"

definition telegram_storage :: "'w callback_store \<Rightarrow> adapter \<Rightarrow> 'w device_storage" where
  "telegram_storage T a =
     \<lparr>ds_get = (\<lambda>key. map_errE (\<lambda>_. ReadFailed) (get_existing T a key)),
      ds_set = (\<lambda>key value. settle WriteFailed (set_verified T a key value)),
      ds_remove = (\<lambda>key. settle RemoveFailed (remove_verified T a key))\<rparr>"

lemma settle_Inr: "settle e call w = (Inr u, w') \<longleftrightarrow> call w = Some (Inr u, w')"
  by (auto simp: settle_def split: option.splits prod.splits)

lemma settle_Inl: "settle e call w = (Inl d, w') \<Longrightarrow> w' = w \<or> (\<exists>d'. call w = Some (Inl d', w'))"
  by (auto simp: settle_def map_err_Inl split: option.splits prod.splits)

lemma telegram_storage_sel [simp]:
  "ds_get (telegram_storage T a) key = map_errE (\<lambda>_. ReadFailed) (get_existing T a key)"
  "ds_set (telegram_storage T a) key value = settle WriteFailed (set_verified T a key value)"
  "ds_remove (telegram_storage T a) key = settle RemoveFailed (remove_verified T a key)"
  by (simp_all add: telegram_storage_def)

section \<open>What a call does\<close>

text \<open>One round of the loop, as a rule for proofs that follow it to its end.\<close>

lemma poll_Some:
  assumes "poll T a key expected op code deadline failure w = Some (res, w')"
    and stop: "\<And>w e rs w1. reading T a key w = ((Inl e, rs), w1) \<Longrightarrow> P w \<Longrightarrow> Q (Inl e) w1"
    and found: "\<And>w rs w1. reading T a key w = ((Inr expected, rs), w1) \<Longrightarrow> P w \<Longrightarrow> Q (Inr ()) w1"
    and fail: "\<And>w got rs w1 e. reading T a key w = ((Inr got, rs), w1) \<Longrightarrow> P w \<Longrightarrow> Q (Inl e) w1"
    and wait: "\<And>w got rs w1 ms rs' w2. reading T a key w = ((Inr got, rs), w1) \<Longrightarrow>
      cs_delay T ms w1 = (rs', w2) \<Longrightarrow> P w \<Longrightarrow> P w2"
    and "P w"
  shows "Q res w'"
proof -
  let ?P = "\<lambda>T' a' key' expected' op code deadline failure w r. T' = T \<longrightarrow> a' = a \<longrightarrow> key' = key \<longrightarrow>
    expected' = expected \<longrightarrow> P w \<longrightarrow> Q (fst r) (snd r)"
  have "?P T a key expected op code deadline failure w (res, w')"
  proof (rule poll.raw_induct [where P = ?P, OF _ assms(1)], goal_cases)
    case (1 rec T' a' key' expected' op code deadline failure w r)
    note IH = 1(1) and body = 1(2)
    show ?case
    proof (intro impI)
      assume eqs: "T' = T" "a' = a" "key' = key" "expected' = expected" and P: "P w"
      obtain out rs w1 where read: "reading T a key w = ((out, rs), w1)" by (metis surj_pair)
      show "Q (fst r) (snd r)"
      proof (cases out)
        case (Inl e)
        with body stop [OF _ P] read eqs show ?thesis by auto
      next
        case (Inr got)
        then have read': "reading T a key w = ((Inr got, rs), w1)" using read by simp
        show ?thesis
          using body read' eqs found [OF _ P] fail [OF read' P] IH wait [OF read' _ P]
          by (auto simp: Let_def split: if_splits option.splits prod.splits)
      qed
    qed
  qed
  with assms(6) show ?thesis by simp
qed

text \<open>The loop ends when the clock does not run backwards and a pause lasts at least as long as
  asked for.\<close>

definition clock_laws :: "'w callback_store \<Rightarrow> bool" where
  "clock_laws T \<longleftrightarrow>
     (\<forall>key w out w'. cs_get_item T key w = (out, w') \<longrightarrow> cs_now T w \<le> cs_now T w') \<and>
     (\<forall>ms w rs w'. cs_delay T ms w = (rs, w') \<longrightarrow> cs_now T w + ms \<le> cs_now T w')"

lemma reading_now: "clock_laws T \<Longrightarrow> reading T a key w = (out, w') \<Longrightarrow> cs_now T w \<le> cs_now T w'"
  by (auto simp: reading_def clock_laws_def split: if_splits prod.splits)

lemma delay_now: "clock_laws T \<Longrightarrow> cs_delay T ms w = (rs, w') \<Longrightarrow> cs_now T w + ms \<le> cs_now T w'"
  by (simp add: clock_laws_def)

text \<open>
  How long it takes. The program's own timers bound every wait: \<open>invoke\<close> settles when its timer fires,
  \<open>delay\<close> is a timer. On a punctual host a timer fires at most \<open>late\<close> after its time, and the call
  that starts a mutation takes no longer than that.
\<close>

definition punctual :: "'w callback_store \<Rightarrow> int \<Rightarrow> int \<Rightarrow> bool" where
  "punctual T timeout late \<longleftrightarrow>
     (\<forall>key w out w'. cs_get_item T key w = (out, w') \<longrightarrow> cs_now T w' \<le> cs_now T w + timeout + late) \<and>
     (\<forall>ms w rs w'. cs_delay T ms w = (rs, w') \<longrightarrow> cs_now T w' \<le> cs_now T w + ms + late) \<and>
     (\<forall>key value w out w'. cs_set_item T key value w = (out, w') \<longrightarrow> cs_now T w' \<le> cs_now T w + late) \<and>
     (\<forall>key w out w'. cs_remove_item T key w = (out, w') \<longrightarrow> cs_now T w' \<le> cs_now T w + late)"

definition timely :: "'w callback_store \<Rightarrow> adapter \<Rightarrow> int \<Rightarrow> bool" where
  "timely T a late \<longleftrightarrow> 0 \<le> ad_timeout_ms a \<and> punctual T (ad_timeout_ms a) late"

lemma timely_late: "clock_laws T \<Longrightarrow> timely T a late \<Longrightarrow> 0 \<le> late"
  using surj_pair [of "cs_delay T 0 undefined"] by (fastforce simp: timely_def punctual_def clock_laws_def)

lemma timely_reading:
  "clock_laws T \<Longrightarrow> timely T a late \<Longrightarrow> reading T a key w = (out, w') \<Longrightarrow>
     cs_now T w' \<le> cs_now T w + ad_timeout_ms a + late"
  using timely_late [of T a late]
  by (auto simp: reading_def timely_def punctual_def split: if_splits prod.splits)

text \<open>A read starts at most \<open>late\<close> after the deadline, so the loop ends one read later.\<close>

lemma poll_returns:
  assumes "clock_laws T"
  shows "\<exists>res w'. poll T a key expected op code deadline failure w = Some (res, w') \<and>
    (timely T a late \<longrightarrow> cs_now T w \<le> deadline + late \<longrightarrow>
       cs_now T w' \<le> deadline + ad_timeout_ms a + 2 * late)"
proof (induction "nat (deadline - cs_now T w)" arbitrary: failure w rule: less_induct)
  case less
  obtain out rs w1 where read: "reading T a key w = ((out, rs), w1)" by (metis surj_pair)
  have ends: "timely T a late \<longrightarrow> cs_now T w \<le> deadline + late \<longrightarrow>
      cs_now T w1 \<le> deadline + ad_timeout_ms a + 2 * late"
    using timely_reading [OF assms _ read, of late] by auto
  let ?left = "deadline - cs_now T w1"
  obtain rs' w2 where pause: "cs_delay T (min VERIFY_INTERVAL_MS ?left) w1 = (rs', w2)" by fastforce
  have again: "\<exists>res w3. poll T a key expected op code deadline f w2 = Some (res, w3) \<and>
      (timely T a late \<longrightarrow> cs_now T w3 \<le> deadline + ad_timeout_ms a + 2 * late)"
    if left: "0 < ?left" for f
  proof -
    have "0 < min VERIFY_INTERVAL_MS ?left" using left by (simp add: VERIFY_INTERVAL_MS_def)
    then have "nat (deadline - cs_now T w2) < nat (deadline - cs_now T w)"
      using reading_now [OF assms read] delay_now [OF assms pause] left by linarith
    moreover have "timely T a late \<longrightarrow> cs_now T w2 \<le> deadline + late"
      using pause by (fastforce simp: timely_def punctual_def)
    ultimately show ?thesis using less by blast
  qed
  show ?case
  proof (cases "\<exists>got. out = Inr got \<and> got \<noteq> expected \<and> foldl (note_report op code) failure rs = None \<and> 0 < ?left")
    case True
    then show ?thesis
      using again [of "foldl (note_report op code) None rs'"]
      by (subst poll.simps) (auto simp: read pause Let_def)
  next
    case False
    then show ?thesis using ends
      by (subst poll.simps) (auto simp: read Let_def split: sum.splits option.splits)
  qed
qed

lemma mutate_and_verify_returns:
  assumes "clock_laws T"
    and start: "\<And>out w1. timely T a late \<Longrightarrow> start w = (out, w1) \<Longrightarrow> cs_now T w1 \<le> cs_now T w + late"
  shows "\<exists>res w'. mutate_and_verify T a method start code key expected w = Some (res, w') \<and>
    (timely T a late \<longrightarrow> cs_now T w' \<le> cs_now T w + 2 * ad_timeout_ms a + 3 * late)"
proof -
  obtain threw rs w1 where s: "start w = ((threw, rs), w1)" by (metis surj_pair)
  let ?deadline = "cs_now T w1 + ad_timeout_ms a" and ?op = "operation a method"
  obtain res w2 where p: "poll T a key expected ?op code ?deadline (foldl (note_report ?op code) None rs) w1
      = Some (res, w2)"
    and bound: "timely T a late \<longrightarrow> cs_now T w1 \<le> ?deadline + late \<longrightarrow>
      cs_now T w2 \<le> ?deadline + ad_timeout_ms a + 2 * late"
    using poll_returns [OF assms(1)] by metis
  have "timely T a late \<Longrightarrow> 0 \<le> late \<and> 0 \<le> ad_timeout_ms a \<and> cs_now T w1 \<le> cs_now T w + late"
    using timely_late [OF assms(1)] start [OF _ s] by (simp add: timely_def)
  then show ?thesis using p bound
    by (cases "cs_has T method"; cases threw) (auto simp: mutate_and_verify_def Let_def s)
qed

text \<open>A mutation that succeeds ends with a read of the wanted value.\<close>

lemma mutate_and_verify_Inr:
  assumes "mutate_and_verify T a method start code key expected w = Some (Inr (), w')"
  shows "\<exists>u rs. reading T a key u = ((Inr expected, rs), w')"
proof -
  obtain op failure deadline w1 where "poll T a key expected op code deadline failure w1 = Some (Inr (), w')"
    using assms by (auto simp: mutate_and_verify_def Let_def split: if_splits prod.splits)
  then have "(Inr () :: adapter_error + unit) = Inr () \<longrightarrow> (\<exists>u rs. reading T a key u = ((Inr expected, rs), w'))"
    by (rule poll_Some [where P = "\<lambda>_. True" and
        Q = "\<lambda>res w'. res = Inr () \<longrightarrow> (\<exists>u rs. reading T a key u = ((Inr expected, rs), w'))"]) auto
  then show ?thesis by simp
qed

section \<open>The contract of the host\<close>

text \<open>
  What makes the adapter a lawful device: reads and pauses do not change the stored values, a
  mutation happens when it is started or not at all, and a read that is answered first is answered
  from the values. \<open>reliable\<close> describes the states in which every call works.
\<close>

definition item_of :: "rstring option \<Rightarrow> js_item" where
  "item_of x = (case x of None \<Rightarrow> Js_null | Some text \<Rightarrow> Js_string text)"

locale callback_contract =
  fixes T :: "'w callback_store"
    and vals :: "'w \<Rightarrow> key \<Rightarrow> rstring option"
    and reliable :: "'w \<Rightarrow> bool"
  assumes get_vals: "cs_get_item T k w = (got, w') \<Longrightarrow> vals w' = vals w"
    and delay_vals: "cs_delay T ms w = (rs, w') \<Longrightarrow> vals w' = vals w"
    and set_vals: "cs_set_item T k v w = (out, w') \<Longrightarrow> vals w' = vals w \<or> vals w' = (vals w)(k \<mapsto> v)"
    and remove_vals: "cs_remove_item T k w = (out, w') \<Longrightarrow> vals w' = vals w \<or> vals w' = (vals w)(k := None)"
    and get_answer: "cs_get_item T k w = ((Answer None x # evs, rs), w') \<Longrightarrow> x = item_of (vals w k)"
    and reliable_methods: "reliable w \<Longrightarrow> m \<in> {''getItem'', ''setItem'', ''removeItem''} \<Longrightarrow> cs_has T m"
    and reliable_get: "reliable w \<Longrightarrow>
      \<exists>x evs rs w'. cs_get_item T k w = ((Answer None x # evs, rs), w') \<and> reliable w'"
    and reliable_set: "reliable w \<Longrightarrow>
      \<exists>rs w'. cs_set_item T k v w = ((False, rs), w') \<and> vals w' = (vals w)(k \<mapsto> v) \<and> reliable w'"
    and reliable_remove: "reliable w \<Longrightarrow>
      \<exists>rs w'. cs_remove_item T k w = ((False, rs), w') \<and> vals w' = (vals w)(k := None) \<and> reliable w'"
begin

lemma promise_settled: "foldl (promise_step op) (Some r) evs = Some r"
  by (induction evs) simp_all

lemma invoke_answer: "invoke op (Answer None x # evs) = Inr x"
  by (simp add: invoke_def promise_settled)

lemma invoke_first: "promise_step op None ev = Some r \<Longrightarrow> invoke op (ev # evs) = r"
  by (simp add: invoke_def promise_settled)

lemma invoke_Inr: "invoke op evs = Inr x \<Longrightarrow> \<exists>evs'. evs = Answer None x # evs'"
proof (cases evs)
  case (Cons ev evs')
  assume inv: "invoke op evs = Inr x"
  obtain r where r: "promise_step op None ev = Some r" using promise_step_settles by blast
  with inv Cons have "promise_step op None ev = Some (Inr x)" by (simp add: invoke_first)
  then show ?thesis using Cons by (elim promise_answerE) simp
qed (simp add: invoke_def)

lemma item_text_of: "item_text op (item_of x) = Inr x"
  by (cases x) (simp_all add: item_of_def)

lemma reading_vals: "reading T a k w = (out, w') \<Longrightarrow> vals w' = vals w"
  by (auto simp: reading_def split: if_splits prod.splits dest: get_vals)

lemma reading_answer: "reading T a k w = ((Inr x, rs), w') \<Longrightarrow> x = vals w k"
  by (auto simp: reading_def map_err_Inr and_then_Inr item_text_of split: if_splits prod.splits
      dest!: invoke_Inr get_answer)

lemma reliable_reading:
  assumes "reliable w" and "k \<noteq> []"
  shows "\<exists>rs w'. reading T a k w = ((Inr (vals w k), rs), w') \<and> reliable w'"
proof -
  obtain x evs rs w' where get: "cs_get_item T k w = ((Answer None x # evs, rs), w')" "reliable w'"
    using reliable_get [OF assms(1)] by blast
  then have "x = item_of (vals w k)" by (intro get_answer)
  then have "reading T a k w = ((Inr (vals w k), rs), w')"
    using get(1) assms reliable_methods
    by (simp add: reading_def invoke_answer and_then_def map_err_def item_text_of)
  with get(2) show ?thesis by blast
qed

lemma mutate_and_verify_vals:
  assumes "mutate_and_verify T a method start code k x w = Some (res, w')"
    and start: "\<And>out w1. start w = (out, w1) \<Longrightarrow> vals w1 = vals w \<or> vals w1 = (vals w)(k := x)"
  shows "vals w' = vals w \<or> vals w' = (vals w)(k := x)"
proof (cases "start w")
  case (Pair out w1)
  let ?ok = "\<lambda>u. vals u = vals w1"
  have poll: "vals w' = vals w1" if "poll T a k x op code deadline failure w1 = Some (res, w')"
    for op deadline failure
    using that
    by (rule poll_Some [where P = ?ok and Q = "\<lambda>_. ?ok"]) (auto dest!: reading_vals delay_vals)
  show ?thesis
    using assms(1) Pair start [OF Pair]
    by (auto simp: mutate_and_verify_def Let_def split: if_splits prod.splits dest: poll)
qed

lemma mutate_and_verify_done:
  assumes "mutate_and_verify T a method start code k x w = Some (Inr (), w')"
    and "\<And>out w1. start w = (out, w1) \<Longrightarrow> vals w1 = vals w \<or> vals w1 = (vals w)(k := x)"
  shows "vals w' = (vals w)(k := x)"
proof -
  obtain u rs where "reading T a k u = ((Inr x, rs), w')"
    using mutate_and_verify_Inr [OF assms(1)] by blast
  then have "vals w' k = x" using reading_vals reading_answer by metis
  moreover have "vals w' = vals w \<or> vals w' = (vals w)(k := x)"
    by (rule mutate_and_verify_vals [OF assms(1)]) (rule assms(2))
  ultimately show ?thesis by auto
qed

lemma reliable_mutate:
  assumes "start w = ((False, rs), w1)" and "vals w1 = (vals w)(k := x)" and "reliable w1"
    and "cs_has T method" and "k \<noteq> []"
  shows "\<exists>w'. mutate_and_verify T a method start code k x w = Some (Inr (), w') \<and> reliable w'"
proof -
  obtain rs' w' where "reading T a k w1 = ((Inr (vals w1 k), rs'), w')" "reliable w'"
    using reliable_reading [OF assms(3,5)] by blast
  then show ?thesis
    using assms(1,2,4) by (auto simp: mutate_and_verify_def Let_def poll.simps)
qed

end

context callback_contract
begin

lemma set_verified_vals:
  "set_verified T a k v w = Some (res, w') \<Longrightarrow> vals w' = vals w \<or> vals w' = (vals w)(k \<mapsto> v)"
  by (simp add: set_verified_def split: if_splits)
    (erule mutate_and_verify_vals [where start = "cs_set_item T k v"], rule set_vals)

lemma set_verified_done: "set_verified T a k v w = Some (Inr (), w') \<Longrightarrow> vals w' = (vals w)(k \<mapsto> v)"
  by (simp add: set_verified_def split: if_splits)
    (erule mutate_and_verify_done [where start = "cs_set_item T k v"], rule set_vals)

lemma remove_verified_vals:
  "remove_verified T a k w = Some (res, w') \<Longrightarrow> vals w' = vals w \<or> vals w' = (vals w)(k := None)"
  by (simp add: remove_verified_def split: if_splits)
    (erule mutate_and_verify_vals [where start = "cs_remove_item T k"], rule remove_vals)

lemma remove_verified_done: "remove_verified T a k w = Some (Inr (), w') \<Longrightarrow> vals w' = (vals w)(k := None)"
  by (simp add: remove_verified_def split: if_splits)
    (erule mutate_and_verify_done [where start = "cs_remove_item T k"], rule remove_vals)

lemma reliable_set_verified:
  assumes "reliable w" and "k \<noteq> []"
  shows "\<exists>w'. set_verified T a k v w = Some (Inr (), w') \<and> reliable w'"
proof -
  obtain rs w1 where "cs_set_item T k v w = ((False, rs), w1)" "vals w1 = (vals w)(k \<mapsto> v)" "reliable w1"
    using reliable_set [OF assms(1)] by blast
  moreover have "cs_has T ''setItem''" using reliable_methods [OF assms(1)] by simp
  ultimately show ?thesis
    using reliable_mutate [where start = "cs_set_item T k v"] assms(2) by (simp add: set_verified_def)
qed

lemma reliable_remove_verified:
  assumes "reliable w" and "k \<noteq> []"
  shows "\<exists>w'. remove_verified T a k w = Some (Inr (), w') \<and> reliable w'"
proof -
  obtain rs w1 where "cs_remove_item T k w = ((False, rs), w1)" "vals w1 = (vals w)(k := None)" "reliable w1"
    using reliable_remove [OF assms(1)] by blast
  moreover have "cs_has T ''removeItem''" using reliable_methods [OF assms(1)] by simp
  ultimately show ?thesis
    using reliable_mutate [where start = "cs_remove_item T k"] assms(2) by (simp add: remove_verified_def)
qed

end

sublocale callback_contract \<subseteq> device: lawful_storage "telegram_storage T a" vals reliable for a
proof unfold_locales
  fix k v s s'
  show "ds_get (telegram_storage T a) k s = (res, s') \<Longrightarrow> vals s' = vals s" for res
    by (auto simp: map_errE_apply get_existing_def split: prod.splits dest: reading_vals)
  show "ds_get (telegram_storage T a) k s = (Inr x, s') \<Longrightarrow> x = vals s k" for x
    by (auto simp: get_existing_def split: prod.splits dest: reading_answer)
  show "ds_set (telegram_storage T a) k v s = (Inr u, s') \<Longrightarrow> vals s' = (vals s)(k \<mapsto> v)" for u
    by (simp add: settle_Inr set_verified_done)
  show "ds_set (telegram_storage T a) k v s = (Inl e, s') \<Longrightarrow> vals s' = vals s \<or> vals s' = (vals s)(k \<mapsto> v)" for e
    by (auto dest!: settle_Inl set_verified_vals)
  show "ds_remove (telegram_storage T a) k s = (Inr u, s') \<Longrightarrow> vals s' = (vals s)(k := None)" for u
    by (simp add: settle_Inr remove_verified_done)
  show "ds_remove (telegram_storage T a) k s = (Inl e, s') \<Longrightarrow> vals s' = vals s \<or> vals s' = (vals s)(k := None)" for e
    by (auto dest!: settle_Inl remove_verified_vals)
  show "\<exists>s'. ds_get (telegram_storage T a) k s = (Inr (vals s k), s') \<and> reliable s'"
    if "reliable s" "k \<noteq> []"
    using reliable_reading [OF that, of a] by (force simp: get_existing_def)
  show "\<exists>s'. ds_set (telegram_storage T a) k v s = (Inr (), s') \<and> reliable s'" if "reliable s" "k \<noteq> []"
    using reliable_set_verified [OF that] by (simp add: settle_Inr)
  show "\<exists>s'. ds_remove (telegram_storage T a) k s = (Inr (), s') \<and> reliable s'" if "reliable s" "k \<noteq> []"
    using reliable_remove_verified [OF that] by (simp add: settle_Inr)
qed

context callback_contract
begin

lemma device_lawful: "lawful_storage (telegram_storage T a) vals reliable"
  by (rule device.lawful_storage_axioms)

end

section \<open>The storage of the preview\<close>

text \<open>
  \<open>MemoryCallbackStorage\<close> of \<open>web/src/preview-runtime.js\<close>, over a clock that runs only while the
  program waits. The callback of a mutation is a microtask; it runs in the next read or pause, and
  before the microtask of a read that is started after it.
\<close>

record preview =
  pv_values :: "key \<Rightarrow> rstring option"
  pv_microtasks :: "report list"
  pv_clock :: int

definition preview_get_item :: "key \<Rightarrow> preview \<Rightarrow> (event list \<times> report list) \<times> preview" where
  "preview_get_item key p =
     (([Answer None (item_of (pv_values p key))], pv_microtasks p), p\<lparr>pv_microtasks := []\<rparr>)"

definition preview_set_item :: "key \<Rightarrow> rstring \<Rightarrow> preview \<Rightarrow> (bool \<times> report list) \<times> preview" where
  "preview_set_item key value p =
     ((False, []), p\<lparr>pv_values := (pv_values p)(key \<mapsto> value),
                     pv_microtasks := pv_microtasks p @ [Report None False]\<rparr>)"

definition preview_remove_item :: "key \<Rightarrow> preview \<Rightarrow> (bool \<times> report list) \<times> preview" where
  "preview_remove_item key p =
     ((False, []), p\<lparr>pv_values := (pv_values p)(key := None),
                     pv_microtasks := pv_microtasks p @ [Report None False]\<rparr>)"

definition preview_delay :: "int \<Rightarrow> preview \<Rightarrow> report list \<times> preview" where
  "preview_delay ms p = (pv_microtasks p, p\<lparr>pv_microtasks := [], pv_clock := pv_clock p + ms\<rparr>)"

text \<open>It has no \<open>restoreItem\<close>, so that method is never called.\<close>

definition preview_store :: "preview callback_store" where
  "preview_store =
     \<lparr>cs_has = (\<lambda>m. m \<in> set [''getItem'', ''setItem'', ''removeItem'']),
      cs_get_item = preview_get_item, cs_restore_item = (\<lambda>_ p. (([Call_threw], []), p)),
      cs_set_item = preview_set_item, cs_remove_item = preview_remove_item,
      cs_delay = preview_delay, cs_now = pv_clock\<rparr>"

lemma preview_store_sel [simp]:
  "cs_has preview_store m \<longleftrightarrow> m \<in> {''getItem'', ''setItem'', ''removeItem''}"
  "cs_get_item preview_store = preview_get_item" "cs_set_item preview_store = preview_set_item"
  "cs_remove_item preview_store = preview_remove_item" "cs_delay preview_store = preview_delay"
  "cs_now preview_store = pv_clock"
  by (simp_all add: preview_store_def)

definition preview_empty :: preview where
  "preview_empty = \<lparr>pv_values = Map.empty, pv_microtasks = [], pv_clock = 0\<rparr>"

interpretation preview: callback_contract preview_store pv_values "\<lambda>_. True"
  by unfold_locales
    (auto simp: preview_get_item_def preview_set_item_def preview_remove_item_def preview_delay_def)

lemma preview_clock_laws: "clock_laws preview_store"
  by (auto simp: clock_laws_def preview_get_item_def preview_delay_def)

section \<open>What the client may rely on\<close>

text \<open>C8: The adapter keeps the promises of a device. Over any callback storage that answers reads
  from its values and applies a mutation when it is started or not at all, whatever its callbacks
  report and whenever they come, the adapter is a lawful device: a write or removal that succeeds
  has happened, one that fails may have happened, a read does not change anything, and other keys
  are never touched. All theorems about lawful devices therefore hold of the browser's storage.\<close>

theorem adapter_is_lawful_device:
  assumes "callback_contract T vals reliable"
  shows "lawful_storage (telegram_storage T a) vals reliable"
  using assms by (rule callback_contract.device_lawful)

lemma adapter_is_lawful_device_witness:
  "lawful_storage (telegram_storage preview_store telegram_device_adapter) pv_values (\<lambda>_. True)"
  by (rule adapter_is_lawful_device [OF preview.callback_contract_axioms])

text \<open>C24: A verified write or removal is one that was read back. Whatever the host's storage does,
  without any law, \<open>setVerified\<close> succeeds only when the last thing it did was to read exactly the
  written text under the key, and \<open>removeVerified\<close> only when it read that there is none.\<close>

theorem verified_mutation_was_read_back:
  "(set_verified T a k v w = Some (Inr (), w') \<longrightarrow>
      (\<exists>u rs. reading T a k u = ((Inr (Some v), rs), w'))) \<and>
   (remove_verified T a k w = Some (Inr (), w') \<longrightarrow>
      (\<exists>u rs. reading T a k u = ((Inr None, rs), w')))"
  by (auto simp: set_verified_def remove_verified_def split: if_splits dest!: mutate_and_verify_Inr)

definition preview_written :: preview where
  "preview_written = \<lparr>pv_values = [str ''k'' \<mapsto> str ''v''], pv_microtasks = [], pv_clock = 0\<rparr>"

lemma preview_set_runs:
  "set_verified preview_store telegram_device_adapter (str ''k'') (str ''v'') preview_empty
     = Some (Inr (), preview_written)"
  by (simp add: set_verified_def mutate_and_verify_def preview_set_item_def preview_empty_def
      preview_written_def poll.simps reading_def preview_get_item_def item_of_def
      preview.invoke_answer str_def)

lemma verified_mutation_was_read_back_witness:
  "\<exists>u rs. reading preview_store telegram_device_adapter (str ''k'') u
     = ((Inr (Some (str ''v'')), rs), preview_written)"
  using verified_mutation_was_read_back [THEN conjunct1, THEN mp, OF preview_set_runs] .

text \<open>C25: A verified write or removal returns, and in time. On a host whose clock does not run
  backwards and whose timers are not early, the polling loop ends for every behaviour of the storage:
  callbacks that never come, reads that time out and values that never appear included. If besides a
  timer is never more than \<open>late\<close> late and the call that starts the mutation takes no longer than
  that, it returns within twice the timeout of the adapter, plus three times \<open>late\<close>: a last read that
  starts at the deadline may take a whole timeout of its own.\<close>

theorem verified_mutation_returns:
  assumes "clock_laws T"
  shows "\<exists>res w1 res' w2. set_verified T a k v w = Some (res, w1) \<and>
    remove_verified T a k w = Some (res', w2) \<and>
    (timely T a late \<longrightarrow>
       cs_now T w1 \<le> cs_now T w + 2 * ad_timeout_ms a + 3 * late \<and>
       cs_now T w2 \<le> cs_now T w + 2 * ad_timeout_ms a + 3 * late)"
proof -
  have set: "cs_now T w1 \<le> cs_now T w + late" if "timely T a late" "cs_set_item T k v w = (out, w1)" for out w1
    using that unfolding timely_def punctual_def by blast
  have remove: "cs_now T w1 \<le> cs_now T w + late" if "timely T a late" "cs_remove_item T k w = (out, w1)"
    for out w1
    using that unfolding timely_def punctual_def by blast
  have empty: "timely T a late \<Longrightarrow> 0 \<le> 2 * ad_timeout_ms a + 3 * late"
    using timely_late [OF assms] by (auto simp: timely_def)
  show ?thesis
    using mutate_and_verify_returns [where start = "cs_set_item T k v", OF assms set]
      mutate_and_verify_returns [where start = "cs_remove_item T k", OF assms remove] empty
    by (cases "k = []") (fastforce simp: set_verified_def remove_verified_def)+
qed

lemma preview_timely: "timely preview_store telegram_device_adapter 0"
  by (auto simp: timely_def punctual_def telegram_device_adapter_def DEFAULT_TIMEOUT_MS_def
      preview_get_item_def preview_delay_def preview_set_item_def preview_remove_item_def)

lemma verified_mutation_returns_witness:
  "\<exists>res w1. set_verified preview_store telegram_device_adapter (str ''k'') (str ''v'') preview_empty = Some (res, w1) \<and>
     pv_clock w1 \<le> 20000"
  using verified_mutation_returns [OF preview_clock_laws, of telegram_device_adapter "str ''k''" "str ''v''"
      preview_empty 0] preview_timely
  by (auto simp: telegram_device_adapter_def DEFAULT_TIMEOUT_MS_def preview_empty_def)

end
