(* ===== verification/Bootstrap.thy ===== *)
theory Bootstrap
  imports Adapter
begin

text \<open>
  How the page gets its storage: \<open>web/src/telegram.js\<close> checks the host, \<open>web/src/bootstrap.js\<close> puts the
  adapters of \<open>web/src/storage.js\<close> over its storages, and \<open>boot\<close> of \<open>web/app.js\<close> decides between the
  Telegram runtime, the preview and no runtime at all. The rest of the preview page object of
  \<open>web/src/preview-runtime.js\<close> is here too.
\<close>

section \<open>The host\<close>

text \<open>What the program looks at of \<open>Telegram.WebApp\<close>: \<open>None\<close> for a version test that is no function,
  its device storage (\<open>cs_has\<close> of it is false if it is missing), a secure storage if there is one, and
  whether the initial data of a launch by Telegram is not empty.\<close>

record 'w web_app =
  wa_is_version_at_least :: "(string \<Rightarrow> bool) option"
  wa_device_storage :: "'w callback_store"
  wa_secure_storage :: "'w callback_store option"
  wa_init_data :: bool

definition MINIMUM_BOT_API_VERSION :: string where
  "MINIMUM_BOT_API_VERSION = ''9.0''"

datatype boot_error = Unsupported_telegram | Wasm_failed

definition assert_methods :: "'w callback_store \<Rightarrow> string list \<Rightarrow> boot_error + unit" where
  "assert_methods storage methods =
     (if list_ex (\<lambda>method. \<not> cs_has storage method) methods then Inl Unsupported_telegram else Inr ())"

definition resolve_telegram_web_app :: "'w web_app option \<Rightarrow> boot_error + 'w web_app" where
  "resolve_telegram_web_app host =
     (case host of
        None \<Rightarrow> Inl Unsupported_telegram
      | Some web_app \<Rightarrow>
          (case wa_is_version_at_least web_app of
             None \<Rightarrow> Inl Unsupported_telegram
           | Some is_version_at_least \<Rightarrow>
               if \<not> is_version_at_least MINIMUM_BOT_API_VERSION then Inl Unsupported_telegram
               else
                 and_then (assert_methods (wa_device_storage web_app) [''getItem'', ''setItem'', ''removeItem''])
                   (\<lambda>_. Inr web_app)))"

section \<open>The runtime\<close>

datatype mode = Telegram_mode | Preview_mode

record 'w runtime =
  rt_web_app :: "'w web_app"
  rt_device :: "'w device_storage"
  rt_secure :: "'w device_storage option"
  rt_mode :: mode

definition create_runtime :: "'w web_app \<Rightarrow> mode \<Rightarrow> 'w runtime" where
  "create_runtime web_app mode =
     \<lparr>rt_web_app = web_app,
      rt_device = telegram_storage (wa_device_storage web_app) telegram_device_adapter,
      rt_secure = map_option (\<lambda>storage. telegram_storage storage telegram_secure_adapter)
        (wa_secure_storage web_app),
      rt_mode = mode\<rparr>"

text \<open>\<open>await initWasm()\<close> loads the module or fails.\<close>

definition initialize_vault_runtime :: "bool \<Rightarrow> 'w web_app option \<Rightarrow> boot_error + 'w runtime" where
  "initialize_vault_runtime wasm_loads host =
     and_then (resolve_telegram_web_app host) (\<lambda>web_app.
     if wasm_loads then Inr (create_runtime web_app Telegram_mode) else Inl Wasm_failed)"

section \<open>The preview page\<close>

definition preview_web_app :: "preview web_app" where
  "preview_web_app =
     \<lparr>wa_is_version_at_least = Some (\<lambda>version. version = ''9.0''), wa_device_storage = preview_store,
      wa_secure_storage = Some preview_store, wa_init_data = False\<rparr>"

definition initialize_preview_runtime :: "bool \<Rightarrow> boot_error + preview runtime" where
  "initialize_preview_runtime wasm_loads =
     (if wasm_loads then Inr (create_runtime preview_web_app Preview_mode) else Inl Wasm_failed)"

text \<open>The host name of the location, and the first value of its parameter \<open>preview\<close>.\<close>

record page_location =
  pl_hostname :: string
  pl_preview :: "string option"

definition is_preview_location :: "page_location \<Rightarrow> bool" where
  "is_preview_location location \<longleftrightarrow>
     pl_preview location = Some ''1''
     \<or> pl_hostname location = ''localhost'' \<or> pl_hostname location = ''127.0.0.1''
     \<or> pl_hostname location = ''::1''"

text \<open>Its events: handlers by name, each at most once, in the order in which they were added.\<close>

type_synonym 'h page_events = "string \<Rightarrow> 'h list"

definition on_event :: "string \<Rightarrow> 'h \<Rightarrow> 'h page_events \<Rightarrow> 'h page_events" where
  "on_event name handler events =
     events(name := (if handler \<in> set (events name) then events name else events name @ [handler]))"

definition off_event :: "string \<Rightarrow> 'h \<Rightarrow> 'h page_events \<Rightarrow> 'h page_events" where
  "off_event name handler events = events(name := filter (\<lambda>h. h \<noteq> handler) (events name))"

text \<open>The handlers that an emitted event calls, if none of them changes the handlers of its name.\<close>

definition emit :: "string \<Rightarrow> 'h page_events \<Rightarrow> 'h list" where
  "emit name events = events name"

lemma emit_on_event: "h \<in> set (emit n (on_event name handler ev)) \<longleftrightarrow>
    h \<in> set (emit n ev) \<or> n = name \<and> h = handler"
  by (auto simp: emit_def on_event_def)

lemma emit_off_event: "h \<in> set (emit n (off_event name handler ev)) \<longleftrightarrow>
    h \<in> set (emit n ev) \<and> \<not> (n = name \<and> h = handler)"
  by (auto simp: emit_def off_event_def)

section \<open>The decision of \<open>boot\<close>\<close>

datatype 'w booted =
    Telegram_runtime "'w runtime"
  | Preview_runtime "preview runtime"
  | Unsupported_screen
  | Boot_failed

definition boot_runtime :: "bool \<Rightarrow> page_location \<Rightarrow> 'w web_app option \<Rightarrow> 'w booted" where
  "boot_runtime wasm_loads location host =
     (case initialize_vault_runtime wasm_loads host of
        Inr runtime \<Rightarrow> Telegram_runtime runtime
      | Inl _ \<Rightarrow>
          let launched_by_telegram = (case host of None \<Rightarrow> False | Some web_app \<Rightarrow> wa_init_data web_app) in
          if launched_by_telegram \<or> \<not> is_preview_location location then Unsupported_screen
          else
            (case initialize_preview_runtime wasm_loads of
               Inr runtime \<Rightarrow> Preview_runtime runtime
             | Inl _ \<Rightarrow> Boot_failed))"

section \<open>Which storage a vault lands in\<close>

lemma resolve_telegram_web_app_Inr:
  "resolve_telegram_web_app host = Inr web_app \<longleftrightarrow>
     host = Some web_app \<and> (\<exists>at_least. wa_is_version_at_least web_app = Some at_least \<and> at_least ''9.0'') \<and>
     (\<forall>m \<in> {''getItem'', ''setItem'', ''removeItem''}. cs_has (wa_device_storage web_app) m)"
  by (auto simp: resolve_telegram_web_app_def assert_methods_def MINIMUM_BOT_API_VERSION_def
      split: option.splits if_splits)

lemma boot_telegram:
  "boot_runtime wasm_loads location host = Telegram_runtime rt \<longleftrightarrow>
     wasm_loads \<and> (\<exists>web_app. resolve_telegram_web_app host = Inr web_app \<and>
       rt = create_runtime web_app Telegram_mode)"
  by (auto simp: boot_runtime_def initialize_vault_runtime_def initialize_preview_runtime_def and_then_Inr
      Let_def split: sum.splits)

lemma boot_preview:
  "boot_runtime wasm_loads location host = Preview_runtime rt \<longleftrightarrow>
     wasm_loads \<and> (\<exists>e. resolve_telegram_web_app host = Inl e) \<and>
     (\<forall>web_app. host = Some web_app \<longrightarrow> \<not> wa_init_data web_app) \<and> is_preview_location location \<and>
     rt = create_runtime preview_web_app Preview_mode"
  by (cases "resolve_telegram_web_app host")
    (auto simp: boot_runtime_def initialize_vault_runtime_def initialize_preview_runtime_def
      Let_def split: sum.splits option.splits if_splits)

text \<open>What the host has to be: it says that it is at least version 9.0 of the interface, and its device
  storage has the three methods.\<close>

definition host_has_storage :: "'w web_app \<Rightarrow> bool" where
  "host_has_storage web_app \<longleftrightarrow>
     (case wa_is_version_at_least web_app of None \<Rightarrow> False | Some is_version_at_least \<Rightarrow> is_version_at_least ''9.0'') \<and>
     list_all (cs_has (wa_device_storage web_app)) [''getItem'', ''setItem'', ''removeItem'']"

lemma host_has_storage:
  "host_has_storage web_app \<longleftrightarrow> resolve_telegram_web_app (Some web_app) = Inr web_app"
  "(\<exists>e. resolve_telegram_web_app (Some web_app) = Inl e) \<longleftrightarrow> \<not> host_has_storage web_app"
  by (auto simp: host_has_storage_def resolve_telegram_web_app_def assert_methods_def MINIMUM_BOT_API_VERSION_def
      split: option.splits)

text \<open>C28: A vault opened from Telegram never lands in the preview. Once the module is loaded, \<open>boot\<close>
  gives the Telegram runtime exactly if there is a host whose version test accepts 9.0 and whose
  device storage has the three methods; then the device of the client is that storage behind the
  adapter, lawful if the storage keeps the contract of a callback storage. The preview, whose values are
  gone when the page is closed, is taken exactly if there is no such host, the page was not launched
  by Telegram and its location allows it; its device is lawful and every call on it works. In all other
  cases the page says that it is not supported. Without the module neither runtime is given.\<close>

theorem boot_picks_the_storage:
  "((\<exists>rt. boot_runtime wasm_loads location host = Telegram_runtime rt) \<longleftrightarrow>
      wasm_loads \<and> (\<exists>web_app. host = Some web_app \<and> host_has_storage web_app)) \<and>
   (boot_runtime wasm_loads location host = Telegram_runtime rt \<longrightarrow>
      rt_mode rt = Telegram_mode \<and> host = Some (rt_web_app rt) \<and>
      rt_device rt = telegram_storage (wa_device_storage (rt_web_app rt)) telegram_device_adapter \<and>
      (callback_contract (wa_device_storage (rt_web_app rt)) vals reliable \<longrightarrow>
        lawful_storage (rt_device rt) vals reliable)) \<and>
   ((\<exists>prt. boot_runtime wasm_loads location host = Preview_runtime prt) \<longleftrightarrow>
      wasm_loads \<and> is_preview_location location \<and>
      (\<forall>web_app. host = Some web_app \<longrightarrow> \<not> host_has_storage web_app \<and> \<not> wa_init_data web_app)) \<and>
   (boot_runtime wasm_loads location host = Preview_runtime prt \<longrightarrow>
      rt_mode prt = Preview_mode \<and> lawful_storage (rt_device prt) pv_values (\<lambda>_. True)) \<and>
   (wasm_loads \<and> boot_runtime wasm_loads location host \<notin> range Telegram_runtime \<union> range Preview_runtime
     \<longrightarrow> boot_runtime wasm_loads location host = Unsupported_screen)"
proof -
  let ?b = "boot_runtime wasm_loads location host"
  have none: "resolve_telegram_web_app None = Inl Unsupported_telegram" by (simp add: resolve_telegram_web_app_def)
  have tele: "(\<exists>rt. ?b = Telegram_runtime rt) \<longleftrightarrow> wasm_loads \<and> (\<exists>w. host = Some w \<and> host_has_storage w)"
    by (auto simp: boot_telegram host_has_storage(1)) (auto simp: resolve_telegram_web_app_Inr)
  have prev: "(\<exists>prt. ?b = Preview_runtime prt) \<longleftrightarrow> wasm_loads \<and> is_preview_location location \<and>
      (\<forall>w. host = Some w \<longrightarrow> \<not> host_has_storage w \<and> \<not> wa_init_data w)"
    by (cases host) (auto simp: boot_preview host_has_storage(2) none)
  have device: "rt_mode rt = Telegram_mode \<and> host = Some (rt_web_app rt) \<and>
      rt_device rt = telegram_storage (wa_device_storage (rt_web_app rt)) telegram_device_adapter"
    if "?b = Telegram_runtime rt"
    using that by (auto simp: boot_telegram create_runtime_def resolve_telegram_web_app_Inr)
  have preview_device: "rt_mode prt = Preview_mode \<and> lawful_storage (rt_device prt) pv_values (\<lambda>_. True)"
    if "?b = Preview_runtime prt"
    using that preview.device_lawful by (simp add: boot_preview create_runtime_def preview_web_app_def)
  have rest: "?b = Unsupported_screen" if "wasm_loads" "?b \<notin> range Telegram_runtime \<union> range Preview_runtime"
    using that by (auto simp: boot_runtime_def initialize_preview_runtime_def Let_def split: sum.splits if_splits)
  have lawful: "lawful_storage (rt_device rt) vals reliable"
    if "?b = Telegram_runtime rt" "callback_contract (wa_device_storage (rt_web_app rt)) vals reliable"
    using callback_contract.device_lawful [OF that(2)] device [OF that(1)] by metis
  show ?thesis using tele prev device preview_device rest lawful by blast
qed

definition sample_host :: "preview web_app" where
  "sample_host =
     \<lparr>wa_is_version_at_least = Some (\<lambda>version. version \<in> set [''8.0'', ''9.0'']),
      wa_device_storage = preview_store, wa_secure_storage = None, wa_init_data = True\<rparr>"

definition sample_location :: page_location where
  "sample_location = \<lparr>pl_hostname = ''localhost'', pl_preview = None\<rparr>"

lemma sample_boots:
  "boot_runtime True sample_location (Some sample_host) = Telegram_runtime (create_runtime sample_host Telegram_mode)"
  "boot_runtime True sample_location (None :: preview web_app option)
     = Preview_runtime (create_runtime preview_web_app Preview_mode)"
  by (simp_all add: boot_telegram boot_preview resolve_telegram_web_app_Inr sample_host_def sample_location_def
      is_preview_location_def) (simp add: resolve_telegram_web_app_def)

lemma boot_picks_the_storage_witness:
  "host_has_storage sample_host \<and>
   lawful_storage (rt_device (create_runtime sample_host Telegram_mode)) pv_values (\<lambda>_. True) \<and>
   lawful_storage (rt_device (create_runtime preview_web_app Preview_mode)) pv_values (\<lambda>_. True)"
proof -
  have "callback_contract (wa_device_storage (rt_web_app (create_runtime sample_host Telegram_mode))) pv_values
      (\<lambda>_. True)"
    using preview.callback_contract_axioms by (simp add: create_runtime_def sample_host_def)
  then have "lawful_storage (rt_device (create_runtime sample_host Telegram_mode)) pv_values (\<lambda>_. True)"
    using boot_picks_the_storage [THEN conjunct2, THEN conjunct1, THEN mp, OF sample_boots(1)] by blast
  moreover have "host_has_storage sample_host"
    using boot_picks_the_storage [THEN conjunct1, THEN iffD1, OF exI, OF sample_boots(1)] by blast
  moreover have "lawful_storage (rt_device (create_runtime preview_web_app Preview_mode)) pv_values (\<lambda>_. True)"
    using boot_picks_the_storage [THEN conjunct2, THEN conjunct2, THEN conjunct2, THEN conjunct1, THEN mp,
        OF sample_boots(2)] by blast
  ultimately show ?thesis by blast
qed

end
