(* ===== verification/Controller_Properties.thy ===== *)
theory Controller_Properties
  imports Controller_Machine Client_Properties Adapter
begin

text \<open>
  The properties of the controller: it follows the automatic lock from its construction on, and an
  expired session cannot be used again. The sample functions of the user interface are here too.
\<close>

section \<open>Sample functions of the user interface\<close>

definition enc_summary :: "entry_summary \<Rightarrow> bytes" where
  "enc_summary s = enc_pair (enc_list enc_str) (enc_pair enc_word enc_word)
     ([sm_id s, sm_title s], sm_created_at s, sm_updated_at s)"

definition dec_summary :: "bytes \<Rightarrow> (entry_summary \<times> bytes) option" where
  "dec_summary = dec_map (\<lambda>(ss, created, updated).
     \<lparr>sm_id = ss ! 0, sm_title = ss ! 1, sm_created_at = created, sm_updated_at = updated\<rparr>)
     (dec_pair (dec_list dec_str) (dec_pair dec_word dec_word))"

lemma delimited_summary: "delimited enc_summary dec_summary"
  unfolding enc_summary_def dec_summary_def
  by (rule delimited_map [OF delimited_pair [OF delimited_list [OF delimited_str]
        delimited_pair [OF delimited_word delimited_word]]])
    (auto intro!: entry_summary.equality)

text \<open>The sample functions with a printer and a parser for the list; the texts of single entries are
  not printed.\<close>

definition sample_ui :: "nat ui_deps" where
  "sample_ui = deps.extend sample
     \<lparr>json_summaries_ser = sample_print (enc_list enc_summary),
      json_details_ser = (\<lambda>_. None), json_entry_ser = (\<lambda>_. None),
      json_parse_entries = (\<lambda>printed. map_option (map js_entry_of)
        (sample_parse (dec_list dec_summary) printed)),
      json_parse_details = (\<lambda>_. None), json_parse_record = (\<lambda>_. None)\<rparr>"

lemma sample_ui_laws: "ui_laws sample_ui"
  unfolding ui_laws_def
proof
  fix ss :: "entry_summary list"
  obtain printed where p: "sample_print (enc_list enc_summary) ss = Some printed"
    by (simp add: sample_print_def)
  from sample_parse_print [OF delimited_list [OF delimited_summary] p]
  show "\<exists>printed. json_summaries_ser sample_ui ss = Some printed \<and>
      json_parse_entries sample_ui printed = Some (map js_entry_of ss)"
    using p by (auto simp: sample_ui_def deps.extend_def)
qed

lemma sample_ui_deps_laws: "deps_laws sample_ui"
  using sample_deps_laws
  by (simp add: sample_ui_def deps.extend_def deps_laws_def codec_laws_def base64_laws_def crypto_laws_def
      rng_laws_def)

text \<open>The core does not use the functions of the user interface: on \<open>sample_ui\<close> it does what it does
  on \<open>sample\<close>.\<close>

lemma sample_ui_fields:
  "b64_encode sample_ui = b64_encode sample" "b64_decode sample_ui = b64_decode sample"
  "json_meta_de sample_ui = json_meta_de sample" "json_meta_ser sample_ui = json_meta_ser sample"
  "json_slot_de sample_ui = json_slot_de sample"
  "json_slot_ser sample_ui = json_slot_ser sample"
  "json_pointer_ser sample_ui = json_pointer_ser sample"
  "json_container_ser sample_ui = json_container_ser sample"
  "json_container_de sample_ui = json_container_de sample"
  "argon2_params_new sample_ui = argon2_params_new sample"
  "argon2id_hash sample_ui = argon2id_hash sample" "hkdf_sha256 sample_ui = hkdf_sha256 sample"
  "xchacha_key_ok sample_ui = xchacha_key_ok sample"
  "xchacha_encrypt sample_ui = xchacha_encrypt sample" "xchacha_decrypt sample_ui = xchacha_decrypt sample"
  "rng_try_fill sample_ui = rng_try_fill sample"
  by (simp_all add: sample_ui_def deps.extend_def)

lemma sample_ui_arrays:
  "decode_base64url_array sample_ui n s = decode_base64url_array sample n s"
  "deserialize_encoded_bytes sample_ui s = deserialize_encoded_bytes sample s"
  "serialize_encoded_bytes sample_ui b = serialize_encoded_bytes sample b"
  by (simp_all add: sample_ui_fields decode_base64url_array_def decode_base64url_def
      deserialize_encoded_bytes_def serialize_encoded_bytes_def encode_base64url_def)

lemma sample_ui_entries:
  "entries_from_wire sample_ui ws = entries_from_wire sample ws"
  "entry_to_wire sample_ui e = entry_to_wire sample e"
  by (induction ws) (simp_all add: entry_from_wire_def entry_to_wire_def deserialize_entry_id_def
      serialize_entry_id_def sample_ui_arrays sample_ui_fields encode_base64url_def)

lemma sample_ui_core:
  "recoverable sample_ui m vs v S = recoverable sample m vs v S"
  "opens_with sample_ui pw m dek = opens_with sample pw m dek"
  "pointer_fits sample_ui = pointer_fits sample"
  "slot_to_json sample_ui slot = slot_to_json sample slot"
  "metadata_fits sample_ui = metadata_fits sample"
proof -
  have meta: "meta_from_json sample_ui = meta_from_json sample"
    by (simp add: fun_eq_iff meta_from_json_def meta_from_wire_def kdf_from_wire_def wrapped_dek_from_wire_def
        deserialize_vault_id_def sample_ui_fields sample_ui_arrays cong: option.case_cong)
  have slot: "slot_from_json sample_ui = slot_from_json sample"
    by (simp add: fun_eq_iff slot_from_json_def slot_from_wire_def deserialize_vault_id_def
        sample_ui_fields sample_ui_arrays cong: option.case_cong)
  have aead: "decrypt sample_ui = decrypt sample"
    by (simp add: fun_eq_iff decrypt_def sample_ui_fields)
  have "container_from_json sample_ui = container_from_json sample"
    by (simp add: fun_eq_iff container_from_json_def container_from_wire_def deserialize_vault_id_def
        sample_ui_fields sample_ui_arrays sample_ui_entries cong: option.case_cong)
  then have "decrypt_container sample_ui = decrypt_container sample"
    by (simp add: fun_eq_iff decrypt_container_def decrypt_slot_payload_def aead cong: if_cong)
  then have "authentic sample_ui = authentic sample" by (simp add: fun_eq_iff authentic_def)
  then have "candidates_of sample_ui = candidates_of sample"
    by (intro ext) (simp add: candidates_of_def stored_slot_def slot)
  with meta show "recoverable sample_ui m vs v S = recoverable sample m vs v S"
    by (simp add: recoverable_def)
  show "opens_with sample_ui pw m dek = opens_with sample pw m dek"
    by (simp add: opens_with_def derive_kek_def unwrap_dek_def aead sample_ui_fields cong: if_cong)
  show "pointer_fits sample_ui = pointer_fits sample"
    by (simp add: pointer_fits_def pointer_to_json_def sample_ui_fields)
  show "slot_to_json sample_ui slot = slot_to_json sample slot"
    by (simp add: slot_to_json_def slot_to_wire_def serialize_vault_id_def sample_ui_fields sample_ui_arrays
        encode_base64url_def)
  show "metadata_fits sample_ui = metadata_fits sample"
    by (simp add: metadata_fits_def meta_to_json_def meta_to_wire_def kdf_to_wire_def wrapped_dek_to_wire_def
        serialize_vault_id_def sample_ui_fields sample_ui_arrays encode_base64url_def)
qed

section \<open>The automatic lock\<close>

lemma initialized_inv:
  assumes "controller_new minutes = Inr c0" and "app_initialize D secure (s0, t0, c0) = (Inr st, (s, t, c))"
  shows "app_inv L c" and "timer_of c = None" and "ct_session_timeout_minutes c = f64_int minutes"
proof -
  obtain screen where c: "c = set_state (\<lambda>st. (screen_only screen st)\<lparr>as_entries := []\<rparr>) c0"
    and "screen \<in> {''onboarding'', ''locked''}"
    using assms(2) by (auto simp: app_initialize_def Let_def split: prod.splits sum.splits if_splits)
  then show "app_inv L c" "timer_of c = None" "ct_session_timeout_minutes c = f64_int minutes"
    using assms(1)
    by (auto simp: controller_new_def and_then_Inr normalize_session_timeout_minutes_def set_state_def
        app_inv_def timer_of_def MIN_SESSION_TIMEOUT_MINUTES_def MAX_SESSION_TIMEOUT_MINUTES_def
        split: if_splits)
qed

text \<open>C7: The application follows the automatic lock. From its construction on, for every sequence of
  calls on the controller, every behaviour of the devices and of the random source and all times,
  the session and its deadline change only as the abstract timer allows: only creating and
  unlocking start it, only activity, deactivation, a timely return and a change of the timeout or
  of the password move the deadline, and a clock that steps back or is no time stops it. In every
  state an open session is well formed with nothing pending and its own entries on the screen,
  newest first, and without a session no entry, selection or deadline is left.\<close>

theorem app_follows_autolock:
  assumes "deps_laws L" and "ui_laws L" and "controller_new minutes = Inr c0"
    and "app_initialize D secure (s0, t0, c0) = (Inr st, (s, t, c))"
    and "run_all (app_step L D secure) cmds (s, t, c, r) = (outs, (s', t', c', r'))"
  shows "spec_run autolock cmds outs (f64_int minutes, None) (ct_session_timeout_minutes c', timer_of c') \<and>
    app_inv L c'"
proof -
  note init = initialized_inv(1) [OF assms(3,4), where L = L] initialized_inv(2,3) [OF assms(3,4)]
  have inv: "app_world_inv L (s, t, c, r)" using assms(1,2) init(1) by (simp add: app_world_inv_def)
  show ?thesis
    using app.run_inv [OF inv assms(5)] app.run_spec [OF inv assms(5)] init
    by (simp add: app_world_inv_def app_abs_def)
qed

definition sample_loading :: controller where
  "sample_loading =
     \<lparr>ct_session = None, ct_session_expires_at = None, ct_last_session_timestamp = None,
      ct_session_timeout_minutes = 5,
      ct_state = \<lparr>as_screen = ''loading'', as_entries = [], as_selected_id = None, as_editing_id = None\<rparr>\<rparr>"

abbreviation sample_onboarding :: controller where
  "sample_onboarding \<equiv> set_state (screen_only ''onboarding'') sample_loading"

lemma sample_controller_new: "controller_new (f64_of_nat 5) = Inr sample_loading"
proof -
  have "normalize_session_timeout_minutes (f64_of_nat 5) = Inr 5"
    using f64_safe_of_nat [of 5] f64_int_of_nat [of 5]
    by (simp add: normalize_session_timeout_minutes_def f64_is_safe_integer_def
        MIN_SESSION_TIMEOUT_MINUTES_def MAX_SESSION_TIMEOUT_MINUTES_def)
  then show ?thesis by (simp add: controller_new_def sample_loading_def)
qed

lemma sample_app_initialize:
  "app_initialize memory_storage None (memory_default, (), sample_loading)
     = (Inr (ct_state sample_onboarding), (memory_default, (), sample_onboarding))"
  by (simp add: app_initialize_def clear_legacy_authentication_state_def memory_remove_def inspect_state_def
      bindE_apply map_errE_apply memory_get_def memory_default_def set_state_def sample_loading_def Let_def)

definition sample_commands :: "app_command list" where
  "sample_commands =
     [AppCreate (str ''correct horse battery staple'') (f64_of_nat 100) (f64_of_nat 101),
      AppTouch (f64_of_nat 200), AppSetTimeout (f64_of_nat 10) (f64_of_nat 300),
      AppExpire (f64_of_nat 600300), AppDestroy]"

lemma app_follows_autolock_witness:
  "\<exists>outs s c r. run_all (app_step sample_ui memory_storage None) sample_commands
       (memory_default, (), sample_onboarding, 0) = (outs, (s, (), c, r)) \<and>
     spec_run autolock sample_commands outs (5, None) (ct_session_timeout_minutes c, timer_of c) \<and>
     app_inv sample_ui c"
proof -
  obtain outs s t c r where run: "run_all (app_step sample_ui memory_storage None) sample_commands
      (memory_default, (), sample_onboarding, 0) = (outs, (s, t, c, r))"
    by (metis prod_cases5)
  have "f64_int (f64_of_nat 5) = 5" using f64_int_of_nat [of 5] by simp
  with app_follows_autolock [OF sample_ui_deps_laws sample_ui_laws sample_controller_new
      sample_app_initialize run] run
  show ?thesis by simp
qed

text \<open>A stopped timer stays stopped until a session is created or unlocked.\<close>

fun unlocks :: "app_command \<Rightarrow> app_error + unit \<Rightarrow> bool" where
  "unlocks (AppCreate pw now activated) out \<longleftrightarrow> out = Inr ()"
| "unlocks (AppUnlock pw activated) out \<longleftrightarrow> out = Inr ()"
| "unlocks _ out \<longleftrightarrow> False"

lemma autolock_stopped:
  "autolock cmd out (n, None) (n', \<tau>) \<Longrightarrow> \<not> unlocks cmd out \<Longrightarrow> \<tau> = None"
  by (cases cmd) (auto simp: extended_def expired_def observed_def split: if_splits)

lemma spec_run_stopped:
  "spec_run autolock cmds outs a b \<Longrightarrow> snd a = None \<Longrightarrow> list_all2 (\<lambda>cmd out. \<not> unlocks cmd out) cmds outs \<Longrightarrow>
     snd b = None"
proof (induction rule: spec_run.induct)
  case (spec_run_Cons cmd out a a' cmds outs a'')
  then show ?case using autolock_stopped by (cases a; cases a') auto
qed simp

text \<open>C18: An expired session is gone. In any well-formed state of the application, a return to it or
  the check of the deadline at a time that is not before the deadline (or that is no time) drops
  the session, and then, until a session is created or unlocked, nothing that is called brings
  back the session, an entry or a secret. The deadline is enforced by these two calls only:
  activity at such a time, if it comes first, is accepted and moves the deadline.\<close>

theorem expired_session_stays_locked:
  assumes "deps_laws L" and "ui_laws L" and "app_inv L c" and "authentication_deadline c = Some e"
    and "e \<le> f64_int now \<or> \<not> f64_is_safe_integer now" and "cmd \<in> {AppResume now, AppExpire now}"
    and "app_step L D secure cmd (s, t, c, r) = (out, (s1, t1, c1, r1))"
    and "run_all (app_step L D secure) cmds (s1, t1, c1, r1) = (outs, (s2, t2, c2, r2))"
    and "list_all2 (\<lambda>cmd out. \<not> unlocks cmd out) cmds outs"
  shows "ct_session c1 = None \<and> ct_session c2 = None \<and> as_entries (ct_state c2) = [] \<and>
    get_selected_secret L c2 = Inl (App ''locked'') \<and>
    (f64_is_safe_integer now \<longrightarrow> authentication_deadline (snd (touch_session now c)) =
       Some (f64_add_int (f64_int now) (ct_session_timeout_minutes c * MINUTE_MS)))"
proof -
  obtain w where w: "ct_session c = Some w" and e: "ct_session_expires_at c = Some e"
    using assms(4) by (auto simp: authentication_deadline_def split: if_splits)
  obtain l where l: "ct_last_session_timestamp c = Some l" "timer_of c = Some (l, e)" "l < e"
    using timer_running [OF assms(3) w] e by (metis option.inject)
  have "expired now (timer_of c) = None"
    using assms(5) l by (auto simp: expired_def observed_def)
  moreover note step = app_step_moves [OF assms(1-3,7)]
  ultimately have stopped: "timer_of c1 = None"
    using step(2) assms(6) by (auto simp: extended_def observed_def)
  then have 1: "ct_session c1 = None" using timer_stopped [OF step(1)] by simp
  have inv: "app_world_inv L (s1, t1, c1, r1)" using assms(1,2) step(1) by (simp add: app_world_inv_def)
  have "timer_of c2 = None" and c2: "app_inv L c2"
    using spec_run_stopped [OF app.run_spec [OF inv assms(8)] _ assms(9)] app.run_inv [OF inv assms(8)] stopped
    by (simp_all add: app_abs_def app_world_inv_def)
  then have 2: "ct_session c2 = None" using timer_stopped by blast
  then have "as_entries (ct_state c2) = []" using c2 by (simp add: app_inv_def)
  moreover have "get_selected_secret L c2 = Inl (App ''locked'')"
    using 2 by (simp add: get_selected_secret_def require_session_def)
  moreover have "authentication_deadline (snd (touch_session now c)) =
      Some (f64_add_int (f64_int now) (ct_session_timeout_minutes c * MINUTE_MS))"
    if "f64_is_safe_integer now"
    using that assms(5) w l
    by (simp add: touch_session_def observe_session_time_def authentication_deadline_def Let_def
        session_timeout_milliseconds_def)
  ultimately show ?thesis using 1 2 by blast
qed

definition sample_open :: controller where
  "sample_open =
     \<lparr>ct_session = Some (js_idle (cv_unlocked sample_created) (cv_metadata sample_created)),
      ct_session_expires_at = Some 300100, ct_last_session_timestamp = Some 100,
      ct_session_timeout_minutes = 5,
      ct_state = \<lparr>as_screen = ''vault'', as_entries = [], as_selected_id = None, as_editing_id = None\<rparr>\<rparr>"

lemma sample_shown: "shown_entries L (cv_unlocked sample_created) = []"
  using sample_created_facts by (simp add: shown_entries_def entries_of_def)

lemma sample_open_inv: "app_inv L sample_open"
  using sample_created_facts(1) sample_session_meta
  by (auto simp: app_inv_def sample_open_def timer_of_def timer_ok_def sample_shown)

definition sample_late_calls :: "app_command list" where
  "sample_late_calls =
     [AppSaveEntry (str ''t'') (str ''s'') [] (f64_of_nat 300101), AppLock, AppTouch (f64_of_nat 300102)]"

lemma expired_session_stays_locked_witness:
  "\<exists>outs s c r. run_all (app_step sample_ui memory_storage None) sample_late_calls
       (sample_device, (), resume (f64_of_nat 300100) sample_open, 5) = (outs, (s, (), c, r)) \<and>
     ct_session c = None \<and> get_selected_secret sample_ui c = Inl (App ''locked'')"
proof -
  obtain outs s t c r where run: "run_all (app_step sample_ui memory_storage None) sample_late_calls
      (sample_device, (), resume (f64_of_nat 300100) sample_open, 5) = (outs, (s, t, c, r))"
    by (metis prod_cases5)
  then have outs: "list_all2 (\<lambda>cmd out. \<not> unlocks cmd out) sample_late_calls outs"
    by (auto simp: Let_def sample_late_calls_def split: prod.splits)
  have deadline: "authentication_deadline sample_open = Some 300100"
    by (simp add: authentication_deadline_def sample_open_def)
  have late: "300100 \<le> f64_int (f64_of_nat 300100) \<or> \<not> f64_is_safe_integer (f64_of_nat 300100)"
    using f64_int_of_nat [of 300100] by simp
  have step: "app_step sample_ui memory_storage None (AppResume (f64_of_nat 300100))
      (sample_device, (), sample_open, 5)
      = (Inr (), (sample_device, (), resume (f64_of_nat 300100) sample_open, 5))" by simp
  show ?thesis
    using expired_session_stays_locked [OF sample_ui_deps_laws sample_ui_laws sample_open_inv deadline late
        _ step run outs] run
    by simp
qed

end
