(* ===== verification/Page_Properties.thy ===== *)
theory Page_Properties
  imports App_Shell Bootstrap Controller_Properties
begin

text \<open>
  The properties of the page: the timer behind the automatic lock, and the preferences that it
  keeps in the local storage.
\<close>

section \<open>Preferences\<close>

lemma preference_keys [simp]:
  "SESSION_TIMEOUT_STORAGE_KEY \<noteq> []" "THEME_STORAGE_KEY \<noteq> []"
  "THEME_STORAGE_KEY \<noteq> SESSION_TIMEOUT_STORAGE_KEY"
  by (simp_all add: SESSION_TIMEOUT_STORAGE_KEY_def THEME_STORAGE_KEY_def) (simp_all add: str_def)

lemma normalize_Inr:
  "normalize_session_timeout_minutes x = Inr n \<longleftrightarrow> f64_is_integer x \<and> n = f64_int x \<and> 1 \<le> n \<and> n \<le> 1440"
  by (auto simp: normalize_session_timeout_minutes_def MIN_SESSION_TIMEOUT_MINUTES_def
      MAX_SESSION_TIMEOUT_MINUTES_def)

lemma normalize_of_nat:
  assumes "1 \<le> n" and "n \<le> 1440"
  shows "normalize_session_timeout_minutes (f64_of_nat (nat n)) = Inr n"
proof -
  have "nat n < 2 ^ 53" using assms(2) by simp
  from f64_int_of_nat [OF this] f64_safe_of_nat [OF this] assms show ?thesis
    by (simp add: normalize_Inr f64_is_safe_integer_def)
qed

lemma normalize_decimal:
  assumes "1 \<le> n" and "n \<le> 1440"
  shows "normalize_timeout_text (decimal (nat n)) = Inr n"
proof -
  have "nat n < 2 ^ 53" using assms(2) by simp
  then show ?thesis
    by (simp add: normalize_timeout_text_def js_number_decimal normalize_of_nat [OF assms])
qed

lemma load_session_timeout_ok: "local \<noteq> Blocked \<Longrightarrow> \<exists>n p'. load_session_timeout_minutes local p = (Inr n, p')"
  by (auto simp: load_session_timeout_minutes_def split: local_storage.splits prod.splits sum.splits option.splits)

lemma load_session_timeout_range:
  assumes "load_session_timeout_minutes local p = (Inr n, p')"
  shows "1 \<le> n" and "n \<le> 1440"
  using assms
  by (auto simp: load_session_timeout_minutes_def DEFAULT_SESSION_TIMEOUT_MINUTES_def normalize_timeout_text_def
      normalize_Inr split: local_storage.splits prod.splits sum.splits option.splits)

lemma controller_new_of_nat:
  assumes "1 \<le> n" and "n \<le> 1440"
  obtains c where "controller_new (f64_of_nat (nat n)) = Inr c" and "ct_session_timeout_minutes c = n"
    and "app_inv L c"
  using assms that
  by (auto simp: controller_new_def normalize_of_nat app_inv_def)

text \<open>C30: A preference cannot keep the application from starting. Whatever the local storage holds
  under the key of the timeout, whether it answers or throws, and where there is none, \<open>boot\<close> gets a
  well-formed controller with a timeout of 1 to 1440 minutes. The one exception is a browser that
  throws when the page asks for its local storage: then the error leaves \<open>loadSessionTimeoutMinutes\<close>,
  whose \<open>try\<close> block does not cover the default of its parameter, and there is no controller.\<close>

theorem preference_does_not_stop_the_start:
  "case local of
     Blocked \<Rightarrow> boot_controller local p = (Inl Security_error, p)
   | _ \<Rightarrow> (\<exists>c p'. boot_controller local p = (Inr c, p') \<and> app_inv L c \<and> ct_session c = None \<and>
       1 \<le> ct_session_timeout_minutes c \<and> ct_session_timeout_minutes c \<le> 1440 \<and>
       fst (load_session_timeout_minutes local p) = Inr (ct_session_timeout_minutes c))"
proof (cases "local = Blocked")
  case True
  then show ?thesis by (simp add: boot_controller_def load_session_timeout_minutes_def bindE_apply)
next
  case False
  then obtain n p' where load: "load_session_timeout_minutes local p = (Inr n, p')"
    by (metis load_session_timeout_ok)
  note range = load_session_timeout_range [OF load]
  obtain c where c: "controller_new (f64_of_nat (nat n)) = Inr c" "ct_session_timeout_minutes c = n" "app_inv L c"
    by (rule controller_new_of_nat [OF range])
  have "ct_session c = None" using c(1) by (auto simp: controller_new_def and_then_Inr)
  then have "\<exists>c p'. boot_controller local p = (Inr c, p') \<and> app_inv L c \<and> ct_session c = None \<and>
       1 \<le> ct_session_timeout_minutes c \<and> ct_session_timeout_minutes c \<le> 1440 \<and>
       fst (load_session_timeout_minutes local p) = Inr (ct_session_timeout_minutes c)"
    using c range load by (simp add: boot_controller_def bindE_apply lift_def)
  with False show ?thesis by (cases local) simp_all
qed

text \<open>C29: The timeout that the user chooses is the one that the next start uses. When the form accepts a
  text, the controller has its value, a whole number of minutes from 1 to 1440, and counts a running
  session from then on with it; on a working local storage every later start, while nothing else
  writes the key, reads the same number back and gives it to its controller; other keys are untouched.\<close>

theorem timeout_choice_survives_restart:
  assumes "lawful_storage P vals reliable" and "app_inv L c" and "reliable p"
    and "apply_session_timeout (Present P) value now (p, c) = (Inr True, (p', c'))"
    and "reliable q" and "vals q SESSION_TIMEOUT_STORAGE_KEY = vals p' SESSION_TIMEOUT_STORAGE_KEY"
  shows "\<exists>text n q' c0. value = Some text \<and> normalize_timeout_text text = Inr n \<and> 1 \<le> n \<and> n \<le> 1440 \<and>
    ct_session_timeout_minutes c' = n \<and> timer_of c' = extended n now (timer_of c) \<and>
    load_session_timeout_minutes (Present P) q = (Inr n, q') \<and>
    boot_controller (Present P) q = (Inr c0, q') \<and> ct_session_timeout_minutes c0 = n \<and>
    (\<forall>k. k \<noteq> SESSION_TIMEOUT_STORAGE_KEY \<longrightarrow> vals p' k = vals p k)"
proof -
  have there: "Present P \<noteq> Blocked" by simp
  from there assms(4) obtain minutes n where set: "set_session_timeout_minutes minutes now c = (Inr n, c')"
    and minutes: "minutes = (case value of None \<Rightarrow> f64_nan | Some text \<Rightarrow> js_number text)"
    and save: "save_session_timeout_minutes (Present P) minutes p = (Inr n, p')"
    by (cases rule: apply_session_timeout_cases) auto
  note c' = set_timeout_moves [OF assms(2) set, simplified]
  have norm: "normalize_session_timeout_minutes minutes = Inr n"
    using set by (auto simp: set_session_timeout_minutes_def split: sum.splits)
  obtain p1 where "ds_set P SESSION_TIMEOUT_STORAGE_KEY (decimal (nat n)) p = (Inr (), p1)"
    using lawful_storage.reliable_set [OF assms(1,3) preference_keys(1)] by blast
  with save norm have "vals p' = (vals p)(SESSION_TIMEOUT_STORAGE_KEY \<mapsto> decimal (nat n))"
    using lawful_storage.set_ok [OF assms(1)] by (auto simp: save_session_timeout_minutes_def)
  moreover obtain q' where "ds_get P SESSION_TIMEOUT_STORAGE_KEY q = (Inr (vals q SESSION_TIMEOUT_STORAGE_KEY), q')"
    using lawful_storage.reliable_get [OF assms(1,5) preference_keys(1)] by blast
  ultimately have load: "load_session_timeout_minutes (Present P) q = (Inr n, q')"
    and others: "\<forall>k. k \<noteq> SESSION_TIMEOUT_STORAGE_KEY \<longrightarrow> vals p' k = vals p k"
    using assms(6) c' normalize_decimal [of n] by (simp_all add: load_session_timeout_minutes_def)
  obtain c0 where "controller_new (f64_of_nat (nat n)) = Inr c0" "ct_session_timeout_minutes c0 = n"
    using controller_new_of_nat [of n] c' by blast
  then have boot: "boot_controller (Present P) q = (Inr c0, q')" "ct_session_timeout_minutes c0 = n"
    by (simp_all add: boot_controller_def bindE_apply load lift_def)
  have "\<not> f64_is_integer f64_nan"
    by (simp add: f64_nan_def f64_is_integer_def f64_is_finite_def f64_exponent_def unat_of_nat)
  then obtain entered where "value = Some entered" using minutes norm by (cases "value") (auto simp: normalize_Inr)
  with minutes norm c' load boot others show ?thesis by (auto simp: normalize_timeout_text_def)
qed

text \<open>A start on an empty local storage, a form that gets a text, and the start after it.\<close>

definition timeout_form_text :: rstring where
  "timeout_form_text = decimal 15"

lemma form_minutes: "js_number timeout_form_text = f64_of_nat 15"
  by (simp add: timeout_form_text_def js_number_decimal)

lemma sample_form_accepts:
  "\<exists>p' c'. apply_session_timeout (Present memory_storage) (Some timeout_form_text) (f64_of_nat 200)
     (memory_default, sample_open) = (Inr True, (p', c'))"
proof -
  have n: "normalize_session_timeout_minutes (f64_of_nat 15) = Inr 15" using normalize_of_nat [of 15] by simp
  then have ok: "f64_is_integer (f64_of_nat 15)" "f64_int (f64_of_nat 15) = 15" by (simp_all add: normalize_Inr)
  show ?thesis
    by (simp add: apply_session_timeout_def form_minutes ok n MIN_SESSION_TIMEOUT_MINUTES_def
        MAX_SESSION_TIMEOUT_MINUTES_def set_session_timeout_minutes_def save_session_timeout_minutes_def)
qed

lemma timeout_choice_survives_restart_witness:
  "\<exists>p' c' q' c0. apply_session_timeout (Present memory_storage) (Some timeout_form_text) (f64_of_nat 200)
       (memory_default, sample_open) = (Inr True, (p', c')) \<and>
     boot_controller (Present memory_storage) (memory_default\<lparr>ms_values := ms_values p'\<rparr>) = (Inr c0, q') \<and>
     ct_session_timeout_minutes c' = 15 \<and> ct_session_timeout_minutes c0 = 15"
proof -
  obtain p' c' where run: "apply_session_timeout (Present memory_storage) (Some timeout_form_text)
      (f64_of_nat 200) (memory_default, sample_open) = (Inr True, (p', c'))"
    using sample_form_accepts by blast
  have rel: "memory_reliable memory_default" "memory_reliable (memory_default\<lparr>ms_values := ms_values p'\<rparr>)"
    by (simp_all add: memory_reliable_def memory_default_def)
  have 15: "normalize_timeout_text timeout_form_text = Inr 15"
    using normalize_decimal [of 15] by (simp add: timeout_form_text_def)
  have same: "ms_values (memory_default\<lparr>ms_values := ms_values p'\<rparr>) SESSION_TIMEOUT_STORAGE_KEY
      = ms_values p' SESSION_TIMEOUT_STORAGE_KEY" by simp
  from timeout_choice_survives_restart [OF mem.lawful_storage_axioms sample_open_inv rel(1) run rel(2) same]
  show ?thesis using run 15 by auto
qed

text \<open>The theme that the user chooses stays. After a choice that is to be kept, the document shows
  that theme; no change of the system theme touches it; and on a working local storage the next
  start, whatever the system theme is then, shows it again. Without a stored choice the start shows
  the system theme and follows it.\<close>

theorem theme_choice_is_kept:
  assumes "lawful_storage P vals reliable" and "reliable s" and "supported_theme choice = Some theme"
    and "set_theme (Present P) choice True (th, s) = (th', s')"
    and "reliable q" and "vals q THEME_STORAGE_KEY = vals s' THEME_STORAGE_KEY"
  shows "th_shown th' = theme \<and> system_theme_changed dark th' = th' \<and>
    (\<exists>th2 q'. initialize_theme (Present P) query q = (th2, q') \<and> th_shown th2 = theme \<and>
      system_theme_changed dark th2 = th2) \<and>
    (vals s THEME_STORAGE_KEY = None \<longrightarrow> (\<exists>th0 s0. initialize_theme (Present P) (Some night) s = (th0, s0) \<and>
      th_shown th0 = (if night then Dark else Light) \<and>
      th_shown (system_theme_changed dark th0) = (if dark then Dark else Light)))"
proof (intro conjI impI)
  have th': "th' = apply_theme (th\<lparr>th_current := theme, th_manual := True\<rparr>)"
    and s': "s' = snd (ds_set P THEME_STORAGE_KEY (theme_text theme) s)"
    using assms(3,4) by (simp_all add: set_theme_def write_stored_theme_def)
  show "th_shown th' = theme" "system_theme_changed dark th' = th'"
    by (simp_all add: th' apply_theme_def system_theme_changed_def)
  obtain s1 where "ds_set P THEME_STORAGE_KEY (theme_text theme) s = (Inr (), s1)"
    using lawful_storage.reliable_set [OF assms(1,2) preference_keys(2)] by blast
  then have "vals s' THEME_STORAGE_KEY = Some (theme_text theme)"
    using lawful_storage.set_ok [OF assms(1)] s' by fastforce
  moreover obtain q' where "ds_get P THEME_STORAGE_KEY q = (Inr (vals q THEME_STORAGE_KEY), q')"
    using lawful_storage.reliable_get [OF assms(1,5) preference_keys(2)] by blast
  moreover have "supported_theme (theme_text theme) = Some theme"
    by (cases theme) (simp_all add: supported_theme_def)
  ultimately have "read_stored_theme (Present P) q = (Some theme, q')"
    using assms(6) by (simp add: read_stored_theme_def)
  then show "\<exists>th2 q'. initialize_theme (Present P) query q = (th2, q') \<and> th_shown th2 = theme \<and>
      system_theme_changed dark th2 = th2"
    by (simp add: initialize_theme_def apply_theme_def system_theme_changed_def)
next
  assume none: "vals s THEME_STORAGE_KEY = None"
  obtain s0 where "ds_get P THEME_STORAGE_KEY s = (Inr (vals s THEME_STORAGE_KEY), s0)"
    using lawful_storage.reliable_get [OF assms(1,2) preference_keys(2)] by blast
  with none have "read_stored_theme (Present P) s = (None, s0)" by (simp add: read_stored_theme_def)
  then show "\<exists>th0 s0. initialize_theme (Present P) (Some night) s = (th0, s0) \<and>
      th_shown th0 = (if night then Dark else Light) \<and>
      th_shown (system_theme_changed dark th0) = (if dark then Dark else Light)"
    by (simp add: initialize_theme_def apply_theme_def system_theme_changed_def theme_from_query_def)
qed

definition sample_theme :: theme_state where
  "sample_theme = \<lparr>th_current = Light, th_manual = False, th_query = True, th_shown = Light\<rparr>"

lemma theme_choice_is_kept_witness:
  "\<exists>th' s' th2 q'. set_theme (Present memory_storage) (str ''dark'') True (sample_theme, memory_default) = (th', s') \<and>
     initialize_theme (Present memory_storage) (Some False) (memory_default\<lparr>ms_values := ms_values s'\<rparr>) = (th2, q') \<and>
     th_shown th2 = Dark"
proof -
  obtain th' s' where set: "set_theme (Present memory_storage) (str ''dark'') True (sample_theme, memory_default)
      = (th', s')" by fastforce
  have "supported_theme (str ''dark'') = Some Dark" by (simp add: supported_theme_def)
  moreover have rel: "memory_reliable memory_default" "memory_reliable (memory_default\<lparr>ms_values := ms_values s'\<rparr>)"
    by (simp_all add: memory_reliable_def memory_default_def)
  moreover have "ms_values (memory_default\<lparr>ms_values := ms_values s'\<rparr>) THEME_STORAGE_KEY
      = ms_values s' THEME_STORAGE_KEY" by simp
  ultimately show ?thesis
    using theme_choice_is_kept [OF mem.lawful_storage_axioms rel(1) _ set rel(2)] set by blast
qed

section \<open>The automatic lock on the page\<close>

text \<open>C23: An open session always has its timer. From the start of the page, for every sequence of
  activity, leaving and returning, timers, forms and actions, all outcomes of the devices and all
  times: without a session no timer is pending, and with one the pending timer is the one for its
  deadline. Unless the clock has stepped back since the session saw it last, its delay is exactly
  the time that is left, at most 24 hours and a millisecond, so \<open>setTimeout\<close> does not cut it off at
  32 bits; and when it fires after that delay, the session is locked. The page has to have started,
  so its local storage did not throw.\<close>

theorem open_session_has_a_timer:
  assumes "deps_laws L" and "ui_laws L" and "boot_controller local p = (Inr c0, p0)"
    and "app_initialize D secure (s0, t0, c0) = (Inr st, (s, t, c))"
    and "page_run L D secure local evs ((s, t, c, r), p0, shell_start) = ((s2, t2, c2, r2), p2, sh2)"
  shows "app_inv L c2 \<and> (if ct_session c2 = None then sh_timer sh2 = None
    else \<exists>e seen armed_at delay. authentication_deadline c2 = Some e \<and> ct_last_session_timestamp c2 = Some seen \<and>
      sh_timer sh2 = Some (armed_at, delay) \<and>
      (seen \<le> armed_at \<longrightarrow> delay = max 0 (e - armed_at) \<and> delay \<le> 86400001 \<and>
        (\<forall>now later s3 t3 c3 r3 p3 sh3. armed_at + delay \<le> f64_int now \<longrightarrow>
          page_event_step L D secure local (Timer now later) ((s2, t2, c2, r2), p2, sh2)
            = ((s3, t3, c3, r3), p3, sh3) \<longrightarrow>
          ct_session c3 = None \<and> sh_timer sh3 = None)))"
proof -
  obtain n p1 where load: "load_session_timeout_minutes local p = (Inr n, p1)"
    and new: "controller_new (f64_of_nat (nat n)) = Inr c0"
    using assms(3) by (auto simp: boot_controller_def bindE_apply lift_def split: sum.splits prod.splits)
  have there: "local \<noteq> Blocked" using load by (auto simp: load_session_timeout_minutes_def)
  have init: "app_inv L c" "timer_of c = None" by (rule initialized_inv [OF new assms(4)])+
  then have "page_inv L ((s, t, c, r), p0, shell_start)"
    by (simp add: page_inv_def armed_def deadline_timer shell_start_def)
  from page_run_inv [OF assms(1,2) there this, of D secure evs]
  have c2: "app_inv L c2" and a: "armed c2 sh2" by (simp_all add: assms(5) page_inv_def)
  show ?thesis
  proof (cases "ct_session c2")
    case None
    with c2 a show ?thesis by (simp add: armed_def authentication_deadline_def)
  next
    case (Some w)
    obtain seen e where l: "ct_last_session_timestamp c2 = Some seen" and e: "ct_session_expires_at c2 = Some e"
      using timer_running [OF c2 Some] by metis
    have d: "authentication_deadline c2 = Some e" using Some e by (simp add: authentication_deadline_def)
    then obtain t1 delay where t1: "sh_timer sh2 = Some (t1, delay)" using a by (auto simp: armed_def)
    have "ct_session c3 = None \<and> sh_timer sh3 = None"
      if "seen \<le> t1" "t1 + delay \<le> f64_int now"
        "page_event_step L D secure local (Timer now later) ((s2, t2, c2, r2), p2, sh2)
           = ((s3, t3, c3, r3), p3, sh3)" for now later s3 t3 c3 r3 p3 sh3
    proof -
      have "e \<le> f64_int now" using armed_delay(1) [OF c2 a d l t1 that(1)] that(2) by simp
      with late_timer_locks [OF c2 d _ _ that(3)] t1 show ?thesis by simp
    qed
    with armed_delay [OF c2 a d l t1] d l t1 Some c2 show ?thesis by auto
  qed
qed

definition sample_page_events :: "page_event list" where
  "sample_page_events =
     [Action (AppCreate (str ''correct horse battery staple'') (f64_of_nat 100) (f64_of_nat 101)) (f64_of_nat 102),
      Activity (f64_of_nat 200) (f64_of_nat 200), Deactivated (f64_of_nat 300) (f64_of_nat 301),
      Activated False (f64_of_nat 400) (f64_of_nat 400),
      Timeout_form (Some timeout_form_text) (f64_of_nat 500) (f64_of_nat 500)]"

lemma sample_boot_controller:
  "boot_controller (Present memory_storage) memory_default = (Inr sample_loading, memory_default)"
  using sample_controller_new
  by (simp add: boot_controller_def load_session_timeout_minutes_def bindE_apply lift_def memory_get_def
      memory_default_def DEFAULT_SESSION_TIMEOUT_MINUTES_def)

lemma open_session_has_a_timer_witness:
  "\<exists>s c r p sh. page_run sample_ui memory_storage None (Present memory_storage) sample_page_events
       ((memory_default, (), sample_onboarding, 0), memory_default, shell_start) = ((s, (), c, r), p, sh) \<and>
     app_inv sample_ui c \<and> (sh_timer sh = None \<longleftrightarrow> ct_session c = None)"
proof -
  obtain s t c r p sh where run: "page_run sample_ui memory_storage None (Present memory_storage)
      sample_page_events ((memory_default, (), sample_onboarding, 0), memory_default, shell_start)
      = ((s, t, c, r), p, sh)" by (metis prod.collapse)
  from open_session_has_a_timer [OF sample_ui_deps_laws sample_ui_laws sample_boot_controller
      sample_app_initialize run] run
  show ?thesis by (auto split: if_splits)
qed

end
