(* ===== verification/Interleaving.thy ===== *)
theory Interleaving
  imports Controller_Machine
begin

text \<open>
  A save in the browser while the page goes on. \<open>saveEntry\<close> and \<open>deleteSelected\<close> of
  \<open>app-controller.js\<close> wait for the storage; until it answers, the page may call the methods of the
  controller that do not wait: the timer of the automatic lock, activity, the lock button, the
  navigation. Here each \<open>await\<close> of \<open>saveSession\<close> comes with the calls that the page makes before
  the method goes on. The method and the controller share one session object: what is pending in
  it is seen by both, and \<open>lock()\<close> locks it for both.
\<close>

section \<open>Calls of the page\<close>

datatype page_call =
    PageLock
  | PageDeactivate f64
  | PageResume f64
  | PageTouch f64
  | PageExpire f64
  | PageNavigate string
  | PageOpenEntry rstring
  | PageBeginEdit "rstring option"
  | PageSetTimeout f64 f64

fun page_step :: "('r, 'z) ui_deps_scheme \<Rightarrow> page_call \<Rightarrow> controller \<Rightarrow> controller" where
  "page_step L PageLock c = app_lock c"
| "page_step L (PageDeactivate now) c = snd (deactivate now c)"
| "page_step L (PageResume now) c = resume now c"
| "page_step L (PageTouch now) c = snd (touch_session now c)"
| "page_step L (PageExpire now) c = snd (expire_authentication now c)"
| "page_step L (PageNavigate screen) c = snd (navigate screen c)"
| "page_step L (PageOpenEntry eid) c = snd (open_entry L eid c)"
| "page_step L (PageBeginEdit eid) c = snd (begin_edit L eid c)"
| "page_step L (PageSetTimeout minutes now) c = snd (set_session_timeout_minutes minutes now c)"

text \<open>The session object as the controller sees it, while it still holds it.\<close>

definition attach :: "wasm_vault_session \<Rightarrow> controller \<Rightarrow> controller" where
  "attach w c = (if ct_session c = None then c else c\<lparr>ct_session := Some w\<rparr>)"

text \<open>A call of the page on the shared object: a controller that drops the session has locked it.\<close>

definition page_shared ::
  "('r, 'z) ui_deps_scheme \<Rightarrow> wasm_vault_session \<times> controller \<Rightarrow> page_call
     \<Rightarrow> wasm_vault_session \<times> controller" where
  "page_shared L = (\<lambda>(w, c) call.
     let c' = page_step L call (attach w c) in
     (if ct_session c \<noteq> None \<and> ct_session c' = None then wasm_lock w else w, c'))"

definition page_calls ::
  "('r, 'z) ui_deps_scheme \<Rightarrow> page_call list \<Rightarrow> wasm_vault_session \<times> controller
     \<Rightarrow> wasm_vault_session \<times> controller" where
  "page_calls L calls x = foldl (page_shared L) x calls"

section \<open>A save with calls in between\<close>

type_synonym 's paged = "'s \<times> wasm_vault_session \<times> controller"

definition awaiting ::
  "('r, 'z) ui_deps_scheme \<Rightarrow> page_call list \<Rightarrow> ('s, storage_error, 'a) eff
     \<Rightarrow> ('s paged, client_error, 'a) eff" where
  "awaiting L calls f = (\<lambda>(s, w, c).
     case f s of (res, s') \<Rightarrow> (map_err Device res, (s', page_calls L calls (w, c))))"

definition with_session ::
  "(wasm_vault_session \<Rightarrow> (js_value + 'a) \<times> wasm_vault_session) \<Rightarrow> ('s paged, client_error, 'a) eff" where
  "with_session f = (\<lambda>(s, w, c). case f w of (res, w') \<Rightarrow> (map_err Session res, (s, w', c)))"

text \<open>The \<open>try\<close> block of \<open>saveSession\<close> with its four awaits.\<close>

definition write_save_paged ::
  "('r, 'z) ui_deps_scheme \<Rightarrow> 's device_storage \<Rightarrow> wasm_save_bundle \<Rightarrow> (nat \<Rightarrow> page_call list)
     \<Rightarrow> ('s paged, client_error, unit) eff" where
  "write_save_paged L D handed page =
     bindE (awaiting L (page 1) (ds_set D (save_bundle_slot_key handed) (save_bundle_slot_json handed))) (\<lambda>_.
     bindE (awaiting L (page 2) (ds_get D (save_bundle_slot_key handed))) (\<lambda>got.
     bindE (lift (ok_or (Persistence ''missing_slot_readback'') got)) (\<lambda>slot_readback.
     bindE (with_session (wasm_verify_pending_slot L slot_readback)) (\<lambda>_.
     bindE (awaiting L (page 3) (ds_set D ACTIVE_SLOT_KEY (save_bundle_active_pointer_json handed))) (\<lambda>_.
     bindE (awaiting L (page 4) (ds_get D ACTIVE_SLOT_KEY)) (\<lambda>got.
     bindE (lift (ok_or (Persistence ''missing_pointer_readback'') got)) (\<lambda>pointer_readback.
     with_session (wasm_commit_pending_save L pointer_readback))))))))"

definition save_session_paged ::
  "('r, 'z) ui_deps_scheme \<Rightarrow> 's device_storage \<Rightarrow> (nat \<Rightarrow> page_call list)
     \<Rightarrow> ('s paged \<times> 'r, client_error, unit) eff" where
  "save_session_paged L D page = (\<lambda>((s, w, c), r).
     case wasm_prepare_save L (w, r) of
       (Inl e, (w', r')) \<Rightarrow> (Inl (Session e), ((s, w', c), r'))
     | (Inr handed, (w', r')) \<Rightarrow>
         if save_bundle_slot_key handed \<notin> set ALLOWED_SLOT_KEYS
         then (Inl (Persistence ''invalid_slot_key''), ((s, wasm_cancel_pending_save w', c), r'))
         else
           (case write_save_paged L D handed page (s, w', c) of
              (Inl e, (s', w'', c')) \<Rightarrow> (Inl e, ((s', wasm_cancel_pending_save w'', c'), r'))
            | (Inr _, (s', w'', c')) \<Rightarrow> (Inr (), ((s', w'', c'), r'))))"

text \<open>\<open>saveEntry\<close> and \<open>deleteSelected\<close> after the edit; the fifth await is that of \<open>saveSession\<close>
  itself.\<close>

definition save_edited_paged ::
  "('r, 'z) ui_deps_scheme \<Rightarrow> 's device_storage \<Rightarrow> (nat \<Rightarrow> page_call list) \<Rightarrow> js_value + 'a
     \<Rightarrow> wasm_vault_session \<Rightarrow> ('s \<times> controller \<times> 'r, app_error, unit) eff" where
  "save_edited_paged L D page edit session = (\<lambda>(s, c, r).
     let c1 = c\<lparr>ct_session := Some session\<rparr> in
     case edit of
       Inl e \<Rightarrow> (Inl (Client (Session e)), (s, app_lock c1, r))
     | Inr _ \<Rightarrow>
         (case save_session_paged L D page ((s, session, c1), r) of
            (res, ((s', w, c2), r')) \<Rightarrow>
              (case page_calls L (page 5) (w, c2) of
                 (w', c3) \<Rightarrow>
                   (case res of
                      Inl e \<Rightarrow> (Inl (Client e), (s', app_lock (attach w' c3), r'))
                    | Inr _ \<Rightarrow>
                        (case refresh_entries L (attach w' c3) of
                           (Inl e, c4) \<Rightarrow> (Inl e, (s', app_lock c4, r'))
                         | (Inr _, c4) \<Rightarrow> (Inr (), (s', set_state (screen_only ''vault'') c4, r')))))))"

definition app_save_entry_paged ::
  "('r, 'z) ui_deps_scheme \<Rightarrow> 's device_storage \<Rightarrow> (nat \<Rightarrow> page_call list) \<Rightarrow> rstring \<Rightarrow> rstring
     \<Rightarrow> rstring \<Rightarrow> f64 \<Rightarrow> ('s \<times> controller \<times> 'r, app_error, unit) eff" where
  "app_save_entry_paged L D page title secret description now = (\<lambda>(s, c, r).
     case require_session c of
       Inl e \<Rightarrow> (Inl e, (s, c, r))
     | Inr session \<Rightarrow>
         (case entry_edit L (as_editing_id (ct_state c)) title secret (normalized_description description)
                 now (session, r) of
            (res, (session', r')) \<Rightarrow> save_edited_paged L D page res session' (s, c, r')))"

definition app_delete_selected_paged ::
  "('r, 'z) ui_deps_scheme \<Rightarrow> 's device_storage \<Rightarrow> (nat \<Rightarrow> page_call list) \<Rightarrow> f64
     \<Rightarrow> ('s \<times> controller \<times> 'r, app_error, unit) eff" where
  "app_delete_selected_paged L D page now = (\<lambda>(s, c, r).
     case and_then (require_session c) (\<lambda>session.
          and_then (selected_entry c) (\<lambda>eid. Inr (session, eid))) of
       Inl e \<Rightarrow> (Inl e, (s, c, r))
     | Inr (session, eid) \<Rightarrow>
         (case wasm_delete_entry L eid now session of
            (res, session') \<Rightarrow> save_edited_paged L D page res session' (s, c, r)))"

section \<open>A change of the password with calls in between\<close>

text \<open>The \<open>try\<close> block of the client's \<open>changeMasterPassword\<close> with its two awaits, the method, and the
  method of the controller, which waits for it.\<close>

definition write_password_change_paged ::
  "('r, 'z) ui_deps_scheme \<Rightarrow> 's device_storage \<Rightarrow> rstring \<Rightarrow> (nat \<Rightarrow> page_call list)
     \<Rightarrow> ('s paged, client_error, unit) eff" where
  "write_password_change_paged L D metadata_json page =
     bindE (awaiting L (page 1) (ds_set D META_KEY metadata_json)) (\<lambda>_.
     bindE (awaiting L (page 2) (ds_get D META_KEY)) (\<lambda>got.
     bindE (lift (ok_or (Persistence ''missing_metadata_readback'') got)) (\<lambda>readback.
     with_session (wasm_commit_password_change L readback))))"

definition change_master_password_paged ::
  "('r, 'z) ui_deps_scheme \<Rightarrow> 's device_storage \<Rightarrow> (nat \<Rightarrow> page_call list) \<Rightarrow> rstring \<Rightarrow> rstring
     \<Rightarrow> ('s paged \<times> 'r, client_error, unit) eff" where
  "change_master_password_paged L D page current_master_password new_master_password = (\<lambda>((s, w, c), r).
     case wasm_prepare_password_change L current_master_password new_master_password (w, r) of
       (Inl e, (w', r')) \<Rightarrow> (Inl (Session e), ((s, w', c), r'))
     | (Inr metadata_json, (w', r')) \<Rightarrow>
         (case write_password_change_paged L D metadata_json page (s, w', c) of
            (Inl e, (s', w'', c')) \<Rightarrow> (Inl e, ((s', wasm_cancel_password_change w'', c'), r'))
          | (Inr _, (s', w'', c')) \<Rightarrow> (Inr (), ((s', w'', c'), r'))))"

definition app_change_master_password_paged ::
  "('r, 'z) ui_deps_scheme \<Rightarrow> 's device_storage \<Rightarrow> (nat \<Rightarrow> page_call list) \<Rightarrow> rstring \<Rightarrow> rstring \<Rightarrow> f64
     \<Rightarrow> ('s \<times> controller \<times> 'r, app_error, unit) eff" where
  "app_change_master_password_paged L D page current_master_password new_master_password now = (\<lambda>(s, c, r).
     case require_session c of
       Inl e \<Rightarrow> (Inl e, (s, c, r))
     | Inr session \<Rightarrow>
         (case change_master_password_paged L D page current_master_password new_master_password
                 ((s, session, c), r) of
            (res, ((s', w, c1), r')) \<Rightarrow>
              (case page_calls L (page 3) (w, c1) of
                 (w', c2) \<Rightarrow>
                   (case res of
                      Inr _ \<Rightarrow>
                        (Inr (), (s', set_state (\<lambda>st. st\<lparr>as_screen := ''settings''\<rparr>)
                           (snd (touch_session now (attach w' c2))), r'))
                    | Inl e \<Rightarrow>
                        let c' = attach w' c2 in
                        (Inl (Client e), (s', if keeps_session e then c' else app_lock c', r'))))))"

section \<open>What the page can do to the session\<close>

lemma attach_simps [simp]:
  "attach w (attach w' c) = attach w c"
  "ct_session (attach w c) = None \<longleftrightarrow> ct_session c = None"
  "app_lock (attach w c) = app_lock c"
  "attach w (app_lock c) = app_lock c"
  "ct_session (app_lock c) = None"
  "attach w (c\<lparr>ct_session := None\<rparr>) = c\<lparr>ct_session := None\<rparr>"
  by (simp_all add: attach_def app_lock_def set_state_def)

lemma attach_fields [simp]:
  "ct_session_expires_at (attach w c) = ct_session_expires_at c"
  "ct_last_session_timestamp (attach w c) = ct_last_session_timestamp c"
  "session_timeout_milliseconds (attach w c) = session_timeout_milliseconds c"
  "(attach w c)\<lparr>ct_session_expires_at := e\<rparr> = attach w (c\<lparr>ct_session_expires_at := e\<rparr>)"
  "(attach w c)\<lparr>ct_last_session_timestamp := e\<rparr> = attach w (c\<lparr>ct_last_session_timestamp := e\<rparr>)"
  "(attach w c)\<lparr>ct_session_timeout_minutes := n\<rparr> = attach w (c\<lparr>ct_session_timeout_minutes := n\<rparr>)"
  "set_state p (attach w c) = attach w (set_state p c)"
  by (simp_all add: attach_def session_timeout_milliseconds_def set_state_def)

lemma attach_closed: "ct_session c = None \<Longrightarrow> attach w c = c"
  by (simp add: attach_def)

lemma attach_same: "ct_session c \<in> {None, Some w} \<Longrightarrow> attach w c = c"
  by (cases c) (auto simp: attach_def)

text \<open>The methods that only look at the time do not look into the session.\<close>

lemma observe_swap:
  "observe_session_time now (attach w c) =
     (case observe_session_time now c of (b, c') \<Rightarrow> (b, attach w c'))"
  by (simp add: observe_session_time_def)

lemma touch_swap: "snd (touch_session now (attach w c)) = attach w (snd (touch_session now c))"
  by (auto simp: touch_session_def observe_swap Let_def split: prod.splits bool.splits)

lemma expire_swap:
  "expire_authentication now (attach w c) =
     (case expire_authentication now c of (b, c') \<Rightarrow> (b, attach w c'))"
  by (auto simp: expire_authentication_def observe_swap split: prod.splits option.splits bool.splits)

lemma resume_swap: "resume now (attach w c) = attach w (resume now c)"
  by (auto simp: resume_def expire_swap touch_swap split: prod.splits bool.splits)

lemma set_timeout_swap:
  "snd (set_session_timeout_minutes minutes now (attach w c))
     = attach w (snd (set_session_timeout_minutes minutes now c))"
  by (auto simp: set_session_timeout_minutes_def touch_swap split: sum.splits)

text \<open>A call of the page keeps the controller well formed, seen with the object \<open>w0\<close> that it had
  before the edit, and never brings a session back.\<close>

lemma navigate_cases:
  "snd (navigate screen c) = c \<or> snd (navigate screen c) = set_state (\<lambda>st. st\<lparr>as_screen := screen\<rparr>) c"
  by (auto simp: navigate_def split: sum.splits)

lemma open_entry_cases:
  "snd (open_entry L eid c) = c \<or> ct_session c \<noteq> None \<and> snd (open_entry L eid c) =
     set_state (\<lambda>st. st\<lparr>as_screen := ''detail'', as_selected_id := Some eid, as_editing_id := None\<rparr>) c"
  by (auto simp: open_entry_def and_then_Inr require_session_Inr split: sum.splits)

lemma begin_edit_cases:
  "snd (begin_edit L eid c) = c \<or> ct_session c \<noteq> None \<and> snd (begin_edit L eid c) =
     set_state (\<lambda>st. st\<lparr>as_screen := ''edit'', as_editing_id := eid, as_selected_id := eid\<rparr>) c"
  by (auto simp: begin_edit_def and_then_Inr require_session_Inr split: sum.splits)

lemma closed_stays:
  assumes c: "ct_session c = None"
  shows "ct_session (page_step L call c) = None"
proof (cases call)
  case (PageNavigate screen)
  with c navigate_cases [of screen c] show ?thesis by (auto simp: set_state_def)
next
  case (PageOpenEntry eid)
  with c open_entry_cases [of L eid c] show ?thesis by simp
next
  case (PageBeginEdit eid)
  with c begin_edit_cases [of L eid c] show ?thesis by simp
qed (use c in \<open>auto simp: deactivate_touch touch_session_def expire_authentication_def resume_def app_lock_def
  set_session_timeout_minutes_def set_state_def split: sum.splits\<close>)

lemma select_inv:
  assumes "app_inv L (attach w0 c)" and "ct_session c \<noteq> None" and "\<And>st. as_entries (p st) = as_entries st"
  shows "app_inv L (attach w0 (set_state p c))"
proof -
  have "ct_session (attach w0 c) = Some w0" using assms(2) by (simp add: attach_def)
  from select_moves [OF assms(1) this assms(3)] show ?thesis by (simp add: moves_def)
qed

lemma page_step_inv:
  assumes inv: "app_inv L (attach w0 c)"
  shows "app_inv L (attach w0 (page_step L call (attach w c)))"
proof -
  have touch: "app_inv L (attach w0 (snd (touch_session now c)))" for now
    using touch_moves(1) [OF inv, of now "fst (touch_session now (attach w0 c))"]
    by (simp add: touch_swap moves_def prod_eq_iff)
  show ?thesis
  proof (cases call)
    case PageLock
    with app_lock_moves [OF inv] show ?thesis by (simp add: moves_def)
  next
    case (PageDeactivate now)
    with touch show ?thesis by (simp add: deactivate_touch touch_swap)
  next
    case (PageTouch now)
    with touch show ?thesis by (simp add: touch_swap)
  next
    case (PageResume now)
    with resume_moves [OF inv, of now] show ?thesis by (simp add: resume_swap moves_def)
  next
    case (PageExpire now)
    obtain b c1 where e: "expire_authentication now c = (b, c1)" by fastforce
    then have "expire_authentication now (attach w0 c) = (b, attach w0 c1)" by (simp add: expire_swap)
    from expire_moves(1) [OF inv this] PageExpire e show ?thesis by (simp add: expire_swap moves_def)
  next
    case (PageSetTimeout minutes now)
    obtain res c1 where t: "set_session_timeout_minutes minutes now (attach w0 c) = (res, c1)" by fastforce
    then have "c1 = attach w0 (snd (set_session_timeout_minutes minutes now c))"
      using set_timeout_swap [of minutes now w0 c] by simp
    moreover have "app_inv L c1" using set_timeout_moves [OF inv t] inv by (cases res) auto
    ultimately show ?thesis using PageSetTimeout by (simp add: set_timeout_swap)
  next
    case (PageNavigate screen)
    show ?thesis
    proof (cases "ct_session c")
      case None
      obtain res c1 where n: "navigate screen c = (res, c1)" by fastforce
      have "app_inv L c" using inv None by (simp add: attach_closed)
      from navigate_moves [OF this n] closed_stays [OF None, of L call] None n PageNavigate
      show ?thesis by (simp add: attach_closed moves_def)
    next
      case (Some x)
      then show ?thesis
        using navigate_cases [of screen "attach w c"] inv PageNavigate select_inv [OF inv] by auto
    qed
  next
    case (PageOpenEntry eid)
    then show ?thesis using open_entry_cases [of L eid "attach w c"] inv select_inv [OF inv] by auto
  next
    case (PageBeginEdit eid)
    then show ?thesis using begin_edit_cases [of L eid "attach w c"] inv select_inv [OF inv] by auto
  qed
qed

text \<open>The object is the one before the calls, locked if the controller has dropped it.\<close>

definition shares :: "wasm_vault_session \<Rightarrow> wasm_vault_session \<times> controller \<Rightarrow> bool" where
  "shares w = (\<lambda>(x, c). x = (if ct_session c = None then wasm_lock w else w))"

lemma wasm_lock_const: "wasm_lock w = wasm_lock w'"
  by (simp add: wasm_lock_def lock_def vault_bridge.equality wasm_vault_session.equality)

lemma page_calls_inv:
  assumes "app_inv L (attach w0 c)" and "page_calls L calls (x, c) = (x', c')"
  shows "app_inv L (attach w0 c')" and "shares w (x, c) \<Longrightarrow> shares w (x', c')"
    and "ct_session c = None \<Longrightarrow> ct_session c' = None"
proof -
  have "app_inv L (attach w0 c') \<and> (shares w (x, c) \<longrightarrow> shares w (x', c')) \<and>
      (ct_session c = None \<longrightarrow> ct_session c' = None)"
    using assms
  proof (induction calls arbitrary: x c)
    case (Cons call calls)
    obtain x1 c1 where 1: "page_shared L (x, c) call = (x1, c1)" by fastforce
    then have c1: "c1 = page_step L call (attach x c)" by (simp add: page_shared_def Let_def)
    have inv: "app_inv L (attach w0 c1)" unfolding c1 by (rule page_step_inv [OF Cons.prems(1)])
    have closed: "ct_session c = None \<Longrightarrow> ct_session c1 = None"
      unfolding c1 using closed_stays [of "attach x c"] by simp
    have "shares w (x, c) \<Longrightarrow> shares w (x1, c1)"
      using 1 closed wasm_lock_const [of x w]
      by (auto simp: page_shared_def shares_def Let_def split: if_splits)
    moreover have "page_calls L calls (x1, c1) = (x', c')" using Cons.prems(2) 1 by (simp add: page_calls_def)
    ultimately show ?case using Cons.IH [OF inv] closed by blast
  qed (simp add: page_calls_def)
  then show "app_inv L (attach w0 c')" and "shares w (x, c) \<Longrightarrow> shares w (x', c')"
    and "ct_session c = None \<Longrightarrow> ct_session c' = None" by blast+
qed

section \<open>Calls that wait, made while another waits\<close>

text \<open>The calls of the page that would wait for the storage themselves, each with its arguments.\<close>

datatype waiting_call =
    WaitSaveEntry rstring rstring rstring f64
  | WaitDeleteSelected f64
  | WaitChangePassword rstring rstring f64

fun waiting_step ::
  "('r, 'z) ui_deps_scheme \<Rightarrow> 's device_storage \<Rightarrow> waiting_call
     \<Rightarrow> ('s \<times> controller \<times> 'r, app_error, unit) eff" where
  "waiting_step L D (WaitSaveEntry title secret description now) =
     app_save_entry L D title secret description now"
| "waiting_step L D (WaitDeleteSelected now) = app_delete_selected L D now"
| "waiting_step L D (WaitChangePassword current_master_password new_master_password now) =
     app_change_master_password L D current_master_password new_master_password now"

text \<open>A session with a prepared save or password change, as it is from \<open>prepareSave\<close> or
  \<open>preparePasswordChange\<close> to the commit.\<close>

definition undecided :: "wasm_vault_session \<Rightarrow> bool" where
  "undecided w \<longleftrightarrow> vb_pending (wv_inner w) \<noteq> None \<or> vb_pending_password_change (wv_inner w) \<noteq> None"

lemma undecided_ensure_mutable: "undecided w \<longleftrightarrow> ensure_mutable (wv_inner w) = Inl SavePending"
  by (auto simp: undecided_def ensure_mutable_def)

lemma undecided_prepare_save:
  "wasm_prepare_save L (w, r) = (Inr handed, (w', r')) \<Longrightarrow> undecided w'"
  by (auto simp: wasm_prepare_save_def prepare_save_def undecided_def Let_def split: prod.splits sum.splits)

lemma undecided_prepare_password_change:
  "wasm_prepare_password_change L cur new (w, r) = (Inr metadata_json, (w', r')) \<Longrightarrow> undecided w'"
  by (auto simp: wasm_prepare_password_change_def prepare_password_change_def undecided_def map_err_def
      split: prod.splits sum.splits option.splits)

lemma undecided_verify: "undecided w \<Longrightarrow> undecided (snd (wasm_verify_pending_slot L slot_json w))"
  by (auto simp: wasm_verify_pending_slot_def verify_pending_slot_def undecided_def
      split: prod.splits sum.splits option.splits)

text \<open>The checks of the session refuse before anything is drawn or written.\<close>

lemma undecided_edits:
  assumes "undecided w"
  shows "\<exists>e. wasm_add_entry L title secret description now (w, r) = (Inl e, (w, r))"
    and "\<exists>e. wasm_update_entry L eid title secret description now w = (Inl e, w)"
    and "\<exists>e. wasm_delete_entry L eid now w = (Inl e, w)"
    and "wasm_prepare_password_change L cur new (w, r) = (Inl (str ''save_pending''), (w, r))"
proof -
  have e: "ensure_mutable (wv_inner w) = Inl SavePending" using assms by (simp add: undecided_ensure_mutable)
  have w: "w\<lparr>wv_inner := wv_inner w\<rparr> = w" by (cases w) simp
  show "\<exists>e. wasm_add_entry L title secret description now (w, r) = (Inl e, (w, r))"
    by (cases "parse_timestamp now") (simp_all add: wasm_add_entry_def bridge_add_entry_def e w)
  show "\<exists>e. wasm_update_entry L eid title secret description now w = (Inl e, w)"
    by (cases "parse_timestamp now") (simp_all add: wasm_update_entry_def bridge_update_entry_def e w)
  show "\<exists>e. wasm_delete_entry L eid now w = (Inl e, w)"
    by (cases "parse_timestamp now") (simp_all add: wasm_delete_entry_def bridge_delete_entry_def e w)
  show "wasm_prepare_password_change L cur new (w, r) = (Inl (str ''save_pending''), (w, r))"
    by (simp add: wasm_prepare_password_change_def prepare_password_change_def e w to_js_error_def)
qed

lemma save_edited_refused:
  "ct_session c = Some w \<Longrightarrow>
     save_edited L D (Inl e) w (s, c, r) = (Inl (Client (Session e)), (s, app_lock c, r))"
  by (cases c) (simp add: save_edited_def)

lemma undecided_waiting_step:
  assumes w: "undecided w" and c: "ct_session c = Some w"
  shows "\<exists>e c3. waiting_step L D call (s, c, r) = (Inl e, (s, c3, r)) \<and> c3 \<in> {c, app_lock c}"
proof (cases "require_session c")
  case (Inl e)
  then show ?thesis
    by (cases call) (simp_all add: app_save_entry_def app_delete_selected_def app_change_master_password_def)
next
  case (Inr x)
  then have x: "x = w" using c by (simp add: require_session_Inr)
  have same: "c\<lparr>ct_session := Some w\<rparr> = c" using c by (cases c) simp
  note refused = save_edited_refused [OF c]
  show ?thesis
  proof (cases call)
    case (WaitSaveEntry title secret description now)
    show ?thesis
    proof (cases "as_editing_id (ct_state c)")
      case None
      obtain e where "wasm_add_entry L title secret (normalized_description description) now (w, r) = (Inl e, (w, r))"
        by (rule exE [OF undecided_edits(1) [OF w]])
      with None WaitSaveEntry Inr x show ?thesis by (simp add: app_save_entry_def refused)
    next
      case (Some eid)
      obtain e where "wasm_update_entry L eid title secret (normalized_description description) now w = (Inl e, w)"
        by (rule exE [OF undecided_edits(2) [OF w]])
      with Some WaitSaveEntry Inr x show ?thesis by (simp add: app_save_entry_def refused)
    qed
  next
    case (WaitDeleteSelected now)
    show ?thesis
    proof (cases "selected_entry c")
      case (Inl e)
      with WaitDeleteSelected Inr x show ?thesis by (simp add: app_delete_selected_def and_then_Inr)
    next
      case (Inr eid)
      obtain e where "wasm_delete_entry L eid now w = (Inl e, w)" by (rule exE [OF undecided_edits(3) [OF w]])
      with WaitDeleteSelected Inr x \<open>require_session c = Inr x\<close> show ?thesis
        by (simp add: app_delete_selected_def and_then_Inr refused)
    qed
  next
    case (WaitChangePassword cur new now)
    have code: "\<not> keeps_session (Session (str ''save_pending''))"
      by (simp add: keeps_session_def)
    with WaitChangePassword Inr x undecided_edits(4) [OF w, of L cur new r] show ?thesis
      by (simp add: same app_change_master_password_def change_master_password_def Let_def)
  qed
qed

end
