(* ===== verification/Interleaving_Safety.thy ===== *)
theory Interleaving_Safety
  imports Interleaving
begin

text \<open>
  What a save and a change of the password leave on a lawful device and in the controller when the
  page makes calls at their awaits; without such calls they are the methods of \<open>Controller\<close>.
\<close>

section \<open>A save with calls in between on a lawful device\<close>

lemma locked_calls [simp]:
  "wasm_verify_pending_slot L x (wasm_lock w) = (Inl (to_js_error Locked), wasm_lock w)"
  "wasm_commit_pending_save L x (wasm_lock w) = (Inl (to_js_error NoSavePending), wasm_lock w)"
  by (simp_all add: wasm_verify_pending_slot_def verify_pending_slot_def wasm_commit_pending_save_def
      commit_pending_save_def wasm_lock_def lock_def)

text \<open>A write and its read-back, with the two awaits.\<close>

definition write_back_paged ::
  "('r, 'z) ui_deps_scheme \<Rightarrow> 's device_storage \<Rightarrow> key \<Rightarrow> rstring \<Rightarrow> client_error \<Rightarrow> page_call list
     \<Rightarrow> page_call list \<Rightarrow> ('s paged, client_error, rstring) eff" where
  "write_back_paged L D k value missing p q =
     bindE (awaiting L p (ds_set D k value)) (\<lambda>_.
     bindE (awaiting L q (ds_get D k)) (\<lambda>got. lift (ok_or missing got)))"

lemma write_save_paged_eq:
  "write_save_paged L D handed page =
     bindE (write_back_paged L D (save_bundle_slot_key handed) (save_bundle_slot_json handed)
              (Persistence ''missing_slot_readback'') (page 1) (page 2)) (\<lambda>slot_readback.
     bindE (with_session (wasm_verify_pending_slot L slot_readback)) (\<lambda>_.
     bindE (write_back_paged L D ACTIVE_SLOT_KEY (save_bundle_active_pointer_json handed)
              (Persistence ''missing_pointer_readback'') (page 3) (page 4)) (\<lambda>pointer_readback.
     with_session (wasm_commit_pending_save L pointer_readback))))"
  by (simp add: write_save_paged_def write_back_paged_def bindE_assoc)

lemma write_back_paged_page:
  assumes "app_inv L (attach w0 c)" and "shares w (x, c)"
    and run: "write_back_paged L D k j e p q (s, x, c) = (res, (s', x', c'))"
  shows "app_inv L (attach w0 c')" and "shares w (x', c')" and "ct_session c = None \<Longrightarrow> ct_session c' = None"
proof -
  obtain r1 s1 where 1: "ds_set D k j s = (r1, s1)" by fastforce
  obtain x1 c1 where p: "page_calls L p (x, c) = (x1, c1)" by fastforce
  note first = page_calls_inv [OF assms(1) p]
  obtain r2 s2 where 2: "ds_get D k s1 = (r2, s2)" by fastforce
  obtain x2 c2 where q: "page_calls L q (x1, c1) = (x2, c2)" by fastforce
  note second = page_calls_inv [OF first(1) q]
  have "(x', c') = (x1, c1) \<or> (x', c') = (x2, c2)"
    using run 1 2 p q by (cases r1; cases r2) (auto simp: write_back_paged_def bindE_apply awaiting_def)
  with first second assms(2) show "app_inv L (attach w0 c')" and "shares w (x', c')"
    and "ct_session c = None \<Longrightarrow> ct_session c' = None" by blast+
qed

text \<open>The device does what it does without the page.\<close>

lemma write_back_paged_device:
  assumes "write_back_paged L D k j e p q (s, x, c) = (res, (s', x', c'))"
  shows "write_back D k j e (s, w) = (res, (s', w))"
  using assms
  by (auto simp: write_back_paged_def write_back_def bindE_apply awaiting_def on_device_def lift_def
      split: prod.splits sum.splits)

text \<open>A save that succeeds is the save without the page: what the page does is not seen.\<close>

lemma write_save_paged_Inr:
  assumes inv: "app_inv L (attach w0 c)" and c: "ct_session c \<noteq> None"
    and run: "write_save_paged L D handed page (s, w, c) = (Inr (), (s', w', c'))"
  shows "write_save L D handed (s, w) = (Inr (), (s', w'))"
proof -
  let ?B1 = "write_back_paged L D (save_bundle_slot_key handed) (save_bundle_slot_json handed)
    (Persistence ''missing_slot_readback'') (page 1) (page 2)"
  let ?B2 = "write_back_paged L D ACTIVE_SLOT_KEY (save_bundle_active_pointer_json handed)
    (Persistence ''missing_pointer_readback'') (page 3) (page 4)"
  have start: "shares w (w, c)" using c by (auto simp: shares_def)
  obtain r1 s1 x1 c1 where b1: "?B1 (s, w, c) = (r1, (s1, x1, c1))" by (metis prod_cases4)
  note page1 = write_back_paged_page [OF inv start b1]
  obtain y where r1: "r1 = Inr y" using run b1 by (cases r1) (simp_all add: write_save_paged_eq bindE_apply)
  obtain u w1 where v: "wasm_verify_pending_slot L y x1 = (Inr u, w1)"
    using run b1 r1
    by (cases "wasm_verify_pending_slot L y x1"; cases "fst (wasm_verify_pending_slot L y x1)")
      (simp_all add: write_save_paged_eq bindE_apply with_session_def)
  then have open1: "ct_session c1 \<noteq> None" and x1: "x1 = w"
    using page1(2) by (auto simp: shares_def split: if_splits)
  have start2: "shares w1 (w1, c1)" using open1 by (auto simp: shares_def)
  obtain r2 s2 x2 c2 where b2: "?B2 (s1, w1, c1) = (r2, (s2, x2, c2))" by (metis prod_cases4)
  note page2 = write_back_paged_page [OF page1(1) start2 b2]
  obtain z where r2: "r2 = Inr z"
    using run b1 r1 v b2 by (cases r2) (simp_all add: write_save_paged_eq bindE_apply with_session_def)
  have commit: "with_session (wasm_commit_pending_save L z) (s2, x2, c2) = (Inr (), (s', w', c'))"
    using run b1 r1 v b2 r2 by (simp add: write_save_paged_eq bindE_apply with_session_def)
  then have x2: "x2 = w1"
    using page2(2) by (auto simp: shares_def with_session_def split: if_splits)
  have "write_back D (save_bundle_slot_key handed) (save_bundle_slot_json handed)
      (Persistence ''missing_slot_readback'') (s, w) = (Inr y, (s1, w))"
    by (rule write_back_paged_device [OF b1 [unfolded r1]])
  moreover have "write_back D ACTIVE_SLOT_KEY (save_bundle_active_pointer_json handed)
      (Persistence ''missing_pointer_readback'') (s1, w1) = (Inr z, (s2, w1))"
    by (rule write_back_paged_device [OF b2 [unfolded r2]])
  ultimately show ?thesis
    using v x1 x2 commit
    by (auto simp: write_save_eq bindE_apply on_session_def with_session_def split: prod.splits)
qed

context lawful_storage
begin

lemma write_back_paged_vals:
  assumes "write_back_paged L D k j e p q (s, x, c) = (res, (s', x', c'))"
  shows "case res of Inl _ \<Rightarrow> vals s' \<in> {vals s, (vals s)(k \<mapsto> j)} | Inr y \<Rightarrow> y = j \<and> vals s' = (vals s)(k \<mapsto> j)"
  using write_back_paged_device [OF assms, of "()"]
    write_back_Inr [of k j e s "()"] write_back_Inl [of k j e s "()"] by (cases res) auto

lemma write_save_paged_result:
  assumes L: "deps_laws L" and p: "pending_ok L v p" and inv: "app_inv L (attach w0 c)"
    and c: "ct_session c \<noteq> None"
    and run: "write_save_paged L D (handed_out v p) page (s, js_saving v m p, c) = (res, (s', w', c'))"
  shows "app_inv L (attach w0 c') \<and> (case res of
      Inr _ \<Rightarrow> ct_session c' \<noteq> None \<and> w' = js_idle (next_vault v) m \<and> vals s' = save_written (vals s) v p
    | Inl _ \<Rightarrow> vals s' \<in> {vals s, slot_written (vals s) v p, save_written (vals s) v p})"
proof -
  let ?w = "js_saving v m p" and ?w1 = "js_saving v m (p\<lparr>ps_slot_verified := True\<rparr>)"
  have start: "shares ?w (?w, c)" using c by (simp add: shares_def)
  let ?B1 = "write_back_paged L D (slot_key (slot_other (uv_persisted_slot v))) (ps_slot_json p)
    (Persistence ''missing_slot_readback'') (page 1) (page 2)"
  let ?B2 = "write_back_paged L D ACTIVE_SLOT_KEY (ps_active_pointer_json p)
    (Persistence ''missing_pointer_readback'') (page 3) (page 4)"
  obtain r1 s1 x1 c1 where b1: "?B1 (s, ?w, c) = (r1, (s1, x1, c1))" by (metis prod_cases4)
  note page1 = write_back_paged_page [OF inv start b1] and vals1 = write_back_paged_vals [OF b1]
  show ?thesis
  proof (cases r1)
    case (Inl d)
    with run b1 have "res = Inl d" "s' = s1" "c' = c1"
      by (simp_all add: write_save_paged_eq bindE_apply handed_simps)
    with page1 vals1 Inl show ?thesis by auto
  next
    case (Inr y)
    with vals1 have y: "y = ps_slot_json p" "vals s1 = slot_written (vals s) v p" by simp_all
    show ?thesis
    proof (cases "ct_session c1")
      case None
      with page1 have "x1 = wasm_lock ?w" by (simp add: shares_def)
      with run b1 Inr have "res = Inl (Session (to_js_error Locked))" "s' = s1" "c' = c1"
        by (auto simp: write_save_paged_eq bindE_apply handed_simps with_session_def)
      with page1 y show ?thesis by simp
    next
      case (Some z)
      with page1 have x1: "x1 = ?w" by (simp add: shares_def)
      have start2: "shares ?w1 (?w1, c1)" using Some by (simp add: shares_def)
      obtain r2 s2 x2 c2 where b2: "?B2 (s1, ?w1, c1) = (r2, (s2, x2, c2))" by (metis prod_cases4)
      note page2 = write_back_paged_page [OF page1(1) start2 b2] and vals2 = write_back_paged_vals [OF b2]
      have run2: "bindE ?B2 (\<lambda>readback. with_session (wasm_commit_pending_save L readback))
          (s1, ?w1, c1) = (res, (s', w', c'))"
        using run b1 Inr y(1) x1 wasm_verify_saving [OF L p, of m]
        by (simp add: write_save_paged_eq bindE_apply handed_simps with_session_def)
      show ?thesis
      proof (cases r2)
        case (Inl d)
        with run2 b2 have "res = Inl d" "s' = s2" "c' = c2" by (simp_all add: bindE_apply)
        with page2 vals2 Inl y(2) show ?thesis by auto
      next
        case (Inr z2)
        with vals2 y(2) have z2: "z2 = ps_active_pointer_json p" "vals s2 = save_written (vals s) v p"
          by simp_all
        show ?thesis
        proof (cases "ct_session c2")
          case None
          with page2 have "x2 = wasm_lock ?w1" by (simp add: shares_def)
          with run2 b2 Inr have "res = Inl (Session (to_js_error NoSavePending))" "s' = s2" "c' = c2"
            by (auto simp: bindE_apply with_session_def)
          with page2 z2 show ?thesis by simp
        next
          case (Some z3)
          with page2 have x2: "x2 = ?w1" by (simp add: shares_def)
          from run2 b2 Inr z2(1) x2 wasm_commit_saving [OF L pending_verified [OF p], of True m]
          have "res = Inr ()" "s' = s2" "c' = c2" "w' = js_idle (next_vault v) m"
            by (auto simp: bindE_apply with_session_def)
          with page2 z2 Some show ?thesis by simp
        qed
      qed
    qed
  qed
qed

text \<open>The outcome of \<open>saveSession\<close>, whatever the device and the page did.\<close>

lemma save_session_paged_result:
  assumes L: "deps_laws L" and v: "wf_vault v" and rec: "recoverable L m0 (vals s) v S"
    and inv: "app_inv L (attach w0 c)" and c: "ct_session c \<noteq> None"
    and run: "save_session_paged L D page ((s, js_idle v m, c), r) = (res, ((s', w', c'), r'))"
  shows "app_inv L (attach w0 c') \<and> recoverable L m0 (vals s') v (insert (next_container v) S) \<and> (case res of
      Inl _ \<Rightarrow> True
    | Inr _ \<Rightarrow> ct_session c' \<noteq> None \<and> w' = js_idle (next_vault v) m \<and>
        save_session L D (s, js_idle v m, r) = (Inr (), (s', w', r')) \<and>
        (\<exists>slot e. encrypt_for_slot L v (slot_other (uv_persisted_slot v)) r = (Inr slot, r') \<and>
          slot_to_json L slot = Some e \<and> (byte_len e \<le> MAX_SLOT_JSON_BYTES \<longrightarrow>
          recoverable L m0 (vals s') (next_vault v) {next_container v})))"
proof -
  have mono: "recoverable L m0 (vals s) v (insert (next_container v) S)"
    using rec by (auto simp: recoverable_def)
  obtain res0 w1 r1 where prep: "wasm_prepare_save L (js_idle v m, r) = (res0, (w1, r1))"
    by (metis surj_pair)
  from L v prep show ?thesis
  proof (cases rule: wasm_prepare_save_idle)
    case (failed e)
    with run prep mono inv show ?thesis by (auto simp: save_session_paged_def)
  next
    case (prepared p)
    obtain res1 s1 w2 c2 where body: "write_save_paged L D (handed_out v p) page (s, js_saving v m p, c)
        = (res1, (s1, w2, c2))"
      by (metis surj_pair)
    note result = write_save_paged_result [OF L prepared(3) inv c body]
      and written = recoverable_slot_written [OF L v rec prepared(3)]
    have eq: "(res, ((s', w', c'), r')) =
        (res1, ((s1, case res1 of Inl _ \<Rightarrow> wasm_cancel_pending_save w2 | Inr _ \<Rightarrow> w2, c2), r1))"
      using run prep prepared(1,2) body
      by (auto simp: save_session_paged_def handed_simps(1) split: sum.splits)
    show ?thesis
    proof (cases res1)
      case (Inl d)
      then show ?thesis using eq result mono written(1) by auto
    next
      case (Inr u)
      then have "write_save L D (handed_out v p) (s, js_saving v m p) = (Inr (), (s1, w2))"
        using body by (auto intro: write_save_paged_Inr [OF inv c])
      then have "save_session L D (s, js_idle v m, r) = (Inr (), (s1, w2, r1))"
        using prep prepared(1,2) by (simp add: save_session_def on_error_def handed_simps(1))
      then show ?thesis using eq Inr result written prepared(3,5) by (auto simp: pending_ok_def)
    qed
  qed
qed

end

text \<open>After a save the controller shows the entries of the next vault, also when the page was active.\<close>

lemma show_saved:
  assumes ui: "ui_laws L" and v: "wf_vault v" "session_meta v m" and inv: "app_inv L (attach w0 c)"
    and c: "ct_session c \<noteq> None"
  obtains c' where "refresh_entries L (c\<lparr>ct_session := Some (js_idle v m)\<rparr>) = (Inr (), c')"
    and "app_inv L (set_state (screen_only ''vault'') c')" and "ct_session c' = Some (js_idle v m)"
    and "as_entries (ct_state c') = shown_entries L v"
proof -
  let ?c = "c\<lparr>ct_session := Some (js_idle v m)\<rparr>"
  let ?c' = "?c\<lparr>ct_state := (ct_state ?c)\<lparr>as_entries := shown_entries L v\<rparr>\<rparr>"
  obtain x where x: "ct_session c = Some x" using c by blast
  have old: "ct_session (attach w0 c) = Some w0" by (simp add: attach_def x)
  have "moves L (attach w0 c) (set_state (screen_only ''vault'') ?c') (timer_of (attach w0 c))"
    by (intro session_moves [OF inv old v]) (simp_all add: set_state_def timer_of_def attach_def x)
  moreover have "refresh_entries L ?c = (Inr (), ?c')" by (rule refresh_live [OF ui]) simp
  ultimately show ?thesis using that [of ?c'] by (simp add: moves_def)
qed

lemma save_edited_paged_result:
  assumes D: "lawful_storage D vals reliable" and L: "deps_laws L" "ui_laws L"
    and c: "app_inv L c" "ct_session c = Some (js_idle v m)" and v1: "edited v v1"
    and rec: "recoverable L m0 (vals s) v1 S"
    and run: "save_edited_paged L D page edit (js_idle v1 m) (s, c, r) = (res, (s', c', r'))"
  shows "app_inv L c' \<and> (case res of
      Inl _ \<Rightarrow> ct_session c' = None \<and> (recoverable L m0 (vals s') v1 S \<or>
        (\<exists>x. edit = Inr x) \<and> recoverable L m0 (vals s') v1 (insert (next_container v1) S))
    | Inr _ \<Rightarrow> (\<exists>x. edit = Inr x) \<and> ct_session c' = Some (js_idle (next_vault v1) m) \<and>
        as_screen (ct_state c') = ''vault'' \<and> as_entries (ct_state c') = shown_entries L (next_vault v1) \<and>
        (\<exists>c''. save_edited L D edit (js_idle v1 m) (s, c, r) = (Inr (), (s', c'', r'))) \<and>
        (\<exists>slot e. encrypt_for_slot L v1 (slot_other (uv_persisted_slot v1)) r = (Inr slot, r') \<and>
          slot_to_json L slot = Some e \<and> (byte_len e \<le> MAX_SLOT_JSON_BYTES \<longrightarrow>
          recoverable L m0 (vals s') (next_vault v1) {uv_container (next_vault v1)})))"
proof (cases edit)
  case (Inl e)
  with run have "res = Inl (Client (Session e))" "s' = s" "c' = app_lock c"
    by (auto simp: save_edited_paged_def app_lock_def set_state_def)
  then show ?thesis using rec app_lock_moves [OF c(1)] by (simp add: moves_def)
next
  case (Inr u)
  let ?w0 = "js_idle v m" and ?c1 = "c\<lparr>ct_session := Some (js_idle v1 m)\<rparr>"
  have inv: "app_inv L (attach ?w0 ?c1)" using c by (cases c) (simp add: attach_def)
  have wf: "wf_vault v1" using v1 by (simp add: edited_def)
  obtain res0 s1 w1 c3 r3 where save: "save_session_paged L D page ((s, js_idle v1 m, ?c1), r)
      = (res0, ((s1, w1, c3), r3))"
    by (metis surj_pair)
  note result = lawful_storage.save_session_paged_result [OF D L(1) wf rec inv _ save]
  have inv3: "app_inv L (attach ?w0 c3)" and rec3: "recoverable L m0 (vals s1) v1 (insert (next_container v1) S)"
    using result by simp_all
  obtain w2 c4 where page5: "page_calls L (page 5) (w1, c3) = (w2, c4)" by fastforce
  note inv4 = page_calls_inv [OF inv3 page5]
  have locked: "app_inv L (app_lock c4)" using app_lock_moves [OF inv4(1)] by (simp add: moves_def)
  show ?thesis
  proof (cases "(\<exists>e. res0 = Inl e) \<or> ct_session c4 = None")
    case True
    then have "refresh_entries L (attach w2 c4) = (Inl (App ''locked''), c4) \<or> (\<exists>e. res0 = Inl e)"
      by (auto simp: attach_closed refresh_no_session)
    with run save page5 \<open>edit = Inr u\<close> have "(\<exists>e. res = Inl e) \<and> s' = s1 \<and> c' = app_lock c4"
      by (auto simp: save_edited_paged_def split: sum.splits)
    then show ?thesis using locked rec3 \<open>edit = Inr u\<close> by auto
  next
    case False
    then obtain u' where Inr: "res0 = Inr u'" and open4: "ct_session c4 \<noteq> None" by (cases res0) auto
    with result have w1: "w1 = js_idle (next_vault v1) m" "ct_session c3 \<noteq> None"
      and saved: "save_session L D (s, js_idle v1 m, r) = (Inr (), (s1, w1, r3))" by simp_all
    have "w2 = js_idle (next_vault v1) m" using inv4(2) [of w1] w1 open4 by (auto simp: shares_def)
    then have att: "attach w2 c4 = c4\<lparr>ct_session := Some (js_idle (next_vault v1) m)\<rparr>"
      using open4 by (simp add: attach_def)
    have "session_meta v m" using c by (auto simp: app_inv_def wasm_is_locked_def is_locked_def)
    then have v2: "wf_vault (next_vault v1)" "session_meta (next_vault v1) m"
      using wf edited_meta [OF v1] by (simp_all add: wf_vault_def session_meta_def next_container_def vault_id_of_def)
    obtain c5 where 5: "refresh_entries L (attach w2 c4) = (Inr (), c5)"
      "app_inv L (set_state (screen_only ''vault'') c5)" "ct_session c5 = Some (js_idle (next_vault v1) m)"
      "as_entries (ct_state c5) = shown_entries L (next_vault v1)"
      unfolding att by (rule show_saved [OF L(2) v2 inv4(1) open4])
    with run save page5 Inr \<open>edit = Inr u\<close>
    have res: "res = Inr ()" "s' = s1" "r' = r3" "c' = set_state (screen_only ''vault'') c5"
      by (simp_all add: save_edited_paged_def)
    obtain c6 where "refresh_entries L (c\<lparr>ct_session := Some (js_idle (next_vault v1) m)\<rparr>) = (Inr (), c6)"
      by (rule show_saved [OF L(2) v2, of ?w0 c]) (use c in \<open>simp_all add: attach_same\<close>)
    with saved w1(1) have "\<exists>c''. save_edited L D edit (js_idle v1 m) (s, c, r) = (Inr (), (s1, c'', r3))"
      using \<open>edit = Inr u\<close> by (simp add: save_edited_def Let_def)
    then show ?thesis using result Inr res 5 \<open>edit = Inr u\<close> by (simp add: set_state_def)
  qed
qed

section \<open>A change of the password on a lawful device\<close>

lemma wasm_commit_rekeying:
  "deps_laws L \<Longrightarrow> change_ok L v p \<Longrightarrow>
     wasm_commit_password_change L (pc_metadata_json p) (js_rekeying v m p) = (Inr (), js_idle v (pc_metadata p))"
  by (simp add: wasm_commit_password_change_def commit_password_rekeying)

lemma wasm_cancel_rekeying [simp]: "wasm_cancel_password_change (js_rekeying v m p) = js_idle v m"
  "wasm_cancel_password_change (wasm_lock w) = wasm_lock w"
  by (simp_all add: wasm_cancel_password_change_def cancel_password_change_def wasm_lock_def lock_def)

lemma locked_password_change [simp]:
  "wasm_commit_password_change L x (wasm_lock w) = (Inl (to_js_error NoPasswordChangePending), wasm_lock w)"
  by (simp add: wasm_commit_password_change_def commit_password_change_def wasm_lock_def lock_def)

context lawful_storage
begin

lemma write_password_change_paged_result:
  assumes L: "deps_laws L" and p: "change_ok L v p" and inv: "app_inv L (attach w0 c)"
    and c: "ct_session c \<noteq> None"
    and run: "write_password_change_paged L D (pc_metadata_json p) page (s, js_rekeying v m p, c)
      = (res, (s', w', c'))"
  shows "app_inv L (attach w0 c') \<and> (case res of
      Inr _ \<Rightarrow> ct_session c' \<noteq> None \<and> w' = js_idle v (pc_metadata p) \<and>
        vals s' = (vals s)(META_KEY \<mapsto> pc_metadata_json p)
    | Inl _ \<Rightarrow> shares (js_idle v m) (wasm_cancel_password_change w', c') \<and>
        vals s' \<in> {vals s, (vals s)(META_KEY \<mapsto> pc_metadata_json p)})"
proof -
  let ?w = "js_rekeying v m p"
  let ?B = "write_back_paged L D META_KEY (pc_metadata_json p) (Persistence ''missing_metadata_readback'')
    (page 1) (page 2)"
  have eq: "write_password_change_paged L D (pc_metadata_json p) page =
      bindE ?B (\<lambda>readback. with_session (wasm_commit_password_change L readback))"
    by (simp add: write_password_change_paged_def write_back_paged_def bindE_assoc)
  have start: "shares ?w (?w, c)" using c by (simp add: shares_def)
  obtain r1 s1 x1 c1 where b: "?B (s, ?w, c) = (r1, (s1, x1, c1))" by (metis prod_cases4)
  note page1 = write_back_paged_page [OF inv start b] and vals1 = write_back_paged_vals [OF b]
  have cancelled: "shares (js_idle v m) (wasm_cancel_password_change x1, c1)"
    using page1(2) wasm_lock_const by (simp add: shares_def)
  show ?thesis
  proof (cases r1)
    case (Inl d)
    with run b have "res = Inl d" "s' = s1" "c' = c1" "w' = x1" by (simp_all add: eq bindE_apply)
    with page1 vals1 Inl cancelled show ?thesis by simp
  next
    case (Inr y)
    with vals1 have y: "y = pc_metadata_json p" "vals s1 = (vals s)(META_KEY \<mapsto> pc_metadata_json p)" by simp_all
    show ?thesis
    proof (cases "ct_session c1")
      case None
      with page1 have "x1 = wasm_lock ?w" by (simp add: shares_def)
      with run b Inr have "res = Inl (Session (to_js_error NoPasswordChangePending))" "s' = s1" "c' = c1" "w' = x1"
        by (auto simp: eq bindE_apply with_session_def)
      with page1 y cancelled show ?thesis by simp
    next
      case (Some z)
      with page1 have "x1 = ?w" by (simp add: shares_def)
      with run b Inr y(1) wasm_commit_rekeying [OF L p, of m]
      have "res = Inr ()" "s' = s1" "c' = c1" "w' = js_idle v (pc_metadata p)"
        by (auto simp: eq bindE_apply with_session_def)
      with page1 y Some show ?thesis by simp
    qed
  qed
qed

end

context lawful_storage
begin

text \<open>Whatever the device and the page did, the device holds the vault under the old metadata or under
  the new.\<close>

lemma change_password_paged_result:
  assumes L: "deps_laws L" "metadata_fits L" and m: "session_meta v m" and rec: "recoverable L m (vals s) v S"
    and inv: "app_inv L (attach w0 c)" and c: "ct_session c \<noteq> None"
    and run: "change_master_password_paged L D page cur new ((s, js_idle v m, c), r) = (res, ((s', w', c'), r'))"
  shows "app_inv L (attach w0 c') \<and> (case res of
      Inr _ \<Rightarrow> opens_with L (as_bytes cur) m (uv_dek v) \<and> (\<exists>m'. shares (js_idle v m') (w', c') \<and>
        session_meta v m' \<and> recoverable L m' (vals s') v S \<and> opens_with L (as_bytes new) m' (uv_dek v))
    | Inl _ \<Rightarrow> shares (js_idle v m) (w', c') \<and> (vals s' = vals s \<or>
        opens_with L (as_bytes cur) m (uv_dek v) \<and>
        (\<exists>m'. recoverable L m' (vals s') v S \<and> opens_with L (as_bytes new) m' (uv_dek v))))"
proof -
  obtain res0 b r0 where prep: "prepare_password_change L (as_bytes cur) (as_bytes new) (idle_session v m, r)
      = (res0, (b, r0))"
    by (metis surj_pair)
  from L(1) m prep show ?thesis
  proof (cases rule: prepare_password_idle)
    case (failed e)
    then have "(\<exists>e. res = Inl e) \<and> w' = js_idle v m \<and> c' = c \<and> s' = s"
      using run prep by (auto simp: change_master_password_paged_def wasm_prepare_password_change_def)
    then show ?thesis using inv c by (auto simp: shares_def)
  next
    case (prepared p)
    obtain res1 s1 w1 c1 where body: "write_password_change_paged L D (pc_metadata_json p) page
        (s, js_rekeying v m p, c) = (res1, (s1, w1, c1))"
      by (metis surj_pair)
    note result = write_password_change_paged_result [OF L(1) prepared(2) inv c body]
      and new = change_recoverable [OF L rec prepared(2,4)]
    have meta: "session_meta v (pc_metadata p)" using prepared(2) by (simp add: change_ok_def)
    have "(res, ((s', w', c'), r')) = (res1, ((s1, case res1 of Inl _ \<Rightarrow> wasm_cancel_password_change w1
        | Inr _ \<Rightarrow> w1, c1), r0))"
      using run prep prepared(1,3) body
      by (auto simp: change_master_password_paged_def wasm_prepare_password_change_def split: sum.splits)
    moreover have "shares (js_idle v (pc_metadata p)) (w1, c1)" if "res1 = Inr u" for u
      using result that by (simp add: shares_def)
    ultimately show ?thesis using result new meta by (cases res1) auto
  qed
qed

end

lemma reattach:
  assumes inv: "app_inv L (attach (js_idle v m) c)" and m': "session_meta v m'" and w: "shares (js_idle v m') (w, c)"
  shows "app_inv L (attach w c)" and "ct_session (attach w c) \<in> {None, Some (js_idle v m')}"
proof -
  have "app_inv L (attach w c) \<and> ct_session (attach w c) \<in> {None, Some (js_idle v m')}"
  proof (cases "ct_session c")
    case None
    with inv show ?thesis by (simp add: attach_closed)
  next
    case (Some x)
    have eq: "w = js_idle v m'" using w by (simp add: shares_def Some)
    have old: "ct_session (attach (js_idle v m) c) = Some (js_idle v m)" using Some by (simp add: attach_def)
    have v: "wf_vault v" and shown: "as_entries (ct_state c) = shown_entries L v"
      using inv Some by (auto simp: attach_def app_inv_def wasm_is_locked_def is_locked_def)
    have "moves L (attach (js_idle v m) c) (attach w c) (timer_of (attach (js_idle v m) c))"
      by (rule session_moves [OF inv old v m']) (simp_all add: eq shown attach_def timer_of_def Some)
    then show ?thesis by (simp add: moves_def eq attach_def)
  qed
  then show "app_inv L (attach w c)" and "ct_session (attach w c) \<in> {None, Some (js_idle v m')}" by blast+
qed

lemma settings_inv: "app_inv L c \<Longrightarrow> app_inv L (set_state (\<lambda>st. st\<lparr>as_screen := ''settings''\<rparr>) c)"
  by (auto simp: app_inv_def set_state_def timer_of_def split: option.splits)

lemma app_change_password_paged_result:
  assumes D: "lawful_storage D vals reliable" and L: "deps_laws L" "metadata_fits L"
    and c: "app_inv L c" "ct_session c = Some (js_idle v m)" and rec: "recoverable L m (vals s) v S"
    and run: "app_change_master_password_paged L D page cur new now (s, c, r) = (res, (s', c', r'))"
  shows "app_inv L c' \<and> (case res of
      Inr _ \<Rightarrow> opens_with L (as_bytes cur) m (uv_dek v) \<and> as_screen (ct_state c') = ''settings'' \<and>
        (\<exists>m'. ct_session c' \<in> {None, Some (js_idle v m')} \<and> recoverable L m' (vals s') v S \<and>
          opens_with L (as_bytes new) m' (uv_dek v))
    | Inl _ \<Rightarrow> ct_session c' \<in> {None, Some (js_idle v m)} \<and> (vals s' = vals s \<or>
        opens_with L (as_bytes cur) m (uv_dek v) \<and>
        (\<exists>m'. recoverable L m' (vals s') v S \<and> opens_with L (as_bytes new) m' (uv_dek v))))"
proof -
  let ?w0 = "js_idle v m"
  have v: "wf_vault v" "session_meta v m" and shown: "as_entries (ct_state c) = shown_entries L v"
    using c by (auto simp: app_inv_def wasm_is_locked_def is_locked_def)
  have req: "require_session c = Inr ?w0"
    using c(2) by (simp add: require_session_Inr wasm_is_locked_def is_locked_def)
  have inv: "app_inv L (attach ?w0 c)" using c by (simp add: attach_same)
  obtain res0 s1 w1 c1 r1 where change: "change_master_password_paged L D page cur new ((s, ?w0, c), r)
      = (res0, ((s1, w1, c1), r1))"
    by (metis surj_pair)
  have is_open: "ct_session c \<noteq> None" using c(2) by simp
  note result = lawful_storage.change_password_paged_result [OF D L v(2) rec inv is_open change]
  obtain w2 c2 where page3: "page_calls L (page 3) (w1, c1) = (w2, c2)" by fastforce
  note paged = page_calls_inv [OF _ page3]
  show ?thesis
  proof (cases res0)
    case (Inl e)
    with result have "app_inv L (attach ?w0 c1)" and "shares ?w0 (w1, c1)" by simp_all
    note again = reattach [OF paged(1) [OF this(1)] v(2) paged(2) [OF this]]
    have "res = Inl (Client e)" "s' = s1" "c' = (if keeps_session e then attach w2 c2 else app_lock (attach w2 c2))"
      using run req change page3 Inl by (simp_all add: app_change_master_password_paged_def Let_def)
    then show ?thesis using result Inl again app_lock_moves [OF again(1)] by (auto simp: moves_def)
  next
    case (Inr u)
    with result obtain m' where m': "shares (js_idle v m') (w1, c1)" "session_meta v m'"
      "recoverable L m' (vals s1) v S" "opens_with L (as_bytes new) m' (uv_dek v)"
      and "app_inv L (attach ?w0 c1)" and cur: "opens_with L (as_bytes cur) m (uv_dek v)" by auto
    note again = reattach [OF paged(1) [OF this(5)] m'(2) paged(2) [OF this(5) m'(1)]]
    obtain x c3 where t: "touch_session now (attach w2 c2) = (x, c3)" by fastforce
    have res: "res = Inr ()" "s' = s1" "c' = set_state (\<lambda>st. st\<lparr>as_screen := ''settings''\<rparr>) c3"
      using run req change page3 Inr t by (simp_all add: app_change_master_password_paged_def)
    have "app_inv L c3" and "ct_session c3 \<in> {None, Some (js_idle v m')}"
      using touch_moves [OF again(1) t] again(2) by (auto simp: moves_def)
    then show ?thesis using res m'(3,4) cur settings_inv by (auto simp: set_state_def)
  qed
qed

section \<open>A save without calls in between\<close>

text \<open>With no calls of the page, the methods are those of \<open>Controller\<close>.\<close>

definition alone :: "('s paged, 'e, 'a) eff \<Rightarrow> ('s \<times> wasm_vault_session, 'e, 'a) eff \<Rightarrow> bool" where
  "alone m m' \<longleftrightarrow> (\<forall>s w c. m (s, w, c) = (case m' (s, w) of (res, (s', w')) \<Rightarrow> (res, (s', w', c))))"

lemma alone_intros:
  "alone (awaiting L [] f) (on_device f)"
  "alone (with_session g) (on_session g)"
  "alone (lift x) (lift x)"
  by (simp_all add: alone_def awaiting_def on_device_def with_session_def on_session_def lift_def page_calls_def
      split: prod.splits)

lemma alone_bindE: "alone m m' \<Longrightarrow> (\<And>x. alone (f x) (f' x)) \<Longrightarrow> alone (bindE m f) (bindE m' f')"
  by (simp add: alone_def bindE_apply split: prod.splits sum.splits)

lemma write_save_alone: "alone (write_save_paged L D handed (\<lambda>_. [])) (write_save L D handed)"
  unfolding write_save_paged_def write_save_def by (intro alone_bindE alone_intros)

lemma save_session_alone:
  "save_session_paged L D (\<lambda>_. []) ((s, w, c), r) =
     (case save_session L D (s, w, r) of (res, (s', w', r')) \<Rightarrow> (res, ((s', w', c), r')))"
  using write_save_alone [of L D]
  by (simp add: save_session_paged_def save_session_def on_error_def alone_def split: prod.splits sum.splits)

lemma save_edited_alone: "save_edited_paged L D (\<lambda>_. []) edit w = save_edited L D edit w"
  by (auto simp: fun_eq_iff save_edited_paged_def save_edited_def Let_def save_session_alone page_calls_def
      attach_def app_lock_def set_state_def split: prod.splits sum.splits)

lemma app_save_entry_alone:
  "app_save_entry_paged L D (\<lambda>_. []) title secret description now x = app_save_entry L D title secret description now x"
proof -
  obtain s c r where x: "x = (s, c, r)" by (metis surj_pair)
  show ?thesis
  proof (cases "require_session c")
    case (Inr w)
    obtain res w' r' where "entry_edit L (as_editing_id (ct_state c)) title secret
        (normalized_description description) now (w, r) = (res, w', r')"
      by (metis surj_pair)
    with Inr show ?thesis
      by (simp add: x app_save_entry_paged_def save_edited_alone app_save_entry_edit [OF Inr])
  qed (simp add: x app_save_entry_paged_def app_save_entry_def)
qed

lemma app_delete_selected_alone: "app_delete_selected_paged L D (\<lambda>_. []) now = app_delete_selected L D now"
  by (auto simp: fun_eq_iff app_delete_selected_paged_def app_delete_selected_def save_edited_alone
      split: sum.splits prod.splits)

lemma write_password_change_alone:
  "alone (write_password_change_paged L D mj (\<lambda>_. [])) (write_password_change L D mj)"
  unfolding write_password_change_paged_def write_password_change_def by (intro alone_bindE alone_intros)

lemma change_master_password_alone:
  "change_master_password_paged L D (\<lambda>_. []) cur new ((s, w, c), r) =
     (case change_master_password L D cur new (s, w, r) of (res, (s', w', r')) \<Rightarrow> (res, ((s', w', c), r')))"
  using write_password_change_alone [of L D]
  by (simp add: change_master_password_paged_def change_master_password_def on_error_def alone_def
      split: prod.splits sum.splits)

lemma app_change_master_password_alone:
  "app_change_master_password_paged L D (\<lambda>_. []) cur new now = app_change_master_password L D cur new now"
  by (auto simp: fun_eq_iff app_change_master_password_paged_def app_change_master_password_def Let_def
      change_master_password_alone page_calls_def attach_def require_session_def
      split: prod.splits sum.splits option.splits)

end
