(* ===== verification/Interleaving_Properties.thy ===== *)
theory Interleaving_Properties
  imports Interleaving_Safety Controller_Properties
begin

text \<open>
  The properties of the methods that wait for the storage while the page goes on.
\<close>

section \<open>Saving an entry\<close>

text \<open>C5: A save that the page interrupts is safe. While \<open>saveEntry\<close> waits for the storage, the page may
  at each of the five awaits make any calls that do not wait: the timer of the automatic lock may
  expire, the user may lock, navigate, look at entries or change the timeout. Whatever it does and
  whatever the device does, the application is well formed afterwards, and the same password opens
  the vault again on the values that are left. After an error the application is locked, and the
  vault holds the entries of the last save or, if the edit was accepted, those with the edit. After
  a success, if the encoded slot is within the size limit that \<open>open\<close> enforces, the open session is the
  one that reopening gives, the screen lists its entries, and the device and the random source are as
  without the page.\<close>

theorem interrupted_save_is_safe:
  assumes "lawful_storage D vals reliable" and "deps_laws L" and "ui_laws L" and "pointer_fits L"
    and "app_inv L c" and "ct_session c = Some (js_idle v m)"
    and "recoverable L m (vals s) v S" and "opens_with L (as_bytes pw) m (uv_dek v)"
    and "entry_edit L (as_editing_id (ct_state c)) title secret (normalized_description description) now
      (js_idle v m, r) = (edit, js_idle v1 m, r1)"
    and "app_save_entry_paged L D page title secret description now (s, c, r) = (res, (s2, c2, r2))"
    and "reliable s3" and "vals s3 = vals s2"
    and "\<forall>slot r'. encrypt_for_slot L v1 (slot_other (uv_persisted_slot v1)) r1 = (Inr slot, r') \<longrightarrow>
      (\<exists>e. slot_to_json L slot = Some e \<and> byte_len e \<le> MAX_SLOT_JSON_BYTES)"
  shows "app_inv L c2 \<and> (\<exists>v3 s4. open_session L D pw s3 = (Inr (js_idle v3 m), s4) \<and>
    (case res of
       Inl _ \<Rightarrow> ct_session c2 = None \<and>
         (uv_container v3 \<in> S \<or> edit = Inr () \<and> uv_container v3 = next_container v1)
     | Inr _ \<Rightarrow> edit = Inr () \<and> v3 = next_vault v1 \<and> ct_session c2 = Some (js_idle v3 m) \<and>
         as_screen (ct_state c2) = ''vault'' \<and> as_entries (ct_state c2) = shown_entries L v3 \<and>
         (\<exists>c'. app_save_entry L D title secret description now (s, c, r) = (Inr (), (s2, c', r2)))))"
proof -
  have v: "wf_vault v" using assms(5,6) by (auto simp: app_inv_def wasm_is_locked_def is_locked_def)
  have v1: "edited v v1" using entry_edit_idle [OF assms(2) v assms(9)] by auto
  then have rec: "recoverable L m (vals s) v1 S" and pw: "opens_with L (as_bytes pw) m (uv_dek v1)"
    using recoverable_cong [OF assms(7)] assms(8) by (simp_all add: edited_def)
  have open': "require_session c = Inr (js_idle v m)"
    using assms(6) by (simp add: require_session_Inr wasm_is_locked_def is_locked_def)
  have run: "save_edited_paged L D page edit (js_idle v1 m) (s, c, r1) = (res, (s2, c2, r2))"
    using assms(9,10) open' by (simp add: app_save_entry_paged_def)
  note result = save_edited_paged_result [OF assms(1-3,5,6) v1 rec run]
  have reopen: "\<exists>v3 s4. open_session L D pw s3 = (Inr (js_idle v3 m), s4) \<and> uv_container v3 \<in> T"
    if "recoverable L m (vals s2) v1 T" for T
    using lawful_storage.open_session_recoverable [OF assms(1,11,4) that [folded assms(12)] pw] by metis
  show ?thesis
  proof (cases res)
    case (Inl e)
    then show ?thesis
      using result reopen [of S] reopen [of "insert (next_container v1) S"] by auto
  next
    case (Inr u)
    with result assms(13) have rec1: "recoverable L m (vals s2) (next_vault v1) {uv_container (next_vault v1)}"
      by fastforce
    have pw1: "opens_with L (as_bytes pw) m (uv_dek (next_vault v1))" using pw by simp
    obtain s4 where "open_session L D pw s3 = (Inr (js_idle (next_vault v1) m), s4)"
      by (rule lawful_storage.open_session_exact [OF assms(1,11,4) rec1 [folded assms(12)] pw1])
    then show ?thesis using result Inr by (auto simp: app_save_entry_edit [OF open' assms(9)])
  qed
qed

text \<open>An edit of the sample vault, and the controller that makes it.\<close>

definition sample_edit :: "(vault_error + entry_id) \<times> unlocked_vault \<times> nat" where
  "sample_edit = add_entry sample_ui sample_entry 200 (cv_unlocked sample_created, 5)"

abbreviation sample_edited :: unlocked_vault where
  "sample_edited \<equiv> fst (snd sample_edit)"

lemma sample_edit_ok: "is_ok (fst sample_edit)" "snd (snd sample_edit) = 6"
  by code_simp+

definition sample_edited_slot :: encrypted_slot where
  "sample_edited_slot = projr (fst (encrypt_for_slot sample_ui sample_edited B 6))"

lemma sample_edited_encrypts: "is_ok (fst (encrypt_for_slot sample_ui sample_edited B 6))"
  by code_simp

lemma sample_edited_slot_fits:
  "byte_len (the (slot_to_json sample_ui sample_edited_slot)) \<le> MAX_SLOT_JSON_BYTES"
  "slot_to_json sample_ui sample_edited_slot \<noteq> None"
  by code_simp+

definition sample_editing :: controller where
  "sample_editing = set_state (\<lambda>st. st\<lparr>as_screen := ''edit''\<rparr>) sample_open"

lemma sample_entry_edit:
  "entry_edit sample_ui None (str ''Mail'') (str ''hunter2'') (normalized_description []) (f64_of_nat 200)
     (js_idle (cv_unlocked sample_created) (cv_metadata sample_created), 5)
     = (Inr (), js_idle sample_edited (cv_metadata sample_created), 6)"
proof -
  obtain i where "sample_edit = (Inr i, sample_edited, 6)"
    using sample_edit_ok by (metis is_ok_iff prod.collapse)
  then have "add_entry sample_ui \<lparr>ne_title = str ''Mail'', ne_secret = str ''hunter2'', ne_description = None\<rparr>
      200 (cv_unlocked sample_created, 5) = (Inr i, sample_edited, 6)"
    by (simp add: sample_edit_def sample_entry_def)
  moreover have "parse_timestamp (f64_of_nat 200) = Inr 200"
    using parse_timestamp_of_nat [of 200] by simp
  moreover have "normalized_description [] = None" by (simp add: normalized_description_def)
  ultimately show ?thesis
    by (simp add: entry_edit_def wasm_add_entry_def bridge_add_entry_def ensure_mutable_def)
qed

lemma sample_edited_side: "uv_persisted_slot sample_edited = A"
proof -
  have "edited (cv_unlocked sample_created) sample_edited"
    using entry_edit_idle [OF sample_ui_deps_laws sample_created_facts(1) sample_entry_edit] by simp
  then show ?thesis by (simp add: edited_def create_vault_match [OF sample_created])
qed

definition sample_page :: "nat \<Rightarrow> page_call list" where
  "sample_page i = (if i = 3 then [PageTouch (f64_of_nat 300), PageExpire (f64_of_nat 900000)]
     else [PageNavigate ''settings''])"

lemma sample_editing:
  "ct_session sample_editing = Some (js_idle (cv_unlocked sample_created) (cv_metadata sample_created))"
  "app_inv sample_ui sample_editing"
  "recoverable sample_ui (cv_metadata sample_created) (ms_values failing_device) (cv_unlocked sample_created)
     {uv_container (cv_unlocked sample_created)}"
proof -
  have open': "ct_session sample_open = Some (js_idle (cv_unlocked sample_created) (cv_metadata sample_created))"
    by (simp add: sample_open_def)
  then show "ct_session sample_editing = Some (js_idle (cv_unlocked sample_created) (cv_metadata sample_created))"
    by (simp add: sample_editing_def set_state_def)
  show "app_inv sample_ui sample_editing"
    using select_moves [OF sample_open_inv open', where L = sample_ui and p = "\<lambda>st. st\<lparr>as_screen := ''edit''\<rparr>"]
    by (simp add: moves_def sample_editing_def)
  show "recoverable sample_ui (cv_metadata sample_created) (ms_values failing_device) (cv_unlocked sample_created)
      {uv_container (cv_unlocked sample_created)}"
    using sample_recoverable by (simp add: sample_ui_core failing_device_def memory_fail_next_set_def)
qed

lemma interrupted_save_is_safe_witness:
  "\<exists>res s2 c2 r2 v3 s4. app_save_entry_paged sample_ui memory_storage sample_page (str ''Mail'')
       (str ''hunter2'') [] (f64_of_nat 200) (failing_device, sample_editing, 5) = (res, (s2, c2, r2)) \<and>
     open_session sample_ui memory_storage (str ''correct horse battery staple'')
       (memory_default\<lparr>ms_values := ms_values s2\<rparr>) = (Inr (js_idle v3 (cv_metadata sample_created)), s4) \<and>
     (case res of
        Inl _ \<Rightarrow> ct_session c2 = None \<and>
          uv_container v3 \<in> {uv_container (cv_unlocked sample_created), next_container sample_edited}
      | Inr _ \<Rightarrow> v3 = next_vault sample_edited \<and> as_entries (ct_state c2) = shown_entries sample_ui v3)"
proof -
  let ?v = "cv_unlocked sample_created" and ?m = "cv_metadata sample_created"
  obtain res s2 c2 r2 where run: "app_save_entry_paged sample_ui memory_storage sample_page (str ''Mail'')
      (str ''hunter2'') [] (f64_of_nat 200) (failing_device, sample_editing, 5) = (res, (s2, c2, r2))"
    by (metis prod_cases4)
  have edit: "entry_edit sample_ui (as_editing_id (ct_state sample_editing)) (str ''Mail'') (str ''hunter2'')
      (normalized_description []) (f64_of_nat 200) (js_idle ?v ?m, 5) = (Inr (), js_idle sample_edited ?m, 6)"
    using sample_entry_edit by (simp add: sample_editing_def sample_open_def set_state_def)
  have fits: "\<forall>slot r'. encrypt_for_slot sample_ui sample_edited (slot_other (uv_persisted_slot sample_edited)) 6
      = (Inr slot, r') \<longrightarrow> (\<exists>e. slot_to_json sample_ui slot = Some e \<and> byte_len e \<le> MAX_SLOT_JSON_BYTES)"
    using sample_edited_slot_fits by (auto simp: sample_edited_side sample_edited_slot_def)
  have dev: "ms_values (memory_default\<lparr>ms_values := ms_values s2\<rparr>) = ms_values s2" by simp
  note safe = interrupted_save_is_safe [OF mem.lawful_storage_axioms sample_ui_deps_laws sample_ui_laws
      sample_pointer_fits [folded sample_ui_core(3)] sample_editing(2,1,3)
      sample_opens_text [folded sample_ui_core(2)] edit run reborn_reliable dev fits]
  from safe obtain v3 s4 where o: "open_session sample_ui memory_storage (str ''correct horse battery staple'')
      (memory_default\<lparr>ms_values := ms_values s2\<rparr>) = (Inr (js_idle v3 ?m), s4)"
    and c: "case res of
      Inl _ \<Rightarrow> ct_session c2 = None \<and> uv_container v3 \<in> {uv_container ?v, next_container sample_edited}
    | Inr _ \<Rightarrow> v3 = next_vault sample_edited \<and> as_entries (ct_state c2) = shown_entries sample_ui v3"
    by (cases res) auto
  show ?thesis using run o c by blast
qed

section \<open>Changing the password\<close>

text \<open>C19: A change of the password that the page interrupts is safe. Whatever the page calls at the three
  awaits of \<open>changeMasterPassword\<close> and whatever the device does, the application is well formed
  afterwards. Either the stored values are untouched and an error is reported, or the device holds the
  same vault under new metadata, which the new password opens, and the current password was the
  right one. If a session is still open after a success, it is the one that reopening gives.\<close>

theorem interrupted_password_change_is_safe:
  assumes "lawful_storage D vals reliable" and "deps_laws L" and "pointer_fits L" and "metadata_fits L"
    and "app_inv L c" and "ct_session c = Some (js_idle v m)"
    and "recoverable L m (vals s) v {uv_container v}"
    and "app_change_master_password_paged L D page cur new now (s, c, r) = (res, (s2, c2, r2))"
    and "reliable s3" and "vals s3 = vals s2"
  shows "app_inv L c2 \<and>
    (vals s2 = vals s \<and> (\<exists>e. res = Inl e) \<and> ct_session c2 \<in> {None, ct_session c} \<or>
     (\<exists>m' s4. open_session L D new s3 = (Inr (js_idle v m'), s4) \<and> opens_with L (as_bytes cur) m (uv_dek v) \<and>
       (case res of
          Inl _ \<Rightarrow> ct_session c2 \<in> {None, ct_session c}
        | Inr _ \<Rightarrow> ct_session c2 \<in> {None, Some (js_idle v m')} \<and> as_screen (ct_state c2) = ''settings'')))"
proof -
  note result = app_change_password_paged_result [OF assms(1,2,4-8)]
  have reopen: "\<exists>s4. open_session L D new s3 = (Inr (js_idle v m'), s4)"
    if rec: "recoverable L m' (vals s2) v {uv_container v}" and pw: "opens_with L (as_bytes new) m' (uv_dek v)"
    for m'
    using lawful_storage.open_session_exact [OF assms(1,9,3) rec [folded assms(10)] pw] by metis
  show ?thesis
  proof (cases res)
    case (Inl e)
    with result reopen show ?thesis unfolding Inl assms(6) by simp blast
  next
    case (Inr u)
    with result reopen show ?thesis unfolding Inr by simp blast
  qed
qed

lemma interrupted_password_change_is_safe_witness:
  "\<exists>res s2 c2 r2. app_change_master_password_paged sample_ui memory_storage sample_page
       (str ''correct horse battery staple'') (str ''a new phrase beyond the looking glass'') (f64_of_nat 250)
       (sample_device, sample_editing, 5) = (res, (s2, c2, r2)) \<and>
     (ms_values s2 = ms_values sample_device \<and> (\<exists>e. res = Inl e) \<or>
      (\<exists>m' s4. open_session sample_ui memory_storage (str ''a new phrase beyond the looking glass'')
         (memory_default\<lparr>ms_values := ms_values s2\<rparr>) = (Inr (js_idle (cv_unlocked sample_created) m'), s4)))"
proof -
  let ?v = "cv_unlocked sample_created" and ?m = "cv_metadata sample_created"
  obtain res s2 c2 r2 where run: "app_change_master_password_paged sample_ui memory_storage sample_page
      (str ''correct horse battery staple'') (str ''a new phrase beyond the looking glass'') (f64_of_nat 250)
      (sample_device, sample_editing, 5) = (res, (s2, c2, r2))"
    by (metis prod_cases4)
  have dev: "ms_values (memory_default\<lparr>ms_values := ms_values s2\<rparr>) = ms_values s2" by simp
  from interrupted_password_change_is_safe [OF mem.lawful_storage_axioms sample_ui_deps_laws
      sample_pointer_fits [folded sample_ui_core(3)] sample_metadata_fits [folded sample_ui_core(5)]
      sample_editing(2,1) sample_recoverable [folded sample_ui_core(1)] run reborn_reliable dev] run
  show ?thesis by blast
qed

section \<open>Calls that overlap\<close>

text \<open>A save of the edited sample vault is prepared.\<close>

lemma sample_prepares:
  obtains handed w1 r1 where "wasm_prepare_save sample_ui
      (js_idle sample_edited (cv_metadata sample_created), 6) = (Inr handed, (w1, r1))"
    and "save_bundle_slot_key handed = SLOT_B_KEY"
proof -
  obtain slot r1 where enc: "encrypt_for_slot sample_ui sample_edited B 6 = (Inr slot, r1)"
    using sample_edited_encrypts by (metis is_ok_iff prod.collapse)
  then have slot: "slot = sample_edited_slot" by (simp add: sample_edited_slot_def)
  obtain j where j: "slot_to_json sample_ui slot = Some j" using sample_edited_slot_fits(2) slot by auto
  obtain p where p: "pointer_to_json sample_ui \<lparr>as_version = 1, as_slot = B, as_generation = es_generation slot\<rparr>
      = Some p"
    using sample_pointer_fits [folded sample_ui_core(3)] by (auto simp: pointer_fits_def)
  have "\<exists>handed w1. wasm_prepare_save sample_ui
      (js_idle sample_edited (cv_metadata sample_created), 6) = (Inr handed, (w1, r1)) \<and>
      save_bundle_slot_key handed = SLOT_B_KEY"
    using enc j p sample_edited_side
    by (simp add: wasm_prepare_save_def prepare_save_def ensure_mutable_def vault_ref_def Let_def
        wasm_save_bundle_new_def save_bundle_slot_key_def)
  then show ?thesis using that by blast
qed

text \<open>C20: A call that would wait, made while another waits, can only lock. From \<open>prepareSave\<close> or
  \<open>preparePasswordChange\<close> until the commit, whatever the page has called since, a second \<open>saveEntry\<close>,
  \<open>deleteSelected\<close> or \<open>changeMasterPassword\<close> on the same controller returns an error at once: it draws
  nothing, does not call the device, and leaves the controller as it was or as \<open>lock()\<close> leaves it. So
  two of them never write at the same time, and in a save or a change of the password with calls in
  between such a call is a lock.\<close>

theorem overlapping_call_only_locks:
  assumes "app_inv L c" and "ct_session c = Some w" and "undecided w1"
    and "page_calls L calls (w1, c) = (w2, c2)"
  shows "\<exists>e c3. waiting_step L D call (s, attach w2 c2, r) = (Inl e, (s, c3, r)) \<and>
    c3 \<in> {attach w2 c2, page_step L PageLock (attach w2 c2)}"
proof -
  have inv: "app_inv L (attach w c)" using assms(1,2) by (simp add: attach_same)
  have "shares w1 (w1, c)" using assms(2) by (simp add: shares_def)
  with page_calls_inv(2) [OF inv assms(4)] have sh: "shares w1 (w2, c2)" .
  show ?thesis
  proof (cases "ct_session c2")
    case None
    then show ?thesis
      by (cases call) (simp_all add: attach_closed app_save_entry_def app_delete_selected_def
          app_change_master_password_def require_session_def)
  next
    case (Some x)
    with sh have "w2 = w1" by (simp add: shares_def)
    with Some have "ct_session (attach w2 c2) = Some w1" by (simp add: attach_def)
    from undecided_waiting_step [OF assms(3) this] show ?thesis by simp
  qed
qed

lemma overlapping_call_only_locks_witness:
  "\<exists>handed w1 r1 w2 c2 e c3.
     wasm_prepare_save sample_ui (js_idle sample_edited (cv_metadata sample_created), 6) = (Inr handed, (w1, r1)) \<and>
     page_calls sample_ui (sample_page 1) (w1, sample_editing) = (w2, c2) \<and>
     waiting_step sample_ui memory_storage (WaitSaveEntry (str ''Mail'') (str ''hunter3'') [] (f64_of_nat 210))
       (sample_device, attach w2 c2, r1) = (Inl e, (sample_device, c3, r1)) \<and>
     c3 \<in> {attach w2 c2, page_step sample_ui PageLock (attach w2 c2)}"
proof -
  obtain handed w1 r1 where prep: "wasm_prepare_save sample_ui
      (js_idle sample_edited (cv_metadata sample_created), 6) = (Inr handed, (w1, r1))"
    by (rule sample_prepares)
  obtain w2 c2 where calls: "page_calls sample_ui (sample_page 1) (w1, sample_editing) = (w2, c2)" by fastforce
  from overlapping_call_only_locks [OF sample_editing(2,1) undecided_prepare_save [OF prep] calls,
      where D = memory_storage and s = sample_device and r = r1
        and call = "WaitSaveEntry (str ''Mail'') (str ''hunter3'') [] (f64_of_nat 210)"]
  show ?thesis using prep calls by blast
qed

end
