(* ===== verification/Segments.thy ===== *)
theory Segments
  imports Interleaving_Safety Wasm_Properties Client_Properties
begin

text \<open>
  The waiting methods of \<open>VaultPersistence\<close> taken apart at their awaits. A segment of a method is what
  it does between two awaits: it takes the answer of the device, calls the session and makes the next
  call of the device, or it ends. A call takes effect on the device when it is made; its answer is
  taken at the next segment, and in between any other method may have its segments. Run without
  others, the segments are \<open>save_session\<close>, \<open>change_master_password\<close> and \<open>destroy_session\<close>.
\<close>

section \<open>The segments of a save\<close>

datatype save_point =
    Slot_set "storage_error + unit"
  | Slot_get "storage_error + rstring option"
  | Pointer_set "storage_error + unit"
  | Pointer_get "storage_error + rstring option"

datatype save_progress =
    Save_waits wasm_save_bundle save_point
  | Save_done "client_error + unit"

definition save_begin ::
  "('r, 'z) deps_scheme \<Rightarrow> 's device_storage \<Rightarrow> 's \<times> wasm_vault_session \<times> 'r
     \<Rightarrow> save_progress \<times> ('s \<times> wasm_vault_session \<times> 'r)" where
  "save_begin L D = (\<lambda>(s, w, r).
     case wasm_prepare_save L (w, r) of
       (Inl e, (w', r')) \<Rightarrow> (Save_done (Inl (Session e)), (s, w', r'))
     | (Inr handed, (w', r')) \<Rightarrow>
         if save_bundle_slot_key handed \<notin> set ALLOWED_SLOT_KEYS
         then (Save_done (Inl (Persistence ''invalid_slot_key'')), (s, wasm_cancel_pending_save w', r'))
         else
           (case ds_set D (save_bundle_slot_key handed) (save_bundle_slot_json handed) s of
              (res, s') \<Rightarrow> (Save_waits handed (Slot_set res), (s', w', r'))))"

text \<open>The \<open>catch\<close> block.\<close>

definition save_fails ::
  "client_error \<Rightarrow> 's \<times> wasm_vault_session \<Rightarrow> save_progress \<times> ('s \<times> wasm_vault_session)" where
  "save_fails e = (\<lambda>(s, w). (Save_done (Inl e), (s, wasm_cancel_pending_save w)))"

fun save_resume ::
  "'z crypto_lib_scheme \<Rightarrow> 's device_storage \<Rightarrow> wasm_save_bundle \<Rightarrow> save_point
     \<Rightarrow> 's \<times> wasm_vault_session \<Rightarrow> save_progress \<times> ('s \<times> wasm_vault_session)" where
  "save_resume L D handed (Slot_set (Inl e)) (s, w) = save_fails (Device e) (s, w)"
| "save_resume L D handed (Slot_set (Inr _)) (s, w) =
     (case ds_get D (save_bundle_slot_key handed) s of
        (got, s') \<Rightarrow> (Save_waits handed (Slot_get got), (s', w)))"
| "save_resume L D handed (Slot_get (Inl e)) (s, w) = save_fails (Device e) (s, w)"
| "save_resume L D handed (Slot_get (Inr None)) (s, w) =
     save_fails (Persistence ''missing_slot_readback'') (s, w)"
| "save_resume L D handed (Slot_get (Inr (Some slot_readback))) (s, w) =
     (case wasm_verify_pending_slot L slot_readback w of
        (Inl e, w') \<Rightarrow> save_fails (Session e) (s, w')
      | (Inr _, w') \<Rightarrow>
          (case ds_set D ACTIVE_SLOT_KEY (save_bundle_active_pointer_json handed) s of
             (res, s') \<Rightarrow> (Save_waits handed (Pointer_set res), (s', w'))))"
| "save_resume L D handed (Pointer_set (Inl e)) (s, w) = save_fails (Device e) (s, w)"
| "save_resume L D handed (Pointer_set (Inr _)) (s, w) =
     (case ds_get D ACTIVE_SLOT_KEY s of (got, s') \<Rightarrow> (Save_waits handed (Pointer_get got), (s', w)))"
| "save_resume L D handed (Pointer_get (Inl e)) (s, w) = save_fails (Device e) (s, w)"
| "save_resume L D handed (Pointer_get (Inr None)) (s, w) =
     save_fails (Persistence ''missing_pointer_readback'') (s, w)"
| "save_resume L D handed (Pointer_get (Inr (Some pointer_readback))) (s, w) =
     (case wasm_commit_pending_save L pointer_readback w of
        (Inl e, w') \<Rightarrow> save_fails (Session e) (s, w')
      | (Inr _, w') \<Rightarrow> (Save_done (Inr ()), (s, w')))"

section \<open>The segments of a password change\<close>

datatype change_point =
    Meta_set "storage_error + unit"
  | Meta_get "storage_error + rstring option"

datatype change_progress =
    Change_waits change_point
  | Change_done "client_error + unit"

definition change_begin ::
  "('r, 'z) deps_scheme \<Rightarrow> 's device_storage \<Rightarrow> rstring \<Rightarrow> rstring
     \<Rightarrow> 's \<times> wasm_vault_session \<times> 'r \<Rightarrow> change_progress \<times> ('s \<times> wasm_vault_session \<times> 'r)" where
  "change_begin L D current_master_password new_master_password = (\<lambda>(s, w, r).
     case wasm_prepare_password_change L current_master_password new_master_password (w, r) of
       (Inl e, (w', r')) \<Rightarrow> (Change_done (Inl (Session e)), (s, w', r'))
     | (Inr metadata_json, (w', r')) \<Rightarrow>
         (case ds_set D META_KEY metadata_json s of
            (res, s') \<Rightarrow> (Change_waits (Meta_set res), (s', w', r'))))"

definition change_fails ::
  "client_error \<Rightarrow> 's \<times> wasm_vault_session \<Rightarrow> change_progress \<times> ('s \<times> wasm_vault_session)" where
  "change_fails e = (\<lambda>(s, w). (Change_done (Inl e), (s, wasm_cancel_password_change w)))"

fun change_resume ::
  "'z codec_lib_scheme \<Rightarrow> 's device_storage \<Rightarrow> change_point
     \<Rightarrow> 's \<times> wasm_vault_session \<Rightarrow> change_progress \<times> ('s \<times> wasm_vault_session)" where
  "change_resume L D (Meta_set (Inl e)) (s, w) = change_fails (Device e) (s, w)"
| "change_resume L D (Meta_set (Inr _)) (s, w) =
     (case ds_get D META_KEY s of (got, s') \<Rightarrow> (Change_waits (Meta_get got), (s', w)))"
| "change_resume L D (Meta_get (Inl e)) (s, w) = change_fails (Device e) (s, w)"
| "change_resume L D (Meta_get (Inr None)) (s, w) =
     change_fails (Persistence ''missing_metadata_readback'') (s, w)"
| "change_resume L D (Meta_get (Inr (Some readback))) (s, w) =
     (case wasm_commit_password_change L readback w of
        (Inl e, w') \<Rightarrow> change_fails (Session e) (s, w')
      | (Inr _, w') \<Rightarrow> (Change_done (Inr ()), (s, w')))"

section \<open>The methods that wait\<close>

datatype method_progress =
    Saving save_progress
  | Changing change_progress

fun method_step ::
  "'z crypto_lib_scheme \<Rightarrow> 's device_storage \<Rightarrow> method_progress \<times> ('s \<times> wasm_vault_session)
     \<Rightarrow> method_progress \<times> ('s \<times> wasm_vault_session)" where
  "method_step L D (Saving (Save_waits handed point), x) =
     map_prod Saving id (save_resume L D handed point x)"
| "method_step L D (Changing (Change_waits point), x) =
     map_prod Changing id (change_resume L D point x)"
| "method_step L D (p, x) = (p, x)"

text \<open>How a method ended, if it has.\<close>

fun method_result :: "method_progress \<Rightarrow> (client_error + unit) option" where
  "method_result (Saving (Save_done res)) = Some res"
| "method_result (Changing (Change_done res)) = Some res"
| "method_result p = None"

section \<open>The segments of a destruction\<close>

datatype destroy_progress =
    Destroy_waits "storage_error + unit" "key list"
  | Secure_waits "storage_error + unit" "client_error + unit"
  | Destroy_done "client_error + unit"

text \<open>The \<open>finally\<close> block.\<close>

definition destroy_finally ::
  "'t device_storage option \<Rightarrow> client_error + unit \<Rightarrow> 's \<times> 't \<Rightarrow> destroy_progress \<times> ('s \<times> 't)" where
  "destroy_finally secure res = (\<lambda>(s, t).
     case secure of
       None \<Rightarrow> (Destroy_done res, (s, t))
     | Some E \<Rightarrow>
         (case ds_remove E MASTER_PASSWORD_CACHE_KEY t of (r, t') \<Rightarrow> (Secure_waits r res, (s, t'))))"

fun destroy_next ::
  "'s device_storage \<Rightarrow> 't device_storage option \<Rightarrow> key list \<Rightarrow> 's \<times> 't
     \<Rightarrow> destroy_progress \<times> ('s \<times> 't)" where
  "destroy_next D secure [] x = destroy_finally secure (Inr ()) x"
| "destroy_next D secure (k # rest) (s, t) =
     (case ds_remove D k s of (res, s') \<Rightarrow> (Destroy_waits res rest, (s', t)))"

fun destroy_step ::
  "'s device_storage \<Rightarrow> 't device_storage option \<Rightarrow> destroy_progress \<times> ('s \<times> 't)
     \<Rightarrow> destroy_progress \<times> ('s \<times> 't)" where
  "destroy_step D secure (Destroy_waits (Inl e) rest, x) = destroy_finally secure (Inl (Device e)) x"
| "destroy_step D secure (Destroy_waits (Inr _) rest, x) = destroy_next D secure rest x"
| "destroy_step D secure (Secure_waits (Inl e) res, x) = (Destroy_done (Inl (Device e)), x)"
| "destroy_step D secure (Secure_waits (Inr _) res, x) = (Destroy_done res, x)"
| "destroy_step D secure (Destroy_done res, x) = (Destroy_done res, x)"

definition destroy_begin ::
  "'s device_storage \<Rightarrow> 't device_storage option \<Rightarrow> 's \<times> 't \<times> wasm_vault_session
     \<Rightarrow> destroy_progress \<times> ('s \<times> 't \<times> wasm_vault_session)" where
  "destroy_begin D secure = (\<lambda>(s, t, w).
     case destroy_next D secure VAULT_DEVICE_KEYS (s, t) of
       (p, (s', t')) \<Rightarrow> (p, (s', t', wasm_lock w)))"

section \<open>Without others, the segments are the method\<close>

definition save_alone ::
  "('r, 'z) deps_scheme \<Rightarrow> 's device_storage \<Rightarrow> 's \<times> wasm_vault_session \<times> 'r
     \<Rightarrow> (client_error + unit) option \<times> ('s \<times> wasm_vault_session \<times> 'r)" where
  "save_alone L D x =
     (case save_begin L D x of (p, (s, w, r)) \<Rightarrow>
        (case (method_step L D ^^ 4) (Saving p, (s, w)) of
           (p', (s', w')) \<Rightarrow> (method_result p', (s', w', r))))"

definition change_alone ::
  "('r, 'z) deps_scheme \<Rightarrow> 's device_storage \<Rightarrow> rstring \<Rightarrow> rstring \<Rightarrow> 's \<times> wasm_vault_session \<times> 'r
     \<Rightarrow> (client_error + unit) option \<times> ('s \<times> wasm_vault_session \<times> 'r)" where
  "change_alone L D current_master_password new_master_password x =
     (case change_begin L D current_master_password new_master_password x of (p, (s, w, r)) \<Rightarrow>
        (case (method_step L D ^^ 2) (Changing p, (s, w)) of
           (p', (s', w')) \<Rightarrow> (method_result p', (s', w', r))))"

fun destroy_result :: "destroy_progress \<Rightarrow> (client_error + unit) option" where
  "destroy_result (Destroy_done res) = Some res"
| "destroy_result p = None"

definition destroy_alone ::
  "'s device_storage \<Rightarrow> 't device_storage option \<Rightarrow> 's \<times> 't \<times> wasm_vault_session
     \<Rightarrow> (client_error + unit) option \<times> ('s \<times> 't \<times> wasm_vault_session)" where
  "destroy_alone D secure x =
     (case destroy_begin D secure x of (p, (s, t, w)) \<Rightarrow>
        (case (destroy_step D secure ^^ 6) (p, (s, t)) of
           (p', (s', t')) \<Rightarrow> (destroy_result p', (s', t', w))))"

lemma funpow_numeral: "(f ^^ numeral k) x = (f ^^ pred_numeral k) (f x)"
  by (simp add: numeral_eq_Suc funpow_swap1)

lemma funpow_fixed: "f x = x \<Longrightarrow> (f ^^ n) x = x"
  by (induction n) simp_all

lemma finished_steps [simp]:
  "(method_step L D ^^ n) (Saving (Save_done res), x) = (Saving (Save_done res), x)"
  "(method_step L D ^^ n) (Changing (Change_done res), x) = (Changing (Change_done res), x)"
  "(destroy_step D E ^^ n) (Destroy_done out, y) = (Destroy_done out, y)"
  by (simp_all add: funpow_fixed)

text \<open>The second half of a save, from the write of the pointer on, and the whole of it.\<close>

lemmas segment_simps = bindE_apply on_device_def on_session_def save_fails_def change_fails_def on_error_def
  funpow_numeral

lemma pointer_segments:
  "(method_step L D ^^ 2) (Saving (Save_waits handed (Pointer_set res)), (s, w)) =
     (case on_error wasm_cancel_pending_save
        (bindE (lift (map_err Device res)) (\<lambda>_.
         bindE (on_device (ds_get D ACTIVE_SLOT_KEY)) (\<lambda>got.
         bindE (lift (ok_or (Persistence ''missing_pointer_readback'') got)) (\<lambda>pointer_readback.
         on_session (wasm_commit_pending_save L pointer_readback))))) (s, w)
      of (out, x) \<Rightarrow> (Saving (Save_done out), x))"
proof (cases res)
  case (Inr u)
  obtain got s1 where get: "ds_get D ACTIVE_SLOT_KEY s = (got, s1)" by fastforce
  show ?thesis
  proof (cases "\<exists>t. got = Inr (Some t)")
    case True
    then obtain t where t: "got = Inr (Some t)" by blast
    show ?thesis
      by (cases "wasm_commit_pending_save L t w"; cases "fst (wasm_commit_pending_save L t w)")
        (simp_all add: segment_simps get t Inr)
  next
    case False
    then show ?thesis by (cases got; cases "projr got") (auto simp: segment_simps get Inr)
  qed
qed (simp add: segment_simps)

lemma slot_segments:
  "(method_step L D ^^ 4) (Saving (Save_waits handed (Slot_set res)), (s, w)) =
     (case on_error wasm_cancel_pending_save
        (bindE (lift (map_err Device res)) (\<lambda>_.
         bindE (on_device (ds_get D (save_bundle_slot_key handed))) (\<lambda>got.
         bindE (lift (ok_or (Persistence ''missing_slot_readback'') got)) (\<lambda>slot_readback.
         bindE (on_session (wasm_verify_pending_slot L slot_readback)) (\<lambda>_.
         bindE (on_device (ds_set D ACTIVE_SLOT_KEY (save_bundle_active_pointer_json handed))) (\<lambda>_.
         bindE (on_device (ds_get D ACTIVE_SLOT_KEY)) (\<lambda>got.
         bindE (lift (ok_or (Persistence ''missing_pointer_readback'') got)) (\<lambda>pointer_readback.
         on_session (wasm_commit_pending_save L pointer_readback))))))))) (s, w)
      of (out, x) \<Rightarrow> (Saving (Save_done out), x))"
proof (cases res)
  case (Inr u)
  obtain got s1 where get: "ds_get D (save_bundle_slot_key handed) s = (got, s1)" by fastforce
  show ?thesis
  proof (cases "\<exists>t. got = Inr (Some t)")
    case True
    then obtain t where t: "got = Inr (Some t)" by blast
    obtain v w1 where verify: "wasm_verify_pending_slot L t w = (v, w1)" by fastforce
    obtain r2 s2 where set: "ds_set D ACTIVE_SLOT_KEY (save_bundle_active_pointer_json handed) s1 = (r2, s2)"
      by fastforce
    have half: "(method_step L D ^^ 4) x = (method_step L D ^^ 2) ((method_step L D ^^ 2) x)" for x
      by (simp add: funpow_numeral)
    have first: "(method_step L D ^^ 2) (Saving (Save_waits handed (Slot_set res)), (s, w)) =
        (case v of Inl e \<Rightarrow> (Saving (Save_done (Inl (Session e))), (s1, wasm_cancel_pending_save w1))
         | Inr _ \<Rightarrow> (Saving (Save_waits handed (Pointer_set r2)), (s2, w1)))"
      by (cases v) (simp_all add: segment_simps get t Inr verify set)
    show ?thesis
    proof (cases v)
      case (Inl e)
      then show ?thesis by (simp only: half first sum.case finished_steps) (simp add: segment_simps(1-3,6) get t Inr verify)
    next
      case Inr': (Inr x)
      then have first: "(method_step L D ^^ 2) (Saving (Save_waits handed (Slot_set res)), (s, w)) =
          (Saving (Save_waits handed (Pointer_set r2)), (s2, w1))"
        using first by simp
      show ?thesis
        by (simp only: half first pointer_segments) (simp add: segment_simps(1-3,6) get t verify set Inr Inr')
    qed
  next
    case False
    then show ?thesis by (cases got; cases "projr got") (auto simp: segment_simps get Inr)
  qed
qed (simp add: segment_simps)


lemma change_segments:
  "(method_step L D ^^ 2) (Changing (Change_waits (Meta_set res)), (s, w)) =
     (case on_error wasm_cancel_password_change
        (bindE (lift (map_err Device res)) (\<lambda>_.
         bindE (on_device (ds_get D META_KEY)) (\<lambda>got.
         bindE (lift (ok_or (Persistence ''missing_metadata_readback'') got)) (\<lambda>readback.
         on_session (wasm_commit_password_change L readback))))) (s, w)
      of (out, x) \<Rightarrow> (Changing (Change_done out), x))"
proof (cases res)
  case (Inr u)
  obtain got s1 where get: "ds_get D META_KEY s = (got, s1)" by fastforce
  show ?thesis
  proof (cases "\<exists>t. got = Inr (Some t)")
    case True
    then obtain t where t: "got = Inr (Some t)" by blast
    show ?thesis
      by (cases "wasm_commit_password_change L t w"; cases "fst (wasm_commit_password_change L t w)")
        (simp_all add: segment_simps get t Inr)
  next
    case False
    then show ?thesis by (cases got; cases "projr got") (auto simp: segment_simps get Inr)
  qed
qed (simp add: segment_simps)

text \<open>The first write of a method is made by its first segment.\<close>

lemma save_alone_eq:
  "save_alone L D x = (case save_session L D x of (res, y) \<Rightarrow> (Some res, y))"
proof -
  obtain s w r where x: "x = (s, w, r)" by (cases x)
  obtain out w1 r1 where prep: "wasm_prepare_save L (w, r) = (out, (w1, r1))" by (metis prod_cases3)
  show ?thesis
  proof (cases out)
    case (Inl e)
    then show ?thesis by (simp add: x save_alone_def save_begin_def save_session_def prep)
  next
    case (Inr handed)
    obtain res s1 where set: "ds_set D (save_bundle_slot_key handed) (save_bundle_slot_json handed) s = (res, s1)"
      by fastforce
    show ?thesis
      by (simp add: x save_alone_def save_begin_def save_session_def prep Inr slot_segments write_save_def set
          on_device_def [of "ds_set D (save_bundle_slot_key handed) x" for x] bindE_apply on_error_def
          split: prod.splits)
  qed
qed

lemma change_alone_eq:
  "change_alone L D cur new x = (case change_master_password L D cur new x of (res, y) \<Rightarrow> (Some res, y))"
proof -
  obtain s w r where x: "x = (s, w, r)" by (cases x)
  obtain out w1 r1 where prep: "wasm_prepare_password_change L cur new (w, r) = (out, (w1, r1))"
    by (metis prod_cases3)
  show ?thesis
  proof (cases out)
    case (Inl e)
    then show ?thesis by (simp add: x change_alone_def change_begin_def change_master_password_def prep)
  next
    case (Inr t)
    obtain res s1 where set: "ds_set D META_KEY t s = (res, s1)" by fastforce
    show ?thesis
      by (simp add: x change_alone_def change_begin_def change_master_password_def prep Inr change_segments
          write_password_change_def set on_device_def [of "ds_set D META_KEY x" for x] bindE_apply on_error_def
          split: prod.splits)
  qed
qed


lemma finally_done:
  "\<exists>out y. destroy_step D E (destroy_finally E res x) = (Destroy_done out, y)"
proof (cases E)
  case (Some secure)
  obtain r t where "ds_remove secure MASTER_PASSWORD_CACHE_KEY (snd x) = (r, t)" by fastforce
  with Some show ?thesis by (cases x; cases r) (simp_all add: destroy_finally_def)
qed (cases x; simp add: destroy_finally_def)

lemma removal_segments:
  "(destroy_step D E ^^ Suc (length ks)) (destroy_next D E ks (s, t)) =
     (case remove_keys D ks s of (res, s') \<Rightarrow> destroy_step D E (destroy_finally E res (s', t)))"
proof (induction ks arbitrary: s)
  case (Cons k ks)
  obtain res s1 where remove: "ds_remove D k s = (res, s1)" by fastforce
  have step: "(destroy_step D E ^^ Suc (length (k # ks))) x =
      (destroy_step D E ^^ Suc (length ks)) (destroy_step D E x)" for x
    by (simp add: funpow_swap1)
  show ?case
  proof (cases res)
    case (Inl e)
    obtain out y where "destroy_step D E (destroy_finally E (Inl (Device e)) (s1, t)) = (Destroy_done out, y)"
      using finally_done by metis
    then show ?thesis
      by (simp add: step remove Inl bindE_apply map_errE_def funpow_Suc_right del: funpow.simps)
  next
    case (Inr u)
    then show ?thesis by (simp only: step) (simp add: remove bindE_apply map_errE_def Cons.IH del: funpow.simps)
  qed
qed simp

lemma destroy_alone_eq:
  "destroy_alone D E (s, t, w) =
     (case destroy_session D E (s, t, Some w) of (res, (s', t', w')) \<Rightarrow> (Some res, (s', t', the w')))"
proof -
  obtain p s1 t1 where first: "destroy_next D E VAULT_DEVICE_KEYS (s, t) = (p, (s1, t1))" by (metis prod_cases3)
  obtain res s2 where remove: "remove_keys D VAULT_DEVICE_KEYS s = (res, s2)" by fastforce
  have "(destroy_step D E ^^ 6) (p, (s1, t1)) = destroy_step D E (destroy_finally E res (s2, t))"
    using removal_segments [of VAULT_DEVICE_KEYS D E s t] first remove
    by (simp add: VAULT_DEVICE_KEYS_def eval_nat_numeral)
  then show ?thesis
    by (auto simp: destroy_alone_def destroy_begin_def first destroy_session_def remove destroy_finally_def Let_def
        split: option.split prod.split sum.split)
qed


section \<open>Methods that overlap\<close>

text \<open>
  One session object, the two storages, the saves and changes of the password that have been started,
  and the destruction, if it has been started. A step is a call on the session that does not wait, the
  first segment of a method, or the next segment of any of them: every order is possible.
\<close>

record ('s, 't, 'r) overlap =
  ov_device :: 's
  ov_secure :: 't
  ov_session :: wasm_vault_session
  ov_random :: 'r
  ov_methods :: "method_progress list"
  ov_destroy :: "destroy_progress option"

inductive overlap_step ::
  "('r, 'z) deps_scheme \<Rightarrow> 's device_storage \<Rightarrow> 't device_storage option
     \<Rightarrow> ('s, 't, 'r) overlap \<Rightarrow> ('s, 't, 'r) overlap \<Rightarrow> bool"
  for L D E where
  ov_call: "wasm_step L call (ov_session x, ov_random x) = (out, (w, r)) \<Longrightarrow>
     overlap_step L D E x (x\<lparr>ov_session := w, ov_random := r\<rparr>)"
| ov_save: "save_begin L D (ov_device x, ov_session x, ov_random x) = (p, (s, w, r)) \<Longrightarrow>
     overlap_step L D E x (x\<lparr>ov_device := s, ov_session := w, ov_random := r,
       ov_methods := ov_methods x @ [Saving p]\<rparr>)"
| ov_change: "change_begin L D cur new (ov_device x, ov_session x, ov_random x) = (q, (s, w, r)) \<Longrightarrow>
     overlap_step L D E x (x\<lparr>ov_device := s, ov_session := w, ov_random := r,
       ov_methods := ov_methods x @ [Changing q]\<rparr>)"
| ov_method: "i < length (ov_methods x) \<Longrightarrow>
     method_step L D (ov_methods x ! i, (ov_device x, ov_session x)) = (m, (s, w)) \<Longrightarrow>
     overlap_step L D E x (x\<lparr>ov_device := s, ov_session := w, ov_methods := (ov_methods x)[i := m]\<rparr>)"
| ov_destroy: "ov_destroy x = None \<Longrightarrow>
     destroy_begin D E (ov_device x, ov_secure x, ov_session x) = (d, (s, t, w)) \<Longrightarrow>
     overlap_step L D E x (x\<lparr>ov_device := s, ov_secure := t, ov_session := w, ov_destroy := Some d\<rparr>)"
| ov_removal: "ov_destroy x = Some d \<Longrightarrow>
     destroy_step D E (d, (ov_device x, ov_secure x)) = (d', (s, t)) \<Longrightarrow>
     overlap_step L D E x (x\<lparr>ov_device := s, ov_secure := t, ov_destroy := Some d'\<rparr>)"

lemma destruction_goes_on:
  assumes "(overlap_step L D E)\<^sup>*\<^sup>* x y" and "ov_destroy x \<noteq> None"
  shows "ov_destroy y \<noteq> None"
  using assms by (induction rule: rtranclp_induct) (auto elim: overlap_step.cases)

text \<open>A locked session object stays as it is, whatever is called on it.\<close>

definition shut :: "wasm_vault_session \<Rightarrow> bool" where
  "shut w \<longleftrightarrow> wasm_lock w = w"

lemma shutE:
  assumes "shut w"
  obtains w0 where "w = wasm_lock w0"
  using assms by (metis shut_def)

lemma shut_lock [simp]: "shut (wasm_lock w)"
  by (simp add: shut_def wasm_lock_def lock_def)

lemma shut_is_locked: "shut w \<Longrightarrow> wasm_is_locked w"
  by (metis shut_def locked_is_locked)

lemma shut_step:
  assumes "shut w" and "wasm_step L call (w, r) = (out, (w', r'))"
  shows "w' = w \<and> r' = r"
proof -
  obtain b where w: "w = \<lparr>wv_inner = lock b\<rparr>"
    using assms(1) by (cases w) (metis shut_def wasm_lock_def wasm_vault_session.select_convs(1)
        wasm_vault_session.update_convs(1))
  show ?thesis
    using assms(2) locked_step [of L _ b r] unfolding w wasm_step_bridge
    by (auto split: sum.splits prod.splits)
qed

lemma locked_prepare [simp]:
  "wasm_prepare_save L (wasm_lock w, r) = (Inl (to_js_error Locked), (wasm_lock w, r))"
  "wasm_prepare_password_change L cur new (wasm_lock w, r) = (Inl (to_js_error Locked), (wasm_lock w, r))"
  by (simp_all add: wasm_prepare_save_def prepare_save_def wasm_prepare_password_change_def
      prepare_password_change_def ensure_mutable_def wasm_lock_def lock_def)

lemma shut_begin:
  assumes "shut w"
  shows "save_begin L D (s, w, r) = (Save_done (Inl (Session (to_js_error Locked))), (s, w, r))"
    and "change_begin L D cur new (s, w, r) = (Change_done (Inl (Session (to_js_error Locked))), (s, w, r))"
proof -
  obtain w0 where w: "w = wasm_lock w0" by (rule shutE [OF assms])
  show "save_begin L D (s, w, r) = (Save_done (Inl (Session (to_js_error Locked))), (s, w, r))"
    and "change_begin L D cur new (s, w, r) = (Change_done (Inl (Session (to_js_error Locked))), (s, w, r))"
    unfolding w by (simp_all add: save_begin_def change_begin_def)
qed

lemma locked_cancel [simp]: "wasm_cancel_pending_save (wasm_lock w) = wasm_lock w"
  by (simp add: wasm_cancel_pending_save_def cancel_pending_save_def wasm_lock_def lock_def)

text \<open>On a locked object a method that waits only reads, does not succeed, and ends within two segments.\<close>

context lawful_storage
begin

lemma shut_save_resume:
  assumes "save_resume L D handed point (s, wasm_lock w) = (p, (s', w'))"
  shows "vals s' = vals s \<and> w' = wasm_lock w \<and> p \<noteq> Save_done (Inr ())"
  using assms
  by (cases "(L, D, handed, point, (s, wasm_lock w))" rule: save_resume.cases)
    (auto simp: save_fails_def dest: get_vals split: prod.splits)

lemma shut_change_resume:
  assumes "change_resume L D point (s, wasm_lock w) = (p, (s', w'))"
  shows "vals s' = vals s \<and> w' = wasm_lock w \<and> p \<noteq> Change_done (Inr ())"
  using assms
  by (cases "(L, D, point, (s, wasm_lock w))" rule: change_resume.cases)
    (auto simp: change_fails_def dest: get_vals split: prod.splits)

lemma shut_method_step:
  assumes "shut w" and "method_step L D (p, (s, w)) = (p', (s', w'))"
  shows "vals s' = vals s \<and> w' = w \<and> (method_result p' = Some (Inr ()) \<longrightarrow> p' = p)"
proof -
  obtain w0 where w: "w = wasm_lock w0" by (rule shutE [OF assms(1)])
  consider (save) handed point where "p = Saving (Save_waits handed point)"
    | (change) point where "p = Changing (Change_waits point)" | (ended) "method_step L D (p, (s, w)) = (p, (s, w))"
    by (cases "(L, D, p, (s, w))" rule: method_step.cases) auto
  then show ?thesis
  proof cases
    case save
    obtain q x y where q: "save_resume L D handed point (s, wasm_lock w0) = (q, (x, y))" by (metis prod_cases3)
    have "method_result (Saving q) \<noteq> Some (Inr ())" using shut_save_resume [OF q] by (cases q) auto
    with shut_save_resume [OF q] q assms(2) show ?thesis by (auto simp: save w)
  next
    case change
    obtain q x y where q: "change_resume L D point (s, wasm_lock w0) = (q, (x, y))" by (metis prod_cases3)
    have "method_result (Changing q) \<noteq> Some (Inr ())" using shut_change_resume [OF q] by (cases q) auto
    with shut_change_resume [OF q] q assms(2) show ?thesis by (auto simp: change w)
  next
    case ended
    with assms(2) show ?thesis by simp
  qed
qed

end

text \<open>On any device, a method that waits ends on a locked object within two segments.\<close>

lemma shut_answer_ends [simp]:
  "\<exists>res. method_result (Saving (fst (save_resume L D handed (Slot_get got) (s, wasm_lock w)))) = Some res"
  "\<exists>res. method_result (Saving (fst (save_resume L D handed (Pointer_get got) (s, wasm_lock w)))) = Some res"
  "\<exists>res. method_result (Changing (fst (change_resume L D (Meta_get got) (s, wasm_lock w)))) = Some res"
proof -
  consider e where "got = Inl e" | "got = Inr None" | t where "got = Inr (Some t)"
    by (cases got; cases "projr got") auto
  then show "\<exists>res. method_result (Saving (fst (save_resume L D handed (Slot_get got) (s, wasm_lock w)))) = Some res"
    and "\<exists>res. method_result (Saving (fst (save_resume L D handed (Pointer_get got) (s, wasm_lock w)))) = Some res"
    and "\<exists>res. method_result (Changing (fst (change_resume L D (Meta_get got) (s, wasm_lock w)))) = Some res"
    by (cases; simp add: save_fails_def change_fails_def)+
qed

lemma shut_two_segments:
  assumes "shut w"
  shows "\<exists>res. method_result (fst ((method_step L D ^^ 2) (p, (s, w)))) = Some res"
proof -
  obtain w0 where w: "w = wasm_lock w0" by (rule shutE [OF assms])
  consider (save) handed point where "p = Saving (Save_waits handed point)"
    | (change) point where "p = Changing (Change_waits point)"
    | (saved) res where "p = Saving (Save_done res)" | (changed) res where "p = Changing (Change_done res)"
    by (cases "(L, D, p, (s, w))" rule: method_step.cases) auto
  then show ?thesis
  proof cases
    case save
    show ?thesis unfolding w save numeral_2_eq_2
      by (cases "(L, D, handed, point, (s, wasm_lock w0))" rule: save_resume.cases)
        (auto simp: save_fails_def split: prod.splits)
  next
    case change
    show ?thesis unfolding w change numeral_2_eq_2
      by (cases "(L, D, point, (s, wasm_lock w0))" rule: change_resume.cases)
        (auto simp: change_fails_def split: prod.splits)
  qed (simp_all add: numeral_2_eq_2)
qed


section \<open>What overlapping methods leave\<close>

definition succeeded :: "method_progress list \<Rightarrow> nat set" where
  "succeeded ms = {i. i < length ms \<and> method_result (ms ! i) = Some (Inr ())}"

lemma succeeded_append: "method_result m \<noteq> Some (Inr ()) \<Longrightarrow> succeeded (ms @ [m]) = succeeded ms"
  by (auto simp: succeeded_def nth_append less_Suc_eq)

lemma succeeded_update:
  "(method_result m = Some (Inr ()) \<longrightarrow> m = ms ! i) \<Longrightarrow> succeeded (ms[i := m]) \<subseteq> succeeded ms"
  by (auto simp: succeeded_def) (metis nth_list_update_eq nth_list_update_neq)+

text \<open>The keys that a destruction which has not failed has still to remove.\<close>

fun keys_left :: "destroy_progress \<Rightarrow> key list option" where
  "keys_left (Destroy_waits (Inr _) rest) = Some rest"
| "keys_left (Secure_waits _ (Inr _)) = Some []"
| "keys_left (Destroy_done (Inr _)) = Some []"
| "keys_left d = None"

fun keys_listed :: "destroy_progress \<Rightarrow> key set" where
  "keys_listed (Destroy_waits _ rest) = set rest"
| "keys_listed d = {}"

type_synonym stored_values = "key \<Rightarrow> rstring option"

definition removed_so_far :: "stored_values \<Rightarrow> destroy_progress \<Rightarrow> bool" where
  "removed_so_far m d \<longleftrightarrow> keys_listed d \<subseteq> set VAULT_DEVICE_KEYS \<and>
     (\<forall>rest. keys_left d = Some rest \<longrightarrow> (\<forall>k \<in> set VAULT_DEVICE_KEYS - set rest. m k = None))"

definition same_elsewhere :: "stored_values \<Rightarrow> stored_values \<Rightarrow> bool" where
  "same_elsewhere m m' \<longleftrightarrow> (\<forall>k. k \<notin> set VAULT_DEVICE_KEYS \<longrightarrow> m' k = m k)"

text \<open>A destruction that has begun has locked the session.\<close>

definition destruction_ok :: "('s \<Rightarrow> stored_values) \<Rightarrow> ('s, 't, 'r) overlap \<Rightarrow> bool" where
  "destruction_ok vals x \<longleftrightarrow>
     (\<forall>d. ov_destroy x = Some d \<longrightarrow> shut (ov_session x) \<and> removed_so_far (vals (ov_device x)) d)"

lemma same_elsewhere_refl [simp]: "same_elsewhere m m"
  by (simp add: same_elsewhere_def)

lemma same_elsewhere_trans [trans]: "same_elsewhere a b \<Longrightarrow> same_elsewhere b c \<Longrightarrow> same_elsewhere a c"
  by (simp add: same_elsewhere_def)

context lawful_storage
begin

lemma set_elsewhere: "ds_set D k v s = (res, s') \<Longrightarrow> k \<in> set VAULT_DEVICE_KEYS \<Longrightarrow> same_elsewhere (vals s) (vals s')"
  using set_ok set_err by (cases res) (fastforce simp: same_elsewhere_def)+

lemma remove_elsewhere: "ds_remove D k s = (res, s') \<Longrightarrow> k \<in> set VAULT_DEVICE_KEYS \<Longrightarrow> same_elsewhere (vals s) (vals s')"
  using remove_ok remove_err by (cases res) (fastforce simp: same_elsewhere_def)+

lemma vault_keys:
  "k \<in> set ALLOWED_SLOT_KEYS \<Longrightarrow> k \<in> set VAULT_DEVICE_KEYS"
  "ACTIVE_SLOT_KEY \<in> set VAULT_DEVICE_KEYS" "META_KEY \<in> set VAULT_DEVICE_KEYS"
  by (auto simp: ALLOWED_SLOT_KEYS_def VAULT_DEVICE_KEYS_def)

text \<open>The removals.\<close>

lemma destroy_finally_removed:
  assumes "destroy_finally E res (s, t) = (d, (s', t'))"
    and "res = Inr () \<Longrightarrow> \<forall>k \<in> set VAULT_DEVICE_KEYS. vals s k = None"
  shows "removed_so_far (vals s') d \<and> s' = s"
  using assms
  by (cases res) (auto simp: destroy_finally_def removed_so_far_def split: option.splits prod.splits)

lemma destroy_next_removed:
  assumes "destroy_next D E ks (s, t) = (d, (s', t'))" and "set ks \<subseteq> set VAULT_DEVICE_KEYS"
    and "\<forall>k \<in> set VAULT_DEVICE_KEYS - set ks. vals s k = None"
  shows "removed_so_far (vals s') d \<and> same_elsewhere (vals s) (vals s')"
proof (cases ks)
  case Nil
  with assms(1,3) have "removed_so_far (vals s') d \<and> s' = s"
    by (intro destroy_finally_removed [of E "Inr ()" s t d s' t']) simp_all
  then show ?thesis by (auto simp: same_elsewhere_def)
next
  case (Cons k rest)
  with assms(1) obtain res where d: "ds_remove D k s = (res, s')" "d = Destroy_waits res rest"
    by (auto split: prod.splits)
  have "removed_so_far (vals s') d"
    using assms(2,3) remove_ok d Cons by (cases res) (auto simp: removed_so_far_def)
  then show ?thesis using remove_elsewhere [OF d(1)] assms(2) Cons by simp
qed

lemma destroy_step_removed:
  assumes "destroy_step D E (d, (s, t)) = (d', (s', t'))" and inv: "removed_so_far (vals s) d"
  shows "removed_so_far (vals s') d' \<and> same_elsewhere (vals s) (vals s')"
proof (cases "(D, E, d, (s, t))" rule: destroy_step.cases)
  case (1 D' E' e rest x)
  then show ?thesis using assms(1) destroy_finally_removed [of E "Inl (Device e)" s t d' s' t']
    by (auto simp: same_elsewhere_def)
next
  case (2 D' E' u rest x)
  then show ?thesis using assms destroy_next_removed [of E rest s t d' s' t'] by (auto simp: removed_so_far_def)
next
  case (4 D' E' u res x)
  then show ?thesis using assms by (cases res) (auto simp: removed_so_far_def same_elsewhere_def)
qed (use assms in \<open>auto simp: removed_so_far_def same_elsewhere_def\<close>)

text \<open>The other methods.\<close>

lemma method_step_elsewhere:
  assumes "method_step L D (p, (s, w)) = (p', (s', w'))"
  shows "same_elsewhere (vals s) (vals s')"
proof (cases "(L, D, p, (s, w))" rule: method_step.cases)
  case (1 L' D' handed point x)
  obtain q a b where "save_resume L D handed point (s, w) = (q, (a, b))" by (metis prod_cases3)
  then show ?thesis
    using assms 1 vault_keys
    by (cases "(L, D, handed, point, (s, w))" rule: save_resume.cases)
      (auto simp: save_fails_def same_elsewhere_def dest: get_vals set_elsewhere split: prod.splits sum.splits)
next
  case (2 L' D' point x)
  then show ?thesis
    using assms
    by (cases "(L, D, point, (s, w))" rule: change_resume.cases)
      (auto simp: change_fails_def dest: get_vals split: prod.splits sum.splits)
qed (use assms in simp_all)

lemma begin_elsewhere:
  "save_begin L D (s, w, r) = (p, (s', w', r')) \<Longrightarrow> same_elsewhere (vals s) (vals s')"
  "change_begin L D cur new (s, w, r) = (q, (s', w', r')) \<Longrightarrow> same_elsewhere (vals s) (vals s')"
  using vault_keys
  by (auto simp: save_begin_def change_begin_def dest: set_elsewhere split: prod.splits sum.splits if_splits)

text \<open>One step of overlapping methods on a locked object, and one step of any.\<close>

lemma shut_overlap_step:
  assumes "overlap_step L D E x y" and shut: "shut (ov_session x)"
  shows "ov_session y = ov_session x \<and> ov_random y = ov_random x \<and>
    succeeded (ov_methods y) \<subseteq> succeeded (ov_methods x) \<and>
    (vals (ov_device y) = vals (ov_device x) \<and> ov_destroy y = ov_destroy x \<or> ov_destroy y \<noteq> None)"
  using assms(1)
proof cases
  case (ov_call call out w r)
  then show ?thesis using shut_step [OF shut ov_call(2)] by simp
next
  case (ov_save p s w r)
  then show ?thesis using shut_begin(1) [OF shut, of L D] by (auto simp: succeeded_append)
next
  case (ov_change cur new q s w r)
  then show ?thesis using shut_begin(2) [OF shut, of L D] by (auto simp: succeeded_append)
next
  case (ov_method i m s w)
  then show ?thesis using shut_method_step [OF shut ov_method(3)] succeeded_update [of m _ i] by simp
next
  case (ov_destroy d s t w)
  with shut show ?thesis by (auto simp: destroy_begin_def shut_def split: prod.splits)
qed auto

lemma overlap_step_ok:
  assumes step: "overlap_step L D E x y" and ok: "destruction_ok vals x"
  shows "destruction_ok vals y \<and> same_elsewhere (vals (ov_device x)) (vals (ov_device y))"
  using step
proof cases
  case (ov_call call out w r)
  then show ?thesis using ok shut_step [OF _ ov_call(2)] by (auto simp: destruction_ok_def)
next
  case (ov_save p s w r)
  then show ?thesis using ok shut_begin(1) [of "ov_session x" L D] begin_elsewhere(1) [OF ov_save(2)] by (auto simp: destruction_ok_def)
next
  case (ov_change cur new q s w r)
  then show ?thesis using ok shut_begin(2) [of "ov_session x" L D] begin_elsewhere(2) [OF ov_change(2)] by (auto simp: destruction_ok_def)
next
  case (ov_method i m s w)
  then show ?thesis using ok shut_method_step [OF _ ov_method(3)] method_step_elsewhere [OF ov_method(3)]
    by (auto simp: destruction_ok_def)
next
  case (ov_destroy d s t w)
  then have "destroy_next D E VAULT_DEVICE_KEYS (ov_device x, ov_secure x) = (d, (s, t))"
    and w: "w = wasm_lock (ov_session x)"
    by (auto simp: destroy_begin_def split: prod.splits)
  from destroy_next_removed [OF this(1)] w ov_destroy(1) show ?thesis by (simp add: destruction_ok_def)
next
  case (ov_removal d d' s t)
  then show ?thesis using ok destroy_step_removed [OF ov_removal(3)] by (auto simp: destruction_ok_def)
qed

lemma overlap_ok:
  assumes "(overlap_step L D E)\<^sup>*\<^sup>* x y" and "destruction_ok vals x"
  shows "destruction_ok vals y \<and> same_elsewhere (vals (ov_device x)) (vals (ov_device y))"
  using assms by (induction rule: rtranclp_induct) (auto dest: overlap_step_ok intro: same_elsewhere_trans)

lemma shut_overlap:
  assumes "(overlap_step L D E)\<^sup>*\<^sup>* x y" and "shut (ov_session x)" and "ov_destroy y = None"
  shows "ov_session y = ov_session x \<and> ov_random y = ov_random x \<and>
    succeeded (ov_methods y) \<subseteq> succeeded (ov_methods x) \<and> vals (ov_device y) = vals (ov_device x)"
  using assms
proof (induction rule: converse_rtranclp_induct)
  case (step a b)
  have "ov_destroy b = None" if "ov_destroy y = None"
  proof (rule ccontr)
    assume "ov_destroy b \<noteq> None"
    with step.hyps(2) have "ov_destroy y \<noteq> None" by (rule destruction_goes_on)
    with that show False by simp
  qed
  with step shut_overlap_step [OF step.hyps(1)] show ?case by auto
qed simp

end

end
