(* ===== verification/Segment_Properties.thy ===== *)
theory Segment_Properties
  imports Segments Interleaving_Properties
begin

text \<open>
  The properties of the waiting methods of the client when they overlap: a lock stops every one of
  them, and a destruction leaves nothing behind.
\<close>

section \<open>A sample\<close>

text \<open>The edited sample vault, before its save.\<close>

definition sample_overlap :: "(memory, unit, nat) overlap" where
  "sample_overlap = \<lparr>ov_device = sample_device, ov_secure = (),
     ov_session = js_idle sample_edited (cv_metadata sample_created), ov_random = 6, ov_methods = [],
     ov_destroy = None\<rparr>"

abbreviation sample_steps ::
  "(memory, unit, nat) overlap \<Rightarrow> (memory, unit, nat) overlap \<Rightarrow> bool" where
  "sample_steps \<equiv> overlap_step sample_ui memory_storage (None :: unit device_storage option)"

lemma reliable_memory:
  assumes "memory_reliable s"
  shows "memory_get k s = (Inr (ms_values s k), s)"
    and "memory_set k v s = (Inr (), s\<lparr>ms_values := (ms_values s)(k \<mapsto> v)\<rparr>)"
    and "memory_remove k s = (Inr (), s\<lparr>ms_values := (ms_values s)(k := None)\<rparr>)"
    and "memory_reliable (s\<lparr>ms_values := m\<rparr>)"
  using assms by (simp_all add: memory_reliable_def memory_get_def memory_set_def memory_remove_def)

text \<open>The save has written its slot and waits.\<close>

lemma sample_save_waits:
  obtains handed s w r where "memory_reliable s" and "sample_steps sample_overlap
    (sample_overlap\<lparr>ov_device := s, ov_session := w, ov_random := r,
       ov_methods := [Saving (Save_waits handed (Slot_set (Inr ())))]\<rparr>)"
proof -
  obtain handed w r where prep: "wasm_prepare_save sample_ui
      (js_idle sample_edited (cv_metadata sample_created), 6) = (Inr handed, (w, r))"
    and key: "save_bundle_slot_key handed = SLOT_B_KEY"
    by (rule sample_prepares)
  let ?s = "sample_device\<lparr>ms_values := (ms_values sample_device)(SLOT_B_KEY \<mapsto> save_bundle_slot_json handed)\<rparr>"
  have begin': "save_begin sample_ui memory_storage (ov_device sample_overlap, ov_session sample_overlap,
      ov_random sample_overlap) = (Save_waits handed (Slot_set (Inr ())), (?s, w, r))"
    using prep key by (simp add: save_begin_def sample_overlap_def ALLOWED_SLOT_KEYS_def
        reliable_memory [OF sample_device_reliable])
  show ?thesis
    using overlap_step.ov_save [OF begin'] reliable_memory(4) [OF sample_device_reliable]
    by (intro that [of ?s handed r w]) (simp_all add: sample_overlap_def)
qed

text \<open>C22: A lock stops every method that waits. Once the session object is locked, whatever calls are
  made on it, whatever methods are started on it and in whatever order their segments run, the object
  stays locked, no randomness is drawn, the stored values do not change, no method succeeds that had
  not, and each ends within two of its segments.\<close>

theorem locked_methods_are_inert:
  assumes "lawful_storage D vals reliable" and "shut (ov_session x)"
    and "(overlap_step L D E)\<^sup>*\<^sup>* x y" and "ov_destroy y = None"
  shows "wasm_is_locked (ov_session y) \<and> ov_session y = ov_session x \<and> ov_random y = ov_random x \<and>
    vals (ov_device y) = vals (ov_device x) \<and> succeeded (ov_methods y) \<subseteq> succeeded (ov_methods x) \<and>
    (\<exists>res. method_result (fst ((method_step L D ^^ 2) (p, (ov_device y, ov_session y)))) = Some res)"
proof -
  note inert = lawful_storage.shut_overlap [OF assms(1,3,2,4)]
  with assms(2) have shut: "shut (ov_session y)" by simp
  show ?thesis using inert shut_is_locked [OF shut] by (intro conjI shut_two_segments [OF shut]) simp_all
qed

lemma locked_methods_are_inert_witness:
  "\<exists>x y. sample_steps\<^sup>*\<^sup>* sample_overlap x \<and> ov_methods x \<noteq> [] \<and> sample_steps x y \<and> ov_methods x \<noteq> ov_methods y \<and>
     wasm_is_locked (ov_session y) \<and> ms_values (ov_device y) = ms_values (ov_device x) \<and>
     succeeded (ov_methods y) = {}"
proof -
  obtain handed s w r where s: "memory_reliable s" and save: "sample_steps sample_overlap
      (sample_overlap\<lparr>ov_device := s, ov_session := w, ov_random := r,
        ov_methods := [Saving (Save_waits handed (Slot_set (Inr ())))]\<rparr>)" (is "sample_steps _ ?x1")
    by (rule sample_save_waits)
  let ?x2 = "?x1\<lparr>ov_session := wasm_lock w, ov_random := r\<rparr>"
  let ?y = "?x2\<lparr>ov_device := s, ov_session := wasm_lock w, ov_methods :=
    [Saving (Save_waits handed (Slot_get (Inr (ms_values s (save_bundle_slot_key handed)))))]\<rparr>"
  have lock: "sample_steps ?x1 ?x2"
    by (rule overlap_step.ov_call [where call = JsLock and out = "Inr Unit"]) simp
  have read: "sample_steps ?x2 ?y"
    using overlap_step.ov_method [of 0 ?x2 sample_ui memory_storage] by (simp add: reliable_memory [OF s])
  have idle: "ov_destroy ?y = None" by (simp add: sample_overlap_def)
  have run: "sample_steps\<^sup>*\<^sup>* ?x2 ?y" using read by (rule r_into_rtranclp)
  have shut: "shut (ov_session ?x2)" by simp
  from locked_methods_are_inert [OF mem.lawful_storage_axioms shut run idle]
  have "wasm_is_locked (ov_session ?y) \<and> ms_values (ov_device ?y) = ms_values (ov_device ?x2) \<and>
      succeeded (ov_methods ?y) \<subseteq> succeeded (ov_methods ?x2)" by simp
  moreover have "succeeded (ov_methods ?x2) = {}" by (auto simp: succeeded_def)
  moreover have "sample_steps\<^sup>*\<^sup>* sample_overlap ?x2" using save lock by (meson converse_rtranclp_into_rtranclp rtranclp.rtrancl_refl)
  moreover have "ov_methods ?x2 \<noteq> []" "ov_methods ?x2 \<noteq> ov_methods ?y" by simp_all
  ultimately show ?thesis using read by blast
qed

text \<open>C21: A destroyed vault stays destroyed. Whatever saves and changes of the password wait when
  \<open>destroySession\<close> is called on the session, whatever is called on it and started on it meanwhile, and
  in whatever order the segments run: when the destruction has reported success, and ever after, the
  device holds none of the five values of the vault, every other value is as it was at the start, and
  the session object is locked.\<close>

theorem destroyed_vault_stays_destroyed:
  assumes "lawful_storage D vals reliable" and "ov_destroy x = None"
    and "(overlap_step L D E)\<^sup>*\<^sup>* x y" and "ov_destroy y = Some (Destroy_done (Inr ()))"
  shows "vals (ov_device y) k = (if k \<in> set VAULT_DEVICE_KEYS then None else vals (ov_device x) k) \<and>
    wasm_is_locked (ov_session y)"
proof -
  have "destruction_ok vals x" using assms(2) by (simp add: destruction_ok_def)
  from lawful_storage.overlap_ok [OF assms(1,3) this] assms(4) show ?thesis
    by (auto simp: destruction_ok_def removed_so_far_def same_elsewhere_def shut_is_locked)
qed


text \<open>The removals of a destruction on a device that answers.\<close>

lemma sample_removals:
  assumes "ov_destroy x = Some (Destroy_waits (Inr ()) ks)" and "memory_reliable (ov_device x)"
  shows "\<exists>y. sample_steps\<^sup>*\<^sup>* x y \<and> ov_destroy y = Some (Destroy_done (Inr ()))"
  using assms
proof (induction ks arbitrary: x)
  case Nil
  then have "sample_steps x (x\<lparr>ov_device := ov_device x, ov_secure := ov_secure x,
      ov_destroy := Some (Destroy_done (Inr ()))\<rparr>)" (is "sample_steps x ?y")
    by (intro overlap_step.ov_removal [OF Nil.prems(1)]) (simp add: destroy_finally_def)
  moreover have "ov_destroy ?y = Some (Destroy_done (Inr ()))" by simp
  ultimately show ?case by (metis r_into_rtranclp)
next
  case (Cons k ks)
  let ?s = "(ov_device x)\<lparr>ms_values := (ms_values (ov_device x))(k := None)\<rparr>"
  let ?y = "x\<lparr>ov_device := ?s, ov_secure := ov_secure x, ov_destroy := Some (Destroy_waits (Inr ()) ks)\<rparr>"
  have step: "sample_steps x ?y"
    by (rule overlap_step.ov_removal [OF Cons.prems(1)]) (simp add: reliable_memory [OF Cons.prems(2)])
  have "\<exists>z. sample_steps\<^sup>*\<^sup>* ?y z \<and> ov_destroy z = Some (Destroy_done (Inr ()))"
    by (rule Cons.IH) (simp_all add: reliable_memory(4) [OF Cons.prems(2)])
  with step show ?case by (meson converse_rtranclp_into_rtranclp)
qed

lemma destroyed_vault_stays_destroyed_witness:
  "\<exists>y. sample_steps\<^sup>*\<^sup>* sample_overlap y \<and> ov_destroy y = Some (Destroy_done (Inr ())) \<and>
     ms_values (ov_device y) SLOT_B_KEY = None \<and> ms_values (ov_device y) META_KEY = None \<and>
     wasm_is_locked (ov_session y)"
proof -
  obtain handed s w r where s: "memory_reliable s" and save: "sample_steps sample_overlap
      (sample_overlap\<lparr>ov_device := s, ov_session := w, ov_random := r,
        ov_methods := [Saving (Save_waits handed (Slot_set (Inr ())))]\<rparr>)" (is "sample_steps _ ?x1")
    by (rule sample_save_waits)
  let ?s2 = "s\<lparr>ms_values := (ms_values s)(SLOT_A_KEY := None)\<rparr>"
  have s2: "memory_reliable ?s2" by (rule reliable_memory(4) [OF s])
  let ?x2 = "?x1\<lparr>ov_device := ?s2, ov_secure := (), ov_session := wasm_lock w,
    ov_destroy := Some (Destroy_waits (Inr ()) (tl VAULT_DEVICE_KEYS))\<rparr>"
  let ?x3 = "?x2\<lparr>ov_device := ?s2, ov_session := wasm_lock w, ov_methods :=
    [Saving (Save_waits handed (Slot_get (Inr (ms_values ?s2 (save_bundle_slot_key handed)))))]\<rparr>"
  have destroy: "sample_steps ?x1 ?x2"
    by (rule overlap_step.ov_destroy)
      (simp_all add: sample_overlap_def destroy_begin_def VAULT_DEVICE_KEYS_def reliable_memory [OF s])
  have read: "sample_steps ?x2 ?x3"
    using overlap_step.ov_method [of 0 ?x2 sample_ui memory_storage] by (simp add: reliable_memory [OF s2])
  obtain y where y: "sample_steps\<^sup>*\<^sup>* ?x3 y" "ov_destroy y = Some (Destroy_done (Inr ()))"
    using sample_removals [of ?x3 "tl VAULT_DEVICE_KEYS"] s2 by auto
  have run: "sample_steps\<^sup>*\<^sup>* sample_overlap y"
    using save destroy read y(1) by (meson converse_rtranclp_into_rtranclp)
  have before: "ov_destroy sample_overlap = None" by (simp add: sample_overlap_def)
  note gone = destroyed_vault_stays_destroyed [OF mem.lawful_storage_axioms before run y(2)]
  show ?thesis
    using run y(2) gone [of SLOT_B_KEY] gone [of META_KEY] by (auto simp: VAULT_DEVICE_KEYS_def)
qed

end
