(* ===== verification/Spec2Isabelle.thy ===== *)
theory Spec2Isabelle
  imports Recovery_Properties Wasm_Properties Client_Properties Vault_Limits Redaction
    Page_Properties Interleaving_Properties Segment_Properties
begin

text \<open>
  Pocket Vault: an encrypted password vault for a mini-application in the browser. This library
  models its Rust code and the JavaScript client down to the calls of the user interface, and
  proves what makes them correct.

  The program. A vault is a container of entries, encrypted under a random data key, which is
  itself wrapped under a key derived from the master password (\<open>crates/vault-core/src/crypto.rs\<close>,
  \<open>vault.rs\<close>). The device holds four values: the metadata with the wrapped key, two slots A and B
  with encrypted containers, and a pointer to one of them (\<open>storage.rs\<close>). A save encrypts the next
  generation for the slot that is not in use, checks what the device gives back and only then
  moves the pointer; opening takes the newest slot that authenticates and repairs the pointer. In
  the browser the same happens in two phases, since JavaScript owns the device: \<open>VaultBridge\<close>
  (\<open>crates/vault-wasm/src/bridge.rs\<close>) prepares values and checks read-backs, \<open>wasm.rs\<close> is its
  JavaScript interface and \<open>web/src/vault-persistence.js\<close> drives it. Its device is
  \<open>web/src/storage.js\<close>, which polls the storage of the Telegram client until a change can be read
  back. On top is \<open>web/src/app-controller.js\<close>, which holds the session, the state that the screens
  show and the deadline of the automatic lock; around it is the page, \<open>web/app.js\<close>, which starts it
  over the storage of the host (\<open>bootstrap.js\<close>, \<open>telegram.js\<close>) and keeps a timer for the deadline.

  The theories, in the order of the code:

  \<^item> \<open>Prelude\<close>: results as sums, results with a threaded state (\<open>eff\<close>, \<open>bindE\<close>), \<open>checked_add\<close>,
    big-endian encodings. \<open>Rust_String\<close>: strings as lists of scalar values, UTF-8 and its decoder.
    \<open>Rust_Order\<close>: \<open>Ordering\<close>, \<open>cmp\<close>, \<open>sort_by\<close> and the locale \<open>comparison\<close>. \<open>Float64\<close>: IEEE
    numbers as bit patterns, decimal texts and the parser of \<open>u64\<close>. \<open>Js_Number\<close>: \<open>Number\<close> of a text,
    with rounding to the nearest number.
  \<^item> \<open>Errors\<close> (\<open>error.rs\<close>), \<open>Encoding\<close> (\<open>encoding.rs\<close>), \<open>Model\<close> and \<open>Codec\<close> (\<open>model.rs\<close>: the data
    types, their validators, and their serde forms), \<open>Crypto\<close> (\<open>crypto.rs\<close>), \<open>Vault\<close> and
    \<open>Vault_Entries\<close> (\<open>vault.rs\<close>: life cycle and entry operations), \<open>Storage\<close> and \<open>Repository\<close>
    (\<open>storage.rs\<close>: the storage trait, \<open>MemoryStorage\<close>, \<open>TwoSlotRepository\<close>), \<open>Redaction\<close> (the \<open>Debug\<close>
    and \<open>Drop\<close> impls of \<open>model.rs\<close> and \<open>vault.rs\<close>, \<open>BrowserCryptoRng\<close> of \<open>wasm.rs\<close>).
  \<^item> \<open>Bridge\<close> (\<open>bridge.rs\<close>) and \<open>Wasm\<close> (\<open>wasm.rs\<close>); \<open>Persistence\<close> (\<open>vault-persistence.js\<close>),
    \<open>Adapter\<close> (\<open>storage.js\<close> and the storage of \<open>preview-runtime.js\<close>), \<open>Controller\<close>
    (\<open>app-controller.js\<close> and the check of \<open>session-preferences.js\<close>), \<open>Preferences\<close> (the rest of
    \<open>session-preferences.js\<close>, its form in \<open>app.js\<close>, \<open>theme.js\<close>), \<open>Bootstrap\<close> (\<open>telegram.js\<close>,
    \<open>bootstrap.js\<close>, the choice of the runtime in \<open>app.js\<close>, the rest of \<open>preview-runtime.js\<close>), \<open>App_Shell\<close>
    (the handlers and the timer of \<open>app.js\<close>).
  \<^item> \<open>Simulation\<close>: the interface of a component to its abstract specification. \<open>Recovery\<close> and
    \<open>Client_Recovery\<close>: what operations leave on a device. \<open>Session\<close>: the browser session as a
    state machine. \<open>Client_Sessions\<close>: what the client's methods do to a session on any device.
    \<open>Controller_Machine\<close>: the controller as a state machine. \<open>Interleaving\<close> and
    \<open>Interleaving_Safety\<close>: its saves and password changes with the calls that the page makes at each
    \<open>await\<close>. \<open>Segments\<close>: the saves, password changes and destructions of \<open>vault-persistence.js\<close> taken
    apart at their awaits, and the step relation \<open>overlap_step\<close>, in which the segments of any number of
    them run in any order on one session. \<open>Sample_Deps\<close>: the concrete third-party functions of the witnesses.
  \<^item> \<open>Recovery_Properties\<close>, \<open>Session_Properties\<close>, \<open>Wasm_Properties\<close>, \<open>Client_Properties\<close>,
    \<open>Vault_Limits\<close>, \<open>Controller_Properties\<close>, \<open>Interleaving_Properties\<close>, \<open>Segment_Properties\<close>,
    \<open>Page_Properties\<close>: the properties that rest on several components; those of one component are at the end of its theory.

  Correspondence. A Rust struct is a record, an enum a datatype, \<open>u32\<close> and \<open>u64\<close> are words, a
  \<open>usize\<close> that only measures a length is a natural. \<open>Result\<close> is a sum with the error on the left,
  \<open>?\<close> is \<open>and_then\<close> or \<open>bindE\<close>; an operation on \<open>&mut self\<close> returns the new state on both branches.
  A panic is the constructor \<open>Panic\<close> of the error type, so that its absence is a theorem. An
  operation that draws randomness or calls the device threads the state of the source or adapter.

  Parameters. The code's third-party packages are fields of one record: Base64, \<open>serde_json\<close> for each
  type that is printed or parsed, Argon2id, HKDF, XChaCha20-Poly1305 and the random source. The
  laws used of them are \<open>base64_laws\<close> and \<open>codec_laws\<close> (decoding inverts encoding), \<open>crypto_laws\<close>
  (decryption inverts encryption with the same key, nonce and associated data, ciphertexts are 16
  bytes longer, keys have their length) and \<open>rng_laws\<close> (the source fills the whole buffer).
  \<open>pointer_fits\<close> and \<open>metadata_fits\<close> say that these small objects print within the limits that the
  repository enforces. No law says that decryption under a wrong key fails; theorems that need a
  failure take it as a hypothesis. The device is the locale \<open>lawful_storage\<close>: a successful call does
  what it says, a failed write may or may not have happened, other keys are untouched; a device
  that is \<open>reliable\<close> answers every call on a non-empty key. The locale is interpreted on
  \<open>MemoryStorage\<close>; the theorem \<open>save_trusts_only_what_it_read\<close> needs no law of it. The storage of
  the Telegram client is the record \<open>callback_store\<close>: what it calls back and
  when is its answer to a call. \<open>ui_laws\<close> says that the list of entries prints and parses back.

  Interfaces. \<open>simulation\<close> (step, invariant, abstraction, specification) is interpreted by the entry
  operations against a map with a clock (\<open>entry_spec\<close>), by the session calls against the protocol
  of phases (\<open>protocol\<close>), by the JavaScript calls against the same protocol (\<open>js_protocol\<close>) and by
  the calls of the controller against the timer of the automatic lock (\<open>autolock\<close>).
  \<open>comparison\<close> is interpreted by the order on slot candidates and by the order of the screen.
  \<open>callback_contract\<close> is what the adapter needs of a callback storage; it is interpreted on the
  storage of the preview, and a \<open>sublocale\<close> makes the adapter over such a storage a
  \<open>lawful_storage\<close>, so that every theorem about a device holds of it. \<open>lawful_storage\<close> carries all
  lemmas about the repository and the client; a property gets its device as a hypothesis and
  applies them.

  What the lemmas show. \<open>Codec\<close>: reading inverts writing for every stored type, and what is read is
  well typed. \<open>Crypto\<close>: wrapping and unwrapping, binding of a ciphertext to vault, side and
  generation through injective associated data. \<open>Vault\<close>: creation, unlocking, password change,
  verification and commit. \<open>Vault_Entries\<close>: the operations refine a map, keep the vault valid,
  leave it alone on error, and new identifiers are fresh. \<open>Recovery\<close>: \<open>recoverable\<close> relates stored
  values to a session; every operation keeps it on every outcome, and a recoverable device opens
  to contents it names. \<open>Session\<close>: the invariant \<open>session_ok\<close> and one simulation step per phase.
  \<open>Client_Recovery\<close>: the same for the methods of the client. \<open>Adapter\<close>: a change is reported only
  when it was read back, and every call returns. \<open>Controller_Machine\<close>: the invariant \<open>app_inv\<close>, and
  for every method the step of the timer that it makes (\<open>moves\<close>). \<open>Interleaving\<close>: a
  call of the page keeps the controller well formed and can touch the shared session only by locking
  it (\<open>page_calls_inv\<close>), so a save that succeeds is the save without the page; a method that would wait itself is refused
  while another waits (\<open>undecided_waiting_step\<close>). \<open>Segments\<close>: segments run alone are the method, on a locked session they only
  read, and a destruction that has begun goes on removing (\<open>overlap_step_ok\<close>). \<open>App_Shell\<close>: \<open>page_inv\<close>, the timer of the page is
  the one for the deadline of the session. \<open>Redaction\<close>: what \<open>Debug\<close> shows.

  Bounds and recursion. Every recursion of the model is structural or has a proved measure (the
  decoder of UTF-8, decimal printing); no definition uses fuel. The polling loop of
  the adapter is a \<open>partial_function\<close>, since it ends only if the clock advances: \<open>clock_laws\<close> says so,
  and \<open>verified_mutation_returns\<close> proves that it returns, and on a host whose timers are not late
  (\<open>punctual\<close>) within twice the timeout of the adapter. The retry loop for identifiers runs
  at most eight times, as in the code. Numbers are kept at their width; the generation counter is
  advanced by \<open>checked_add\<close> and the properties show that it never wraps. The absolute value of a
  double is counted in units of \<open>2 ^ -1075\<close>, in which every finite double is a natural.

  Not modelled: the interior of the cryptographic packages and of the JSON printer; the memory that
  \<open>zeroize\<close> overwrites; timing other than the times that the code reads; the crate roots, which only
  re-export; tests. Of the web client: the documents, styles and texts, the translation of \<open>i18n.js\<close> and
  the labels of the controls, which present what is modelled; the forms that only check an input and
  call one method of the controller; the listeners of \<open>setState\<close> other than the one that arms the timer.
  Reads and removals that are started together are taken in order. While a save or a change of
  the password waits, all methods that do not wait may run, and a second save, deletion or change is
  refused; in \<open>Segments\<close> a destruction may overlap them too, each call of the device taking effect when
  it is made. An unlock or a creation that overlaps another method is left out. A
  write of the Telegram storage does not take effect after the adapter has given up on it.
\<close>

end
